(* ===== verification/Prelude.thy ===== *)
theory Prelude
imports Complex_Main "HOL-Library.AList" "HOL-Library.Word"
begin

text \<open>
  Shared vocabulary of the development: the collections the component proofs are driven by, the
  types the whole backend uses (Rust strings as UTF-8 byte lists, machine integers as words,
  monotonic instants and durations in nanoseconds, hash maps as association lists with distinct
  keys) and the generic lemmas on association lists.
\<close>

section \<open>Fact collections\<close>

named_theorems map_simps \<open>lookup and key facts of the association lists that stand for hash maps\<close>
named_theorems op_simps \<open>equations that characterise an operation of the backend on each branch\<close>
named_theorems inv_intros \<open>preservation facts of the component invariants\<close>

section \<open>Types used everywhere\<close>

text \<open>
  A Rust \<open>String\<close> is a vector of bytes that is valid UTF-8; a HOL \<open>char\<close> is one byte, so
  \<open>length\<close> is \<open>str::len\<close>. \<open>Instant\<close> is the monotonic clock in nanoseconds since an arbitrary
  origin, \<open>Duration\<close> a number of nanoseconds.
\<close>

type_synonym u8 = "8 word"
type_synonym u16 = "16 word"
type_synonym u32 = "32 word"
type_synonym u64 = "64 word"
type_synonym i64 = "64 word" \<comment> \<open>read with \<open>sint\<close>\<close>
type_synonym instant = int
type_synonym duration = int

definition saturating_duration_since :: "instant \<Rightarrow> instant \<Rightarrow> duration" where
  "saturating_duration_since now earlier = (if earlier \<le> now then now - earlier else 0)"

lemma saturating_duration_since_nonneg [simp]: "0 \<le> saturating_duration_since now earlier"
  by (simp add: saturating_duration_since_def)

lemma saturating_duration_since_self [simp]: "saturating_duration_since now now = 0"
  by (simp add: saturating_duration_since_def)

section \<open>Hash maps as association lists\<close>

text \<open>
  A \<open>HashMap\<close> is an association list with distinct keys: \<open>map_of\<close> is \<open>get\<close>, \<open>AList.update\<close> is
  \<open>insert\<close>, \<open>AList.delete\<close> is \<open>remove\<close>, \<open>filter\<close> on the entries is \<open>retain\<close>, \<open>length\<close> is
  \<open>len\<close>. The order of the entries stands for the unspecified iteration order.
\<close>

abbreviation keys :: "('k \<times> 'v) list \<Rightarrow> 'k list" where
  "keys m \<equiv> map fst m"

abbreviation contains_key :: "('k \<times> 'v) list \<Rightarrow> 'k \<Rightarrow> bool" where
  "contains_key m k \<equiv> map_of m k \<noteq> None"

definition retain :: "('v \<Rightarrow> bool) \<Rightarrow> ('k \<times> 'v) list \<Rightarrow> ('k \<times> 'v) list" where
  "retain P m = filter (\<lambda>kv. P (snd kv)) m"

lemma contains_key_iff [map_simps]: "contains_key m k \<longleftrightarrow> k \<in> set (keys m)"
  by (simp add: map_of_eq_None_iff)

lemma keys_retain_subset: "set (keys (retain P m)) \<subseteq> set (keys m)"
  by (auto simp: retain_def)

lemma distinct_retain [simp, inv_intros]: "distinct (keys m) \<Longrightarrow> distinct (keys (retain P m))"
  by (simp add: retain_def distinct_map_filter)

lemma length_retain_le: "length (retain P m) \<le> length m"
  by (simp add: retain_def)

lemma map_of_retain [map_simps]:
  "distinct (keys m) \<Longrightarrow>
   map_of (retain P m) k = (case map_of m k of Some v \<Rightarrow> if P v then Some v else None | None \<Rightarrow> None)"
proof (induction m)
  case Nil
  then show ?case by (simp add: retain_def)
next
  case (Cons kv m)
  then show ?case
    by (cases kv) (auto simp: retain_def map_of_eq_None_iff split: option.splits
        dest: map_of_SomeD intro: rev_image_eqI)
qed

lemma in_retain_iff [map_simps]: "(k, v) \<in> set (retain P m) \<longleftrightarrow> (k, v) \<in> set m \<and> P v"
  by (simp add: retain_def)

lemma retain_empty_iff: "retain P m = [] \<longleftrightarrow> (\<forall>kv \<in> set m. \<not> P (snd kv))"
  by (simp add: retain_def filter_empty_conv)

lemma length_AList_update [map_simps]:
  "length (AList.update k v m) = (if contains_key m k then length m else Suc (length m))"
  by (induction m) auto

lemma length_AList_delete [map_simps]:
  "distinct (keys m) \<Longrightarrow>
   length (AList.delete k m) = (if contains_key m k then length m - 1 else length m)"
proof (induction m)
  case Nil
  then show ?case by simp
next
  case (Cons kv m)
  then have "map_of m (fst kv) = None" and "distinct (keys m)"
    by (auto simp: map_of_eq_None_iff)
  with Cons.IH show ?case
    by (cases kv; cases "map_of m k"; cases m) (auto simp: AList.delete_eq)
qed

lemma set_AList_update [map_simps]:
  "distinct (keys m) \<Longrightarrow>
   set (AList.update k v m) = insert (k, v) {kv \<in> set m. fst kv \<noteq> k}"
  by (induction m) (auto simp: image_iff)

lemma map_of_SomeI [intro]: "distinct (keys m) \<Longrightarrow> (k, v) \<in> set m \<Longrightarrow> map_of m k = Some v"
  by simp

end
