(* ===== verification/Float64.thy ===== *)
theory Float64
imports Prelude
begin

text \<open>
  The \<open>f64\<close> arithmetic of the token buckets. A finite \<open>f64\<close> is a rational number; every operation
  computes the exact result and rounds it to the nearest representable number, ties to even, which
  is what IEEE 754 binary64 and Rust prescribe. The operands of the backend stay below \<open>2 ^ 80\<close>, so
  overflow to infinity and NaN cannot arise and are left out. The theory defines the rounding
  function, states the contract of a rounding as a locale, proves the facts the buckets use from
  that contract and discharges the contract for the binary64 rounding.
\<close>

section \<open>Rounding to binary64\<close>

type_synonym f64 = rat

function ilog2 :: "int \<Rightarrow> int" where
  "ilog2 n = (if n < 2 then 0 else ilog2 (n div 2) + 1)"
  by pat_completeness auto
termination by (relation "measure nat") auto

declare ilog2.simps [simp del]

definition pow2 :: "int \<Rightarrow> rat" where
  "pow2 e = 2 powi e"

text \<open>The binary exponent of a positive rational.\<close>

definition expo :: "rat \<Rightarrow> int" where
  "expo x = (case quotient_of x of (a, b) \<Rightarrow>
     let k = ilog2 a - ilog2 b in if pow2 k \<le> x then k else k - 1)"

text \<open>Round half to even.\<close>

definition rhe :: "rat \<Rightarrow> int" where
  "rhe x = (let n = \<lfloor>x\<rfloor>; f = x - of_int n in
     if f < 1/2 then n else if 1/2 < f then n + 1 else if even n then n else n + 1)"

text \<open>The distance between neighbouring numbers around \<open>x\<close>; \<open>2 powi -1074\<close> below the normal range.\<close>

definition ulp :: "rat \<Rightarrow> rat" where
  "ulp x = pow2 (max (expo x - 52) (-1074))"

definition rnd_pos :: "rat \<Rightarrow> rat" where
  "rnd_pos x = of_int (rhe (x / ulp x)) * ulp x"

definition rnd64 :: "rat \<Rightarrow> f64" where
  "rnd64 x = (if x = 0 then 0 else if x < 0 then - rnd_pos (- x) else rnd_pos x)"

section \<open>The operations of the language\<close>

definition f64_add :: "f64 \<Rightarrow> f64 \<Rightarrow> f64" where "f64_add a b = rnd64 (a + b)"
definition f64_sub :: "f64 \<Rightarrow> f64 \<Rightarrow> f64" where "f64_sub a b = rnd64 (a - b)"
definition f64_mul :: "f64 \<Rightarrow> f64 \<Rightarrow> f64" where "f64_mul a b = rnd64 (a * b)"
definition f64_div :: "f64 \<Rightarrow> f64 \<Rightarrow> f64" where "f64_div a b = rnd64 (a / b)"
definition f64_min :: "f64 \<Rightarrow> f64 \<Rightarrow> f64" where "f64_min a b = min a b"
definition f64_of_int :: "int \<Rightarrow> f64" where "f64_of_int n = rnd64 (of_int n)"

text \<open>\<open>x.ceil() as u64\<close>: the ceiling is exact and the cast saturates.\<close>

definition f64_ceil_as_u64 :: "f64 \<Rightarrow> u64" where
  "f64_ceil_as_u64 x = word_of_int (max 0 (min (2 ^ 64 - 1) \<lceil>x\<rceil>))"

text \<open>\<open>Duration::as_secs_f64\<close>: whole seconds plus nanoseconds over a billion, each step rounded.\<close>

definition nanos_per_sec :: int where "nanos_per_sec = 1000000000"

definition as_secs_f64 :: "duration \<Rightarrow> f64" where
  "as_secs_f64 d = f64_add (f64_of_int (d div nanos_per_sec))
     (f64_div (f64_of_int (d mod nanos_per_sec)) (f64_of_int nanos_per_sec))"

text \<open>The exact number of seconds, the reference the rounded one is compared with.\<close>

definition secs :: "duration \<Rightarrow> rat" where
  "secs d = of_int d / 1000000000"

section \<open>The rounding is monotone, exact on small integers and accurate\<close>

lemma pow2_pos [simp]: "0 < pow2 e"
  by (simp add: pow2_def)

lemma pow2_add: "pow2 (a + b) = pow2 a * pow2 b"
  by (simp add: pow2_def power_int_add)

lemma pow2_nonneg [simp]: "0 \<le> pow2 e"
  by (simp add: pow2_def)

lemma pow2_less [simp]: "pow2 a < pow2 b \<longleftrightarrow> a < b"
proof -
  have "a < b \<Longrightarrow> pow2 a < pow2 b" for a b
    by (simp add: pow2_def power_int_strict_increasing)
  from this [of a b] this [of b a] show ?thesis by (cases a b rule: linorder_cases) auto
qed

lemma pow2_mono [simp]: "pow2 a \<le> pow2 b \<longleftrightarrow> a \<le> b"
  using pow2_less [of b a] by linarith

lemma pow2_nonneg_int: "0 \<le> e \<Longrightarrow> pow2 e = of_int (2 ^ nat e)"
  by (simp add: pow2_def power_int_def)

lemma ilog2_bounds: "0 < n \<Longrightarrow> 0 \<le> ilog2 n \<and> 2 ^ nat (ilog2 n) \<le> n \<and> n < 2 ^ nat (ilog2 n + 1)"
proof (induction n rule: ilog2.induct)
  case (1 n)
  show ?case
  proof (cases "n < 2")
    case True
    with 1 show ?thesis by (simp add: ilog2.simps [of n])
  next
    case False
    let ?m = "ilog2 (n div 2)"
    from False 1 have IH: "0 \<le> ?m" "2 ^ nat ?m \<le> n div 2" "n div 2 < 2 ^ nat (?m + 1)"
      by auto
    have eq: "ilog2 n = ?m + 1" using False by (simp add: ilog2.simps [of n])
    from IH(1) have "nat (?m + 1) = Suc (nat ?m)" "nat (?m + 1 + 1) = Suc (nat (?m + 1))"
      by linarith+
    with IH eq show ?thesis by simp linarith
  qed
qed

lemma ilog2_pow2: "0 < n \<Longrightarrow> pow2 (ilog2 n) \<le> of_int n \<and> of_int n < pow2 (ilog2 n + 1)"
proof -
  assume "0 < n"
  from ilog2_bounds [OF this] show ?thesis
    by (simp only: pow2_nonneg_int of_int_le_iff of_int_less_iff) (simp add: pow2_nonneg_int)
qed

lemma expo_bounds:
  assumes "0 < x"
  shows "pow2 (expo x) \<le> x" "x < pow2 (expo x + 1)"
proof -
  obtain a b where q: "quotient_of x = (a, b)" by fastforce
  have b: "0 < b" and x: "x = of_int a / of_int b"
    using quotient_of_denom_pos [OF q] quotient_of_div [OF q] by auto
  with assms have a: "0 < a" by (simp add: zero_less_divide_iff)
  let ?k = "ilog2 a - ilog2 b"
  note A = ilog2_pow2 [OF a] and B = ilog2_pow2 [OF b]
  have up: "x < pow2 (?k + 1)"
  proof -
    have "of_int a < pow2 (?k + 1) * pow2 (ilog2 b)"
      using A by (simp flip: pow2_add)
    also have "\<dots> \<le> pow2 (?k + 1) * of_int b"
      using B by (intro mult_left_mono) auto
    finally show ?thesis using b by (simp add: x field_simps)
  qed
  have lo: "pow2 (?k - 1) < x"
  proof -
    have "pow2 (?k - 1) * of_int b < pow2 (?k - 1) * pow2 (ilog2 b + 1)"
      using B by (intro mult_strict_left_mono) auto
    also have "\<dots> = pow2 (ilog2 a)" by (simp flip: pow2_add)
    also have "\<dots> \<le> of_int a" using A by simp
    finally show ?thesis using b by (simp add: x field_simps)
  qed
  have e: "expo x = (if pow2 ?k \<le> x then ?k else ?k - 1)"
    by (simp add: expo_def q Let_def)
  show "pow2 (expo x) \<le> x" using lo by (auto simp: e)
  show "x < pow2 (expo x + 1)" using up by (auto simp: e)
qed

lemma expo_mono:
  assumes "0 < x" "x \<le> y"
  shows "expo x \<le> expo y"
proof -
  have "pow2 (expo x) < pow2 (expo y + 1)"
    using expo_bounds(1) [of x] expo_bounds(2) [of y] assms by linarith
  then show ?thesis by simp
qed

lemma expo_eqI:
  assumes "pow2 e \<le> x" "x < pow2 (e + 1)"
  shows "expo x = e"
proof -
  have x: "0 < x" using assms(1) pow2_pos [of e] by linarith
  have "pow2 (expo x) < pow2 (e + 1)" "pow2 e < pow2 (expo x + 1)"
    using expo_bounds [OF x] assms by linarith+
  then show ?thesis by simp
qed

lemma rhe_of_int [simp]: "rhe (of_int n) = n"
  by (simp add: rhe_def Let_def)

lemma rhe_cases: "rhe x = \<lfloor>x\<rfloor> \<and> x - of_int \<lfloor>x\<rfloor> \<le> 1/2 \<or> rhe x = \<lfloor>x\<rfloor> + 1 \<and> 1/2 \<le> x - of_int \<lfloor>x\<rfloor>"
  by (auto simp: rhe_def Let_def)

lemma rhe_mono: "x \<le> y \<Longrightarrow> rhe x \<le> rhe y"
proof -
  assume le: "x \<le> y"
  then have fl: "\<lfloor>x\<rfloor> \<le> \<lfloor>y\<rfloor>" by (rule floor_mono)
  show ?thesis
  proof (cases "\<lfloor>x\<rfloor> = \<lfloor>y\<rfloor>")
    case True
    with le show ?thesis by (auto simp: rhe_def Let_def)
  next
    case False
    with fl rhe_cases [of x] rhe_cases [of y] show ?thesis by linarith
  qed
qed

lemma rhe_error: "\<bar>of_int (rhe x) - x\<bar> \<le> 1/2"
  using rhe_cases [of x] floor_correct [of x] by (auto simp: abs_le_iff)

lemma ulp_pos [simp]: "0 < ulp x"
  by (simp add: ulp_def)

lemma ulp_nonneg [simp]: "0 \<le> ulp x" and ulp_nonzero [simp]: "ulp x \<noteq> 0"
  using ulp_pos [of x] by linarith+

lemma rnd_pos_le:
  assumes "x \<le> of_int n * ulp x"
  shows "rnd_pos x \<le> of_int n * ulp x"
proof -
  have "x / ulp x \<le> of_int n" using assms by (simp add: field_simps)
  then have "rhe (x / ulp x) \<le> n" using rhe_mono [of "x / ulp x" "of_int n"] by simp
  then show ?thesis by (simp add: rnd_pos_def)
qed

lemma rnd_pos_ge:
  assumes "of_int n * ulp x \<le> x"
  shows "of_int n * ulp x \<le> rnd_pos x"
proof -
  have "of_int n \<le> x / ulp x" using assms by (simp add: field_simps)
  then have "n \<le> rhe (x / ulp x)" using rhe_mono [of "of_int n" "x / ulp x"] by simp
  then show ?thesis by (simp add: rnd_pos_def)
qed

lemma rnd_pos_exact: "x = of_int n * ulp x \<Longrightarrow> rnd_pos x = x"
  using rnd_pos_le [of x n] rnd_pos_ge [of n x] by simp

lemma pow2_multiple:
  assumes "k \<le> e" shows "\<exists>n. pow2 e = of_int n * pow2 k"
proof -
  have "pow2 e = pow2 (e - k) * pow2 k" by (simp flip: pow2_add)
  also have "pow2 (e - k) = of_int (2 ^ nat (e - k))"
    using assms by (simp add: pow2_nonneg_int)
  finally show ?thesis by blast
qed

text \<open>A power of two between two arguments separates their roundings.\<close>

lemma rnd_pos_mono:
  assumes "0 < x" "x \<le> y"
  shows "rnd_pos x \<le> rnd_pos y"
proof (cases "ulp x = ulp y")
  case True
  have "x / ulp x \<le> y / ulp x" using assms by (intro divide_right_mono) auto
  with True show ?thesis by (simp add: rnd_pos_def rhe_mono mult_right_mono)
next
  case False
  let ?p = "pow2 (expo y)"
  from False have "expo x \<noteq> expo y" by (auto simp: ulp_def)
  with expo_mono [OF assms] have lt: "expo x < expo y" "-1074 < expo y - 52"
    using False by (auto simp: ulp_def max_def split: if_splits)
  have "x < pow2 (expo x + 1)" using expo_bounds(2) [OF assms(1)] .
  also have "\<dots> \<le> ?p" using lt(1) by simp
  finally have x: "x \<le> ?p" by simp
  have y: "?p \<le> y" using expo_bounds(1) [of y] assms by linarith
  have "max (expo x - 52) (-1074) \<le> expo y" using lt by linarith
  then obtain n where n: "?p = of_int n * ulp x" unfolding ulp_def using pow2_multiple by blast
  have "max (expo y - 52) (-1074) \<le> expo y" using lt by linarith
  then obtain m where m: "?p = of_int m * ulp y" unfolding ulp_def using pow2_multiple by blast
  have "rnd_pos x \<le> ?p" using rnd_pos_le [of x n] x n by simp
  moreover have "?p \<le> rnd_pos y" using rnd_pos_ge [of m y] y m by simp
  ultimately show ?thesis by simp
qed

lemma rnd_pos_nonneg: "0 < x \<Longrightarrow> 0 \<le> rnd_pos x"
  using rnd_pos_ge [of 0 x] by simp

lemma rnd64_mono: "x \<le> y \<Longrightarrow> rnd64 x \<le> rnd64 y"
  using rnd_pos_mono [of x y] rnd_pos_mono [of "- y" "- x"] rnd_pos_nonneg [of y] rnd_pos_nonneg [of "- x"]
  by (auto simp: rnd64_def)

lemma rnd_pos_error:
  assumes "0 < x"
  shows "\<bar>rnd_pos x - x\<bar> \<le> x / 2 ^ 53 + 1 / 2 ^ 1075"
proof -
  have "rnd_pos x - x = (of_int (rhe (x / ulp x)) - x / ulp x) * ulp x"
    by (simp add: rnd_pos_def field_simps)
  then have "\<bar>rnd_pos x - x\<bar> \<le> ulp x / 2"
    using mult_right_mono [OF rhe_error [of "x / ulp x"], of "ulp x"] by (simp add: abs_mult)
  also have "ulp x / 2 \<le> x / 2 ^ 53 + 1 / 2 ^ 1075"
  proof (cases "-1074 \<le> expo x - 52")
    case True
    then have "max (expo x - 52) (-1074) = expo x + - 52" by simp
    then have "ulp x = pow2 (expo x) * pow2 (- 52)" by (simp only: ulp_def pow2_add)
    also have "\<dots> \<le> x * pow2 (- 52)" using expo_bounds(1) [OF assms] by (intro mult_right_mono) auto
    finally show ?thesis by (simp add: pow2_def power_int_minus field_simps)
  next
    case False
    then have "ulp x = pow2 (- 1074)" by (simp add: ulp_def max_def)
    then show ?thesis using assms by (simp add: pow2_def power_int_minus field_simps)
  qed
  finally show ?thesis .
qed

lemma rnd64_error: "\<bar>rnd64 x - x\<bar> \<le> \<bar>x\<bar> / 2 ^ 53 + 1 / 2 ^ 1075"
  using rnd_pos_error [of x] rnd_pos_error [of "- x"] by (auto simp: rnd64_def)

text \<open>Every \<open>m * 2 powi k\<close> with a significand of at most 53 bits is representable.\<close>

lemma rnd_pos_representable:
  assumes x: "x = of_int m * pow2 k" and m: "0 < m" "m \<le> 2 ^ 53" and k: "- 1074 \<le> k"
  shows "rnd_pos x = x"
proof -
  have pos: "0 < x" using x m by simp
  have "\<exists>n. x = of_int n * ulp x"
  proof (cases "expo x - 52 \<le> k")
    case True
    with k obtain n where "pow2 k = of_int n * ulp x"
      unfolding ulp_def using pow2_multiple [of "max (expo x - 52) (-1074)" k] by auto
    then have "x = of_int (m * n) * ulp x" using x by simp
    then show ?thesis ..
  next
    case False
    have "x \<le> of_int (2 ^ 53) * pow2 k"
      unfolding x using m(2) by (intro mult_right_mono) (auto simp only: of_int_le_iff pow2_nonneg)
    also have "\<dots> = pow2 (k + 53)" by (simp add: pow2_add) (simp add: pow2_def)
    finally have up: "x \<le> pow2 (k + 53)" .
    moreover have "pow2 (k + 53) \<le> pow2 (expo x)" using False by simp
    ultimately have eq: "x = pow2 (expo x)" using expo_bounds(1) [OF pos] by linarith
    have "max (expo x - 52) (-1074) \<le> expo x" using False k by linarith
    then show ?thesis unfolding ulp_def using pow2_multiple eq by metis
  qed
  then show ?thesis using rnd_pos_exact by blast
qed

lemma rnd64_representable:
  assumes x: "x = of_int m * pow2 k" and m: "\<bar>m\<bar> \<le> 2 ^ 53" and k: "- 1074 \<le> k"
  shows "rnd64 x = x"
proof (cases m "0 :: int" rule: linorder_cases)
  case less
  then have "rnd_pos (- x) = - x"
    using rnd_pos_representable [of "- x" "- m" k] x m k by simp
  with less show ?thesis by (simp add: rnd64_def x mult_neg_pos)
next
  case equal
  with x show ?thesis by (simp add: rnd64_def)
next
  case greater
  then have "rnd_pos x = x" using rnd_pos_representable [of x m k] x m k by simp
  moreover have "0 < x" using greater by (simp add: x)
  ultimately show ?thesis by (simp add: rnd64_def)
qed

lemma rnd64_int: "\<bar>n\<bar> \<le> 2 ^ 53 \<Longrightarrow> rnd64 (of_int n) = of_int n"
  using rnd64_representable [of "of_int n" n 0] by (simp add: pow2_def)

lemma pow2_representable: "- 1074 \<le> k \<Longrightarrow> rnd64 (pow2 k) = pow2 k"
  using rnd64_representable [of "pow2 k" 1 k] by simp

lemma rnd_pos_significand:
  assumes "0 < x"
  shows "0 \<le> rhe (x / ulp x)" "rhe (x / ulp x) \<le> 2 ^ 53"
proof -
  have "x < pow2 (expo x + 1)" using expo_bounds(2) [OF assms] .
  also have "\<dots> = pow2 (53 + (expo x - 52))" by (simp add: algebra_simps)
  also have "\<dots> = of_int (2 ^ 53) * pow2 (expo x - 52)"
    by (simp only: pow2_add) (simp add: pow2_def)
  also have "\<dots> \<le> of_int (2 ^ 53) * ulp x" by (simp add: ulp_def)
  finally have "x / ulp x \<le> of_int (2 ^ 53)" by (simp add: field_simps)
  then show "rhe (x / ulp x) \<le> 2 ^ 53" using rhe_mono rhe_of_int by metis
  have "of_int 0 \<le> x / ulp x" using assms by simp
  then show "0 \<le> rhe (x / ulp x)" using rhe_mono rhe_of_int by metis
qed

lemma rnd64_idem [simp]: "rnd64 (rnd64 x) = rnd64 x"
proof -
  have pos: "rnd64 (rnd_pos x) = rnd_pos x" if "0 < x" for x
    using rnd_pos_significand [OF that]
    by (intro rnd64_representable [of _ "rhe (x / ulp x)" "max (expo x - 52) (-1074)"])
      (auto simp: rnd_pos_def ulp_def)
  have neg: "rnd64 (- y) = - rnd64 y" for y by (auto simp: rnd64_def)
  show ?thesis using pos [of x] pos [of "- x"] by (auto simp: rnd64_def [of x] neg) (simp add: rnd64_def)
qed

text \<open>A representable number below 1 leaves a gap of at least \<open>2 ^ -53\<close>.\<close>

lemma representable_below_1:
  assumes "rnd64 t = t" "t < 1"
  shows "t \<le> 1 - 1 / 2 ^ 53"
proof (cases "t < 1/2")
  case False
  then have t: "1/2 \<le> t" "0 < t" by auto
  have "expo t = -1" using t assms(2) by (intro expo_eqI) (auto simp: pow2_def power_int_minus)
  then have u: "ulp t = 1 / 2 ^ 53" by (simp add: ulp_def pow2_def power_int_minus field_simps)
  have "rnd_pos t = t" using assms(1) t(2) by (simp add: rnd64_def)
  then have "t = of_int (rhe (t / ulp t)) / 2 ^ 53" unfolding rnd_pos_def u by simp
  then obtain n where n: "t = of_int n / 2 ^ 53" by blast
  then have "of_int n < (of_int (2 ^ 53) :: rat)" using assms(2) by simp
  then have "n \<le> 2 ^ 53 - 1" by (simp only: of_int_less_iff)
  then have "(of_int n :: rat) \<le> of_int (2 ^ 53 - 1)" by (simp only: of_int_le_iff)
  with n show ?thesis by (simp add: field_simps)
qed simp

section \<open>The contract of a rounding, and what follows from it\<close>

locale f64_rounding =
  fixes rnd :: "rat \<Rightarrow> rat"
  assumes rnd_mono: "x \<le> y \<Longrightarrow> rnd x \<le> rnd y"
    and rnd_int: "\<bar>n\<bar> \<le> 2 ^ 53 \<Longrightarrow> rnd (of_int n) = of_int n"
    and rnd_error: "\<bar>rnd x - x\<bar> \<le> \<bar>x\<bar> / 2 ^ 53 + 1 / 2 ^ 60"
begin

lemma rnd_0 [simp]: "rnd 0 = 0"
  using rnd_int [of 0] by simp

lemma rnd_nonneg: "0 \<le> x \<Longrightarrow> 0 \<le> rnd x"
  using rnd_mono [of 0 x] by simp

lemma rnd_le_int: "x \<le> of_int n \<Longrightarrow> \<bar>n\<bar> \<le> 2 ^ 53 \<Longrightarrow> rnd x \<le> of_int n"
  using rnd_mono [of x "of_int n"] rnd_int [of n] by simp

lemma int_le_rnd: "of_int n \<le> x \<Longrightarrow> \<bar>n\<bar> \<le> 2 ^ 53 \<Longrightarrow> of_int n \<le> rnd x"
  using rnd_mono [of "of_int n" x] rnd_int [of n] by simp

lemma rnd_upper: "0 \<le> x \<Longrightarrow> rnd x \<le> x + x / 2 ^ 53 + 1 / 2 ^ 60"
  using rnd_error [of x] by simp

lemma rnd_lower: "0 \<le> x \<Longrightarrow> x - x / 2 ^ 53 - 1 / 2 ^ 60 \<le> rnd x"
  using rnd_error [of x] by simp

text \<open>The refill of a bucket: a product and a sum, each rounded, against the exact value.\<close>

lemma refill_lower:
  assumes t: "0 \<le> t" and r: "0 < r" "r \<le> 32" and d: "0 \<le> d"
    and es: "0 \<le> es" "d - d / 2 ^ 50 - 1 / 2 ^ 50 \<le> es"
  shows "(t + d * r) - (t + d * r) / 2 ^ 48 - 1 / 2 ^ 44 \<le> rnd (t + rnd (es * r))"
proof -
  let ?y = "d * r" and ?z = "es * r"
  have y: "0 \<le> ?y" and z: "0 \<le> ?z" using d r es by simp_all
  have "(d - d / 2 ^ 50 - 1 / 2 ^ 50) * r \<le> ?z" using es r by (intro mult_right_mono) auto
  then have 1: "?y - ?y / 2 ^ 50 - r / 2 ^ 50 \<le> ?z" by (simp add: algebra_simps)
  have 2: "?z - ?z / 2 ^ 53 - 1 / 2 ^ 60 \<le> rnd ?z" using rnd_lower z .
  have w: "0 \<le> t + rnd ?z" using t rnd_nonneg z by simp
  have 3: "(t + rnd ?z) - (t + rnd ?z) / 2 ^ 53 - 1 / 2 ^ 60 \<le> rnd (t + rnd ?z)"
    using rnd_lower w .
  show ?thesis using 1 2 3 t y r z w by (simp add: field_simps)
qed

lemma refill_upper:
  assumes t: "0 \<le> t" "t \<le> 64" and r: "0 < r" "r \<le> 32" and d: "0 \<le> d" "d \<le> 64" "d * r \<le> 64"
    and es: "0 \<le> es" "es \<le> d + d / 2 ^ 50 + 1 / 2 ^ 50"
  shows "rnd (t + rnd (es * r)) \<le> t + d * r + 1 / 2 ^ 38"
proof -
  let ?y = "d * r" and ?z = "es * r"
  have z: "0 \<le> ?z" using r es by simp
  have "?z \<le> (d + d / 2 ^ 50 + 1 / 2 ^ 50) * r" using es r by (intro mult_right_mono) auto
  then have 1: "?z \<le> ?y + ?y / 2 ^ 50 + r / 2 ^ 50" by (simp add: algebra_simps)
  have 2: "rnd ?z \<le> ?z + ?z / 2 ^ 53 + 1 / 2 ^ 60" using rnd_upper z .
  have w: "0 \<le> t + rnd ?z" using t rnd_nonneg z by simp
  have 3: "rnd (t + rnd ?z) \<le> (t + rnd ?z) + (t + rnd ?z) / 2 ^ 53 + 1 / 2 ^ 60"
    using rnd_upper w .
  show ?thesis using 1 2 3 t d r by (simp add: field_simps)
qed

end

interpretation f64: f64_rounding rnd64
proof unfold_locales
  show "\<bar>rnd64 x - x\<bar> \<le> \<bar>x\<bar> / 2 ^ 53 + 1 / 2 ^ 60" for x
  proof -
    have "(1 :: rat) / 2 ^ 1075 \<le> 1 / 2 ^ 60" by (intro divide_left_mono power_increasing) simp_all
    with rnd64_error [of x] show ?thesis by linarith
  qed
qed (simp_all add: rnd64_mono rnd64_int)

section \<open>Durations as floating-point seconds\<close>

lemma secs_split:
  "secs d = of_int (d div nanos_per_sec) + of_int (d mod nanos_per_sec) / 1000000000"
proof -
  have "d = d div nanos_per_sec * nanos_per_sec + d mod nanos_per_sec" by simp
  then have "(of_int d :: rat) = of_int (d div nanos_per_sec * nanos_per_sec + d mod nanos_per_sec)"
    by (rule arg_cong)
  also have "\<dots> = of_int (d div nanos_per_sec) * of_int nanos_per_sec + of_int (d mod nanos_per_sec)"
    by (simp only: of_int_add of_int_mult)
  finally show ?thesis by (simp add: secs_def nanos_per_sec_def field_simps)
qed

lemma secs_nonneg: "0 \<le> d \<Longrightarrow> 0 \<le> secs d"
  by (simp add: secs_def)

lemma as_secs_f64_eq:
  "as_secs_f64 d = rnd64 (rnd64 (of_int (d div nanos_per_sec)) +
     rnd64 (of_int (d mod nanos_per_sec) / 1000000000))"
proof -
  have "0 \<le> d mod nanos_per_sec" "d mod nanos_per_sec < 1000000000"
    by (simp_all add: nanos_per_sec_def)
  then have "f64_of_int (d mod nanos_per_sec) = of_int (d mod nanos_per_sec)"
    by (simp add: f64_of_int_def rnd64_int)
  moreover have "f64_of_int nanos_per_sec = 1000000000"
    using rnd64_int [of 1000000000] by (simp add: f64_of_int_def nanos_per_sec_def)
  ultimately show ?thesis
    by (simp add: as_secs_f64_def f64_add_def f64_div_def f64_of_int_def)
qed

lemma as_secs_parts_nonneg:
  "0 \<le> d \<Longrightarrow> 0 \<le> rnd64 (of_int (d div nanos_per_sec))"
  "0 \<le> rnd64 (of_int (d mod nanos_per_sec) / 1000000000)"
  by (intro f64.rnd_nonneg; simp add: nanos_per_sec_def pos_imp_zdiv_nonneg_iff)+

lemma as_secs_f64_nonneg: "0 \<le> d \<Longrightarrow> 0 \<le> as_secs_f64 d"
  unfolding as_secs_f64_eq using as_secs_parts_nonneg by (intro f64.rnd_nonneg) auto

lemma as_secs_f64_0 [simp]: "as_secs_f64 0 = 0"
  by (simp add: as_secs_f64_eq)

lemma as_secs_f64_whole: "\<bar>n\<bar> \<le> 2 ^ 53 \<Longrightarrow> as_secs_f64 (n * nanos_per_sec) = of_int n"
  by (simp add: as_secs_f64_eq rnd64_int nanos_per_sec_def)

lemma as_secs_f64_error:
  assumes d: "0 \<le> d"
  shows "secs d - secs d / 2 ^ 50 - 1 / 2 ^ 50 \<le> as_secs_f64 d"
    and "as_secs_f64 d \<le> secs d + secs d / 2 ^ 50 + 1 / 2 ^ 50"
proof -
  let ?s = "of_int (d div nanos_per_sec) :: rat"
  let ?n = "of_int (d mod nanos_per_sec) / 1000000000 :: rat"
  let ?x = "rnd64 ?s + rnd64 ?n"
  have s: "0 \<le> ?s" "0 \<le> ?n" using d by (simp_all add: nanos_per_sec_def pos_imp_zdiv_nonneg_iff)
  note b = f64.rnd_lower [OF s(1)] f64.rnd_lower [OF s(2)] f64.rnd_upper [OF s(1)] f64.rnd_upper [OF s(2)]
  have x: "0 \<le> ?x" using as_secs_parts_nonneg d by simp
  note c = f64.rnd_lower [OF x] f64.rnd_upper [OF x]
  have e: "secs d = ?s + ?n" by (rule secs_split)
  show "secs d - secs d / 2 ^ 50 - 1 / 2 ^ 50 \<le> as_secs_f64 d"
    unfolding as_secs_f64_eq e using b c s by (simp add: field_simps)
  show "as_secs_f64 d \<le> secs d + secs d / 2 ^ 50 + 1 / 2 ^ 50"
    unfolding as_secs_f64_eq e using b c s by (simp add: field_simps)
qed

end
