(* ===== verification/TokenBucket.thy ===== *)
theory TokenBucket
imports Float64
begin

text \<open>
  The contract the two rate limiters of the backend share, stated once: a bucket holds between 0 and
  \<open>cap\<close> tokens, refills at \<open>rate\<close> tokens per second up to the cap, and a check spends a whole token
  or is refused. The floating-point rounding of one check is bounded by \<open>eps\<close>. The lemmas of the
  locale bound what a run of checks can let through, and say when a check cannot be refused.
\<close>

section \<open>Runs of a limiter\<close>

text \<open>The decisions of consecutive checks, and the state they leave.\<close>

fun run_checks :: "(instant \<Rightarrow> 's \<Rightarrow> bool \<times> 's) \<Rightarrow> 's \<Rightarrow> instant list \<Rightarrow> bool list \<times> 's" where
  "run_checks f s [] = ([], s)"
| "run_checks f s (t # ts) =
     (case f t s of (ok, s') \<Rightarrow> case run_checks f s' ts of (oks, s'') \<Rightarrow> (ok # oks, s''))"

definition accepted :: "bool list \<Rightarrow> nat" where
  "accepted oks = length (filter id oks)"

text \<open>The time that passes along a run, as the limiters see it: an instant before the last one counts 0.\<close>

fun elapsed_along :: "instant \<Rightarrow> instant list \<Rightarrow> duration" where
  "elapsed_along u [] = 0"
| "elapsed_along u (t # ts) = saturating_duration_since t u + elapsed_along t ts"

lemma elapsed_along_nonneg: "0 \<le> elapsed_along u ts"
  by (induction ts arbitrary: u) auto

lemma elapsed_along_sorted:
  "sorted (u # ts) \<Longrightarrow> elapsed_along u ts = last (u # ts) - u"
  by (induction ts arbitrary: u) (auto simp: saturating_duration_since_def)

lemma secs_add: "secs (a + b) = secs a + secs b"
  by (simp add: secs_def add_divide_distrib)

lemma secs_mono: "a \<le> b \<Longrightarrow> secs a \<le> secs b"
  by (simp add: secs_def divide_right_mono)

lemma length_run_checks [simp]: "length (fst (run_checks f s ts)) = length ts"
proof (induction ts arbitrary: s)
  case (Cons t ts)
  obtain ok s' where "f t s = (ok, s')" by fastforce
  moreover obtain oks s'' where "run_checks f s' ts = (oks, s'')" by fastforce
  ultimately show ?case using Cons.IH [of s'] by simp
qed simp

lemma accepted_Cons [simp]: "accepted (ok # oks) = (if ok then 1 else 0) + accepted oks"
  by (simp add: accepted_def)

lemma accepted_Nil [simp]: "accepted [] = 0"
  by (simp add: accepted_def)

section \<open>The contract\<close>

locale token_bucket =
  fixes check :: "instant \<Rightarrow> 's \<Rightarrow> bool \<times> 's"
    and level :: "'s \<Rightarrow> rat"
    and stamp :: "'s \<Rightarrow> instant"
    and wf :: "'s \<Rightarrow> bool"
    and cap :: rat and rate :: rat and eps :: rat
  assumes rate_pos: "0 < rate"
    and eps_nonneg: "0 \<le> eps"
    and wf_level: "wf s \<Longrightarrow> 0 \<le> level s \<and> level s \<le> cap"
    and wf_check: "wf s \<Longrightarrow> wf (snd (check now s))"
    and stamp_check: "wf s \<Longrightarrow> stamp (snd (check now s)) = now"
    and spend_upper: "wf s \<Longrightarrow> level (snd (check now s)) + of_bool (fst (check now s))
          \<le> min cap (level s + secs (saturating_duration_since now (stamp s)) * rate) + eps"
    and spend_lower: "wf s \<Longrightarrow>
          min cap (level s + secs (saturating_duration_since now (stamp s)) * rate)
          \<le> level (snd (check now s)) + of_bool (fst (check now s)) + eps"
    and refused_below: "wf s \<Longrightarrow> \<not> fst (check now s) \<Longrightarrow> level (snd (check now s)) < 1"
begin

lemma wf_run: "wf s \<Longrightarrow> wf (snd (run_checks check s ts))"
proof (induction ts arbitrary: s)
  case (Cons t ts)
  from Cons.IH [OF wf_check [OF Cons.prems, of t]] show ?case
    by (auto split: prod.splits)
qed simp

lemma stamp_run: "wf s \<Longrightarrow> stamp (snd (run_checks check s ts)) = last (stamp s # ts)"
proof (induction ts arbitrary: s)
  case (Cons t ts)
  from Cons.IH [OF wf_check [OF Cons.prems, of t]] stamp_check [OF Cons.prems, of t] show ?case
    by (auto split: prod.splits)
qed simp

lemma run_balance:
  "wf s \<Longrightarrow>
   of_nat (accepted (fst (run_checks check s ts))) + level (snd (run_checks check s ts))
   \<le> level s + secs (elapsed_along (stamp s) ts) * rate + of_nat (length ts) * eps"
proof (induction ts arbitrary: s)
  case Nil
  then show ?case by (simp add: secs_def)
next
  case (Cons t ts)
  obtain ok s' where c: "check t s = (ok, s')" by fastforce
  obtain oks s'' where r: "run_checks check s' ts = (oks, s'')" by fastforce
  have wf': "wf s'" and st: "stamp s' = t"
    using wf_check [OF Cons.prems, of t] stamp_check [OF Cons.prems, of t] c by simp_all
  have "level s' + of_bool ok
      \<le> level s + secs (saturating_duration_since t (stamp s)) * rate + eps"
    using spend_upper [OF Cons.prems, of t] c by (simp add: min_le_iff_disj)
  moreover have "of_nat (accepted oks) + level s''
      \<le> level s' + secs (elapsed_along t ts) * rate + of_nat (length ts) * eps"
    using Cons.IH [OF wf'] r st by simp
  ultimately show ?case
    using c r by (auto simp: secs_add algebra_simps)
qed

text \<open>Over any run, what is let through is bounded by the cap, the refill and the rounding.\<close>

lemma accepted_bound:
  assumes "wf s"
  shows "of_nat (accepted (fst (run_checks check s ts)))
    \<le> cap + secs (elapsed_along (stamp s) ts) * rate + of_nat (length ts) * eps"
  using run_balance [OF assms, of ts] wf_level [OF assms] wf_level [OF wf_run [OF assms, of ts]]
  by linarith

text \<open>A full token after the refill, by a margin that covers the rounding, is never refused.\<close>

lemma not_refused:
  assumes "wf s" "1 + eps \<le> cap"
    and "1 + eps \<le> level s + secs (saturating_duration_since now (stamp s)) * rate"
  shows "fst (check now s)"
proof (rule ccontr)
  assume "\<not> fst (check now s)"
  with spend_lower [OF assms(1), of now] refused_below [OF assms(1), of now] assms(2,3)
  show False by simp
qed

lemma idle_then_accepted:
  assumes "wf s" "1 + eps \<le> cap" "(1 + eps) / rate \<le> secs (now - stamp s)" "stamp s \<le> now"
  shows "fst (check now s)"
proof (rule not_refused [OF assms(1,2)])
  have "1 + eps \<le> secs (now - stamp s) * rate"
    using assms(3) rate_pos by (simp add: field_simps)
  then show "1 + eps \<le> level s + secs (saturating_duration_since now (stamp s)) * rate"
    using wf_level [OF assms(1)] assms(4) by (simp add: saturating_duration_since_def)
qed

end

section \<open>The refill expression both limiters compute\<close>

text \<open>
  \<open>(tokens + elapsed.as_secs_f64() * refill).min(capacity)\<close>, the expression of both limiters, and
  its distance to the exact value.
\<close>

abbreviation refilled :: "f64 \<Rightarrow> duration \<Rightarrow> f64 \<Rightarrow> f64 \<Rightarrow> f64" where
  "refilled tokens elapsed refill capacity \<equiv>
     f64_min (f64_add tokens (f64_mul (as_secs_f64 elapsed) refill)) capacity"

definition bucket_eps :: rat where
  "bucket_eps = 1 / 2 ^ 37"

lemma bucket_eps_bounds [simp]: "0 \<le> bucket_eps" "bucket_eps < 1"
  by (simp_all add: bucket_eps_def)

lemma refilled_bounds:
  assumes "0 \<le> t" "0 < r" "0 \<le> d" "0 \<le> c"
  shows "0 \<le> refilled t d r c" "refilled t d r c \<le> c"
  using assms as_secs_f64_nonneg [of d]
  by (auto simp: f64_min_def f64_add_def f64_mul_def intro!: f64.rnd_nonneg add_nonneg_nonneg)

lemma refilled_upper:
  assumes t: "0 \<le> t" "t \<le> c" and c: "c \<le> 64" "c \<le> 64 * r" and r: "0 < r" "r \<le> 32" and d: "0 \<le> d"
  shows "refilled t d r c \<le> t + secs d * r + 1 / 2 ^ 38"
proof (cases "t + secs d * r < c")
  case False
  moreover have "refilled t d r c \<le> c" by (simp add: f64_min_def)
  moreover have "(0 :: rat) \<le> 1 / 2 ^ 38" by simp
  ultimately show ?thesis by linarith
next
  case True
  have nn: "0 \<le> secs d" using d by (rule secs_nonneg)
  have "secs d * r < 64 * r" using True t c by linarith
  then have "secs d \<le> 64" using r by simp
  moreover have "secs d * r \<le> 64" using True t c by linarith
  ultimately have "rnd64 (t + rnd64 (as_secs_f64 d * r)) \<le> t + secs d * r + 1 / 2 ^ 38"
    using f64.refill_upper [OF t(1) _ r nn _ _ as_secs_f64_nonneg [OF d] as_secs_f64_error(2) [OF d]]
      t c by linarith
  then show ?thesis by (simp add: f64_min_def f64_add_def f64_mul_def min_def)
qed

lemma refilled_lower:
  assumes t: "0 \<le> t" and c: "c \<le> 64" and r: "0 < r" "r \<le> 32" and d: "0 \<le> d"
  shows "min c (t + secs d * r) \<le> refilled t d r c + 1 / 2 ^ 38"
proof -
  have nn: "0 \<le> secs d" using d by (rule secs_nonneg)
  let ?x = "t + secs d * r"
  have "0 \<le> ?x" using t r nn by simp
  moreover have "?x - ?x / 2 ^ 48 - 1 / 2 ^ 44 \<le> rnd64 (t + rnd64 (as_secs_f64 d * r))"
    using f64.refill_lower [OF t r nn as_secs_f64_nonneg [OF d] as_secs_f64_error(1) [OF d]] .
  ultimately show ?thesis
    using c by (simp add: f64_min_def f64_add_def f64_mul_def bucket_eps_def min_def field_simps)
qed

text \<open>Spending a whole token, exactly up to one rounding.\<close>

lemma spend_token:
  assumes "1 \<le> t" "t \<le> 64"
  shows "0 \<le> f64_sub t 1" "f64_sub t 1 \<le> t - 1 + 1 / 2 ^ 46" "t - 1 - 1 / 2 ^ 46 \<le> f64_sub t 1"
proof -
  have "(t - 1) / 2 ^ 53 + 1 / 2 ^ 60 \<le> (1 :: rat) / 2 ^ 46" using assms by (simp add: field_simps)
  with f64.rnd_upper [of "t - 1"] f64.rnd_lower [of "t - 1"] f64.rnd_nonneg [of "t - 1"] assms
  show "0 \<le> f64_sub t 1" "f64_sub t 1 \<le> t - 1 + 1 / 2 ^ 46" "t - 1 - 1 / 2 ^ 46 \<le> f64_sub t 1"
    unfolding f64_sub_def by linarith+
qed

end
