(* ===== verification/RustStd.thy ===== *)
theory RustStd
imports Prelude
begin

text \<open>
  What the backend uses of Rust's standard library beyond arithmetic: string methods on UTF-8 byte
  lists (\<open>chars().count()\<close>, \<open>split\<close>, \<open>trim\<close>, \<open>lines\<close>, \<open>starts_with\<close>), \<open>str::parse\<close> of unsigned
  integers and \<open>to_string\<close> of a \<open>u64\<close>, and \<open>IpAddr\<close> with its parser, written after \<open>core::net::parser\<close>.
\<close>

section \<open>Strings\<close>

text \<open>
  \<open>chars().count()\<close> counts code points: the bytes that are not continuation bytes \<open>10xxxxxx\<close>.
\<close>

fun continuation_byte :: "char \<Rightarrow> bool" where
  "continuation_byte (Char b0 b1 b2 b3 b4 b5 b6 b7) \<longleftrightarrow> b7 \<and> \<not> b6"

definition chars_count :: "string \<Rightarrow> nat" where
  "chars_count s = length (filter (\<lambda>c. \<not> continuation_byte c) s)"

lemma chars_count_le: "chars_count s \<le> length s"
  by (simp add: chars_count_def)

lemma chars_count_append [simp]: "chars_count (s @ t) = chars_count s + chars_count t"
  by (simp add: chars_count_def)

definition starts_with :: "string \<Rightarrow> string \<Rightarrow> bool" where
  "starts_with s p \<longleftrightarrow> take (length p) s = p"

lemma starts_with_append [simp]: "starts_with (p @ s) p"
  by (simp add: starts_with_def)

lemma starts_with_appendD: "starts_with s (p @ q) \<Longrightarrow> starts_with s p"
  by (metis append_eq_conv_conj append_take_drop_id append.assoc starts_with_def)

lemma starts_with_length: "starts_with s p \<Longrightarrow> length p \<le> length s"
  unfolding starts_with_def by (metis length_take min.cobounded1)

definition ends_with :: "string \<Rightarrow> string \<Rightarrow> bool" where
  "ends_with s p \<longleftrightarrow> length p \<le> length s \<and> drop (length s - length p) s = p"

fun split_on :: "char \<Rightarrow> string \<Rightarrow> string list" where
  "split_on c [] = [[]]"
| "split_on c (x # xs) =
     (if x = c then [] # split_on c xs
      else case split_on c xs of [] \<Rightarrow> [[x]] | y # ys \<Rightarrow> (x # y) # ys)"

lemma split_on_nonempty [simp]: "split_on c s \<noteq> []"
  by (cases s) (auto split: list.splits)

lemma split_on_no_sep: "p \<in> set (split_on c s) \<Longrightarrow> c \<notin> set p"
  by (induction s arbitrary: p) (auto split: if_splits list.splits)

text \<open>\<open>trim\<close> removes Unicode \<open>White_Space\<close> characters, given here by their UTF-8 encodings.\<close>

definition bytes :: "nat list \<Rightarrow> string" where
  "bytes ns = map (\<lambda>n. char_of n) ns"

definition white_space :: "string list" where
  "white_space = map bytes
     ([[9], [10], [11], [12], [13], [32], [194, 133], [194, 160], [225, 154, 128]]
      @ map (\<lambda>n. [226, 128, n]) [128, 129, 130, 131, 132, 133, 134, 135, 136, 137, 138, 168, 169, 175]
      @ [[226, 129, 159], [227, 128, 128]])"

lemma white_space_nonempty: "[] \<notin> set white_space"
  by (simp add: white_space_def bytes_def)

function trim_start_of :: "string list \<Rightarrow> string \<Rightarrow> string" where
  "trim_start_of ws s =
     (case find (\<lambda>w. w \<noteq> [] \<and> starts_with s w) ws of
        None \<Rightarrow> s | Some w \<Rightarrow> trim_start_of ws (drop (length w) s))"
  by pat_completeness auto
termination
proof (relation "measure (\<lambda>(ws, s). length s)")
  fix ws s w
  assume "find (\<lambda>w. w \<noteq> [] \<and> starts_with s w) ws = Some w"
  then have "w \<noteq> []" "starts_with s w" by (auto simp: find_Some_iff)
  then show "((ws, drop (length w) s), ws, s) \<in> measure (\<lambda>(ws, s). length s)"
    using starts_with_length [of s w] by (cases w) auto
qed simp

declare trim_start_of.simps [simp del]

definition trim :: "string \<Rightarrow> string" where
  "trim s = rev (trim_start_of (map rev white_space) (rev (trim_start_of white_space s)))"

text \<open>\<open>lines\<close>: split after each newline, drop the newline and one carriage return before it.\<close>

definition strip_cr :: "string \<Rightarrow> string" where
  "strip_cr l = (if l \<noteq> [] \<and> last l = CHR 0x0D then butlast l else l)"

definition lines :: "string \<Rightarrow> string list" where
  "lines s = (let ps = split_on CHR 0x0A s in
     map strip_cr (butlast ps) @ (if last ps = [] then [] else [last ps]))"

section \<open>Parsing unsigned integers\<close>

definition digit_val :: "int \<Rightarrow> char \<Rightarrow> int option" where
  "digit_val radix c =
     (let n = int (of_char c);
          d = (if 48 \<le> n \<and> n \<le> 57 then n - 48 else if 97 \<le> n \<and> n \<le> 122 then n - 87
               else if 65 \<le> n \<and> n \<le> 90 then n - 55 else radix)
      in if d < radix then Some d else None)"

lemma digit_val_bounds: "digit_val radix c = Some d \<Longrightarrow> 0 \<le> d \<and> d < radix"
  by (auto simp: digit_val_def Let_def split: if_splits)

fun take_digits :: "int \<Rightarrow> string \<Rightarrow> int list \<times> string" where
  "take_digits radix [] = ([], [])"
| "take_digits radix (c # cs) =
     (case digit_val radix c of
        None \<Rightarrow> ([], c # cs)
      | Some d \<Rightarrow> (case take_digits radix cs of (ds, rest) \<Rightarrow> (d # ds, rest)))"

definition digits_value :: "int \<Rightarrow> int list \<Rightarrow> int" where
  "digits_value radix ds = foldl (\<lambda>a d. a * radix + d) 0 ds"

text \<open>\<open>str::parse\<close> at \<open>u16\<close> or \<open>u64\<close>: an optional plus sign, then only digits, no overflow.\<close>

definition parse_uint :: "nat \<Rightarrow> string \<Rightarrow> int option" where
  "parse_uint w s =
     (let body = (case s of c # cs \<Rightarrow> if c = CHR ''+'' then cs else s | [] \<Rightarrow> s)
      in case take_digits 10 body of (ds, rest) \<Rightarrow>
        if ds = [] \<or> rest \<noteq> [] \<or> 2 ^ w \<le> digits_value 10 ds then None
        else Some (digits_value 10 ds))"

lemma take_digits_bounds: "d \<in> set (fst (take_digits radix s)) \<Longrightarrow> 0 \<le> d \<and> d < radix"
  by (induction s) (auto split: option.splits prod.splits dest: digit_val_bounds)

lemma digits_value_nonneg:
  assumes "0 \<le> radix" "\<And>d. d \<in> set ds \<Longrightarrow> 0 \<le> d"
  shows "0 \<le> digits_value radix ds"
proof -
  have "0 \<le> a \<Longrightarrow> \<forall>d \<in> set ds. 0 \<le> d \<Longrightarrow> 0 \<le> foldl (\<lambda>a d. a * radix + d) a ds" for a
    using assms(1) by (induction ds arbitrary: a) auto
  with assms(2) show ?thesis by (simp add: digits_value_def)
qed

lemma parse_uint_range:
  assumes "parse_uint w s = Some n"
  shows "0 \<le> n" "n < 2 ^ w"
proof -
  obtain ds rest body where ds: "take_digits 10 body = (ds, rest)"
      "n = digits_value 10 ds" "\<not> 2 ^ w \<le> digits_value 10 ds"
    using assms by (auto simp: parse_uint_def Let_def split: prod.splits if_splits)
  show "n < 2 ^ w" using ds by simp
  show "0 \<le> n"
    unfolding ds(2) using take_digits_bounds [of _ 10 body] ds(1)
    by (intro digits_value_nonneg) auto
qed

section \<open>Printing unsigned integers\<close>

fun decimal_digits :: "nat \<Rightarrow> nat \<Rightarrow> string" where
  "decimal_digits 0 n = []"
| "decimal_digits (Suc fuel) n =
     (if n < 10 then [char_of (48 + n)] else decimal_digits fuel (n div 10) @ [char_of (48 + n mod 10)])"

text \<open>\<open>u64::to_string\<close>; twenty digits are enough for 64 bits.\<close>

definition u64_to_string :: "u64 \<Rightarrow> string" where
  "u64_to_string n = decimal_digits 20 (unat n)"

lemma take_digits_append:
  assumes "snd (take_digits radix s) = []"
  shows "take_digits radix (s @ t) = (fst (take_digits radix s) @ fst (take_digits radix t), snd (take_digits radix t))"
  using assms by (induction s) (auto split: option.splits prod.splits)

lemma digit_val_char: "n < 10 \<Longrightarrow> digit_val 10 (char_of (48 + n)) = Some (int n)"
  by (simp add: digit_val_def Let_def)

lemma decimal_digits_parse:
  assumes "n < 10 ^ fuel" "0 < fuel"
  shows "snd (take_digits 10 (decimal_digits fuel n)) = []
    \<and> digits_value 10 (fst (take_digits 10 (decimal_digits fuel n))) = int n
    \<and> fst (take_digits 10 (decimal_digits fuel n)) \<noteq> []"
  using assms
proof (induction fuel n rule: decimal_digits.induct)
  case (2 fuel n)
  show ?case
  proof (cases "n < 10")
    case True
    then show ?thesis by (simp add: digit_val_char digits_value_def del: of_nat_add)
  next
    case False
    then have fuel: "0 < fuel" using "2.prems"(1) by (cases fuel) auto
    have "n div 10 < 10 ^ fuel" using "2.prems"(1) by (simp add: less_mult_imp_div_less mult.commute)
    from "2.IH" [OF False this fuel] False show ?thesis
      using digit_val_char [of "n mod 10"]
      by (simp add: take_digits_append digits_value_def zdiv_int zmod_int)
  qed
qed simp

lemma parse_all_digits:
  assumes "snd (take_digits 10 s) = []" "fst (take_digits 10 s) \<noteq> []" "digits_value 10 (fst (take_digits 10 s)) < 2 ^ w"
  shows "parse_uint w s = Some (digits_value 10 (fst (take_digits 10 s)))"
proof -
  have "digit_val 10 CHR ''+'' = None" by code_simp
  then have "(case s of c # cs \<Rightarrow> if c = CHR ''+'' then cs else s | [] \<Rightarrow> s) = s"
    using assms(1) by (cases s) auto
  then show ?thesis using assms by (cases "take_digits 10 s") (simp add: parse_uint_def Let_def)
qed

lemma u64_to_string_parse: "parse_uint 64 (u64_to_string n) = Some (uint n)"
proof -
  have "unat n < 2 ^ 64" using unsigned_less [of n, where 'a = nat] by simp
  also have "(2 :: nat) ^ 64 \<le> 10 ^ 20" by simp
  finally have "unat n < 10 ^ 20" .
  note p = decimal_digits_parse [OF this zero_less_numeral, folded u64_to_string_def]
  have n: "int (unat n) = uint n" by simp
  show ?thesis
    using parse_all_digits [of "u64_to_string n" 64] p uint_lt2p [of n] unfolding n by simp
qed

section \<open>Internet addresses\<close>

datatype ip_addr = V4 u32 | V6 "128 word"

text \<open>\<open>read_number\<close>: the maximal run of digits, bounded in length, in value and in leading zeros.\<close>

definition read_number :: "int \<Rightarrow> nat \<Rightarrow> bool \<Rightarrow> int \<Rightarrow> string \<Rightarrow> (int \<times> string) option" where
  "read_number radix max_digits allow_zero_prefix limit s =
     (case take_digits radix s of (ds, rest) \<Rightarrow>
        if max_digits < length ds \<or> ds = [] then None
        else if \<not> allow_zero_prefix \<and> hd ds = 0 \<and> 1 < length ds then None
        else if digits_value radix ds \<le> limit then Some (digits_value radix ds, rest) else None)"

definition read_separator ::
  "char \<Rightarrow> nat \<Rightarrow> (string \<Rightarrow> ('a \<times> string) option) \<Rightarrow> string \<Rightarrow> ('a \<times> string) option" where
  "read_separator sep i inner s =
     (if i = 0 then inner s
      else case s of c # cs \<Rightarrow> if c = sep then inner cs else None | [] \<Rightarrow> None)"

fun read_v4_groups :: "nat \<Rightarrow> nat \<Rightarrow> string \<Rightarrow> (int list \<times> string) option" where
  "read_v4_groups 0 i s = Some ([], s)"
| "read_v4_groups (Suc n) i s =
     (case read_separator CHR ''.'' i (read_number 10 3 False 255) s of
        None \<Rightarrow> None
      | Some (g, rest) \<Rightarrow> map_option (\<lambda>(gs, r). (g # gs, r)) (read_v4_groups n (Suc i) rest))"

definition read_v4 :: "string \<Rightarrow> (int list \<times> string) option" where
  "read_v4 s = read_v4_groups 4 0 s"

text \<open>\<open>read_groups\<close>: at most \<open>n\<close> more groups of a limit, the last two possibly an IPv4 address.\<close>

fun read_groups :: "nat \<Rightarrow> nat \<Rightarrow> string \<Rightarrow> int list \<times> bool \<times> string" where
  "read_groups 0 i s = ([], False, s)"
| "read_groups (Suc n) i s =
     (case (if 0 < n then read_separator CHR '':'' i read_v4 s else None) of
        Some (gs, rest) \<Rightarrow> ([gs ! 0 * 256 + gs ! 1, gs ! 2 * 256 + gs ! 3], True, rest)
      | None \<Rightarrow>
          (case read_separator CHR '':'' i (read_number 16 4 True 65535) s of
             None \<Rightarrow> ([], False, s)
           | Some (g, rest) \<Rightarrow> (case read_groups n (Suc i) rest of (gs, b, r) \<Rightarrow> (g # gs, b, r))))"

definition read_v6 :: "string \<Rightarrow> (int list \<times> string) option" where
  "read_v6 s =
     (case read_groups 8 0 s of (head, head_ipv4, rest) \<Rightarrow>
        if length head = 8 then Some (head, rest)
        else if head_ipv4 then None
        else if starts_with rest ''::'' then
          (case read_groups (8 - (length head + 1)) 0 (drop 2 rest) of (tail, _, rest') \<Rightarrow>
             Some (head @ replicate (8 - length head - length tail) 0 @ tail, rest'))
        else None)"

text \<open>\<open>str::parse::<IpAddr>\<close>: an IPv4 address, else an IPv6 one, with nothing after it.\<close>

definition parse_ip :: "string \<Rightarrow> ip_addr option" where
  "parse_ip s =
     (case read_v4 s of
        Some (gs, rest) \<Rightarrow> if rest = [] then Some (V4 (word_of_int (digits_value 256 gs))) else None
      | None \<Rightarrow>
          (case read_v6 s of
             Some (gs, rest) \<Rightarrow> if rest = [] then Some (V6 (word_of_int (digits_value 65536 gs))) else None
           | None \<Rightarrow> None))"

lemma parse_ip_tests:
  "parse_ip ''198.51.100.5'' = Some (V4 0xC6336405)"
  "parse_ip ''198.51.100.5, 192.0.2.2'' = None"
  "parse_ip ''010.0.0.1'' = None"
  "parse_ip ''::1'' = Some (V6 1)"
  "parse_ip ''2001:db8::ffff:192.0.2.1'' = Some (V6 0x20010db8000000000000ffffc0000201)"
  "parse_ip '''' = None"
  by code_simp+

end
