(* ===== verification/Admission.thy ===== *)
theory Admission
imports TokenBucket RustStd
begin

text \<open>
  The process-local abuse controls of \<open>src/admission.rs\<close>: token buckets per client address and per
  room, slots for pending authentications, and the counters. The theory holds the data, every
  operation of \<open>Admission\<close> and of the guard \<open>PendingAuth\<close>, and the interpretation of the token-bucket
  contract for the buckets. The mutex makes each operation one atomic step on the record.
\<close>

section \<open>Data\<close>

datatype budget = Connection ip_addr | Creation ip_addr | RoomBudget string

record bucket =
  bk_tokens :: f64
  bk_updated :: instant

datatype admission_error = Limited u64 | Unavailable

record limits =
  lim_buckets :: "(budget \<times> bucket) list"
  lim_pending :: "(ip_addr \<times> nat) list"
  lim_pending_total :: nat

record admission =
  adm_limits :: limits
  adm_rejected :: u64
  adm_throttled :: u64
  adm_verification_failed :: u64
  adm_unavailable :: u64

definition max_buckets :: nat where "max_buckets = 10000"

definition idle_ttl :: duration where "idle_ttl = 600 * nanos_per_sec"

definition admission_default :: admission where
  "admission_default =
     \<lparr>adm_limits = \<lparr>lim_buckets = [], lim_pending = [], lim_pending_total = 0\<rparr>,
      adm_rejected = 0, adm_throttled = 0, adm_verification_failed = 0, adm_unavailable = 0\<rparr>"

section \<open>The token buckets\<close>

fun budget_capacity :: "budget \<Rightarrow> f64" where
  "budget_capacity (Connection _) = 30"
| "budget_capacity (Creation _) = 5"
| "budget_capacity (RoomBudget _) = 20"

definition refill_rate :: "f64 \<Rightarrow> f64" where
  "refill_rate capacity = f64_div capacity 60"

definition fresh_bucket :: "f64 \<Rightarrow> instant \<Rightarrow> bucket" where
  "fresh_bucket capacity now = \<lparr>bk_tokens = capacity, bk_updated = now\<rparr>"

text \<open>Refill, stamp and spend: the part of \<open>check_at\<close> that works on the entry of the key.\<close>

definition bucket_check :: "f64 \<Rightarrow> instant \<Rightarrow> bucket \<Rightarrow> bool \<times> bucket" where
  "bucket_check capacity now b =
     (let refill = refill_rate capacity;
          b1 = b\<lparr>bk_tokens := f64_min (f64_add (bk_tokens b)
                   (f64_mul (as_secs_f64 (saturating_duration_since now (bk_updated b))) refill)) capacity\<rparr>;
          b2 = b1\<lparr>bk_updated := now\<rparr>
      in if bk_tokens b2 < 1 then (False, b2)
         else (True, b2\<lparr>bk_tokens := f64_sub (bk_tokens b2) 1\<rparr>))"

text \<open>The whole seconds a refused client is told to wait.\<close>

definition retry_after :: "f64 \<Rightarrow> bucket \<Rightarrow> u64" where
  "retry_after capacity b = f64_ceil_as_u64 (f64_div (f64_sub 1 (bk_tokens b)) (refill_rate capacity))"

definition not_idle :: "instant \<Rightarrow> bucket \<Rightarrow> bool" where
  "not_idle now b \<longleftrightarrow> saturating_duration_since now (bk_updated b) < idle_ttl"

definition check_at :: "budget \<Rightarrow> instant \<Rightarrow> admission \<Rightarrow> (admission_error + unit) \<times> admission" where
  "check_at key now adm =
     (let capacity = budget_capacity key;
          lm = adm_limits adm;
          full = (\<not> contains_key (lim_buckets lm) key \<and> max_buckets \<le> length (lim_buckets lm));
          bs = (if full then retain (not_idle now) (lim_buckets lm) else lim_buckets lm)
      in if full \<and> max_buckets \<le> length bs
         then (Inl Unavailable,
               adm\<lparr>adm_limits := lm\<lparr>lim_buckets := bs\<rparr>, adm_unavailable := adm_unavailable adm + 1\<rparr>)
         else
           let b = (case map_of bs key of Some b \<Rightarrow> b | None \<Rightarrow> fresh_bucket capacity now)
           in case bucket_check capacity now b of (ok, b') \<Rightarrow>
                let adm' = adm\<lparr>adm_limits := lm\<lparr>lim_buckets := AList.update key b' bs\<rparr>\<rparr>
                in if ok then (Inr (), adm')
                   else (Inl (Limited (retry_after capacity b')),
                         adm'\<lparr>adm_throttled := adm_throttled adm + 1\<rparr>))"

section \<open>Slots for pending authentications\<close>

text \<open>\<open>PendingAuth\<close> is the guard of one slot; what matters of it is the address it counts for.\<close>

type_synonym pending_auth = ip_addr

definition pending_count :: "limits \<Rightarrow> ip_addr \<Rightarrow> nat" where
  "pending_count lm ip = (case map_of (lim_pending lm) ip of Some n \<Rightarrow> n | None \<Rightarrow> 0)"

definition pending :: "ip_addr \<Rightarrow> admission \<Rightarrow> (admission_error + pending_auth) \<times> admission" where
  "pending ip adm =
     (let lm = adm_limits adm in
      if 100 \<le> lim_pending_total lm \<or> 10 \<le> pending_count lm ip
      then (Inl Unavailable, adm\<lparr>adm_unavailable := adm_unavailable adm + 1\<rparr>)
      else (Inr ip, adm\<lparr>adm_limits :=
              lm\<lparr>lim_pending := AList.update ip (pending_count lm ip + 1) (lim_pending lm),
                  lim_pending_total := lim_pending_total lm + 1\<rparr>\<rparr>))"

text \<open>
  \<open>Drop for PendingAuth\<close>. \<open>None\<close> is the panic of \<open>expect\<close> (and of an underflow of the counts).
\<close>

definition pending_drop :: "pending_auth \<Rightarrow> admission \<Rightarrow> admission option" where
  "pending_drop ip adm =
     (let lm = adm_limits adm in
      case map_of (lim_pending lm) ip of
        None \<Rightarrow> None
      | Some n \<Rightarrow>
          if n = 0 \<or> lim_pending_total lm = 0 then None
          else Some (adm\<lparr>adm_limits :=
                 lm\<lparr>lim_pending := (if n - 1 = 0 then AList.delete ip (lim_pending lm)
                                     else AList.update ip (n - 1) (lim_pending lm)),
                     lim_pending_total := lim_pending_total lm - 1\<rparr>\<rparr>))"

section \<open>Maintenance and counters\<close>

text \<open>\<open>maintain\<close> returns the line it logs: the four counters, when any is non-zero.\<close>

definition maintain :: "instant \<Rightarrow> admission \<Rightarrow> (u64 \<times> u64 \<times> u64 \<times> u64) option \<times> admission" where
  "maintain now adm =
     (let lm = adm_limits adm;
          r = adm_rejected adm; t = adm_throttled adm; v = adm_verification_failed adm; u = adm_unavailable adm
      in (if 0 < r + t + v + u then Some (r, t, v, u) else None,
          adm\<lparr>adm_limits := lm\<lparr>lim_buckets := retain (not_idle now) (lim_buckets lm)\<rparr>,
              adm_rejected := 0, adm_throttled := 0, adm_verification_failed := 0, adm_unavailable := 0\<rparr>))"

definition count_rejected :: "admission \<Rightarrow> admission" where
  "count_rejected adm = adm\<lparr>adm_rejected := adm_rejected adm + 1\<rparr>"

definition count_verification_failed :: "admission \<Rightarrow> admission" where
  "count_verification_failed adm = adm\<lparr>adm_verification_failed := adm_verification_failed adm + 1\<rparr>"

definition count_unavailable :: "admission \<Rightarrow> admission" where
  "count_unavailable adm = adm\<lparr>adm_unavailable := adm_unavailable adm + 1\<rparr>"

section \<open>The buckets implement the token-bucket contract\<close>

definition bk_wf :: "f64 \<Rightarrow> bucket \<Rightarrow> bool" where
  "bk_wf c b \<longleftrightarrow> 0 \<le> bk_tokens b \<and> bk_tokens b \<le> c"

abbreviation bk_refilled :: "f64 \<Rightarrow> instant \<Rightarrow> bucket \<Rightarrow> f64" where
  "bk_refilled c now b \<equiv>
     refilled (bk_tokens b) (saturating_duration_since now (bk_updated b)) (refill_rate c) c"

lemma bucket_check_eq [op_simps]:
  "bucket_check c now b =
     (if 1 \<le> bk_refilled c now b
      then (True, \<lparr>bk_tokens = f64_sub (bk_refilled c now b) 1, bk_updated = now\<rparr>)
      else (False, \<lparr>bk_tokens = bk_refilled c now b, bk_updated = now\<rparr>))"
  by (simp add: bucket_check_def Let_def)

lemma budget_capacity_cases: "budget_capacity k \<in> {5, 20, 30}"
  by (cases k) simp_all

lemma refill_rate_values:
  "refill_rate 5 = 6004799503160661 / 2 ^ 56"
  "refill_rate 20 = 6004799503160661 / 2 ^ 54"
  "refill_rate 30 = 1 / 2"
  by code_simp+

text \<open>The rounded rate is the capacity per minute, up to one part in \<open>2 ^ 50\<close>.\<close>

lemma refill_rate_bounds:
  assumes "c \<in> {5, 20, 30}"
  shows "0 < refill_rate c" "refill_rate c \<le> 32" "c \<le> 64 * refill_rate c"
    "c \<le> 61 * refill_rate c" "1 / 13 \<le> refill_rate c"
  using assms by (auto simp: refill_rate_values)

lemma bucket_token_bucket:
  assumes c: "c \<in> {5, 20, 30}"
  shows "token_bucket (bucket_check c) bk_tokens bk_updated (bk_wf c) c (refill_rate c) bucket_eps"
proof unfold_locales
  note r = refill_rate_bounds [OF c]
  have c': "0 \<le> c" "c \<le> 64" using c by auto
  fix b now assume wf: "bk_wf c b"
  let ?d = "saturating_duration_since now (bk_updated b)"
  let ?t = "bk_refilled c now b"
  have t: "0 \<le> bk_tokens b" "bk_tokens b \<le> c" using wf by (auto simp: bk_wf_def)
  have b: "0 \<le> ?t" "?t \<le> c" using refilled_bounds [of "bk_tokens b" "refill_rate c" ?d c] t r c' by auto
  have up: "?t \<le> bk_tokens b + secs ?d * refill_rate c + 1 / 2 ^ 38"
    using refilled_upper [of "bk_tokens b" c "refill_rate c" ?d] t r c' by simp
  have lo: "min c (bk_tokens b + secs ?d * refill_rate c) \<le> ?t + 1 / 2 ^ 38"
    using refilled_lower [of "bk_tokens b" c "refill_rate c" ?d] t r c' by simp
  have sub: "f64_sub t 1 \<le> c" if "t \<le> c" for t
    unfolding f64_sub_def using c f64.rnd_le_int [of "t - 1" 5] f64.rnd_le_int [of "t - 1" 20]
      f64.rnd_le_int [of "t - 1" 30] that by auto
  show "bk_wf c (snd (bucket_check c now b))"
    using b c' sub [of ?t] spend_token(1) [of ?t] by (auto simp: bk_wf_def bucket_check_eq)
  show "bk_updated (snd (bucket_check c now b)) = now"
    by (simp add: bucket_check_eq)
  show "bk_tokens (snd (bucket_check c now b)) + of_bool (fst (bucket_check c now b))
      \<le> min c (bk_tokens b + secs ?d * refill_rate c) + bucket_eps"
    using b up c' spend_token(2) [of ?t] by (auto simp: bucket_check_eq bucket_eps_def)
  show "min c (bk_tokens b + secs ?d * refill_rate c)
      \<le> bk_tokens (snd (bucket_check c now b)) + of_bool (fst (bucket_check c now b)) + bucket_eps"
    using b lo c' spend_token(3) [of ?t] by (auto simp: bucket_check_eq bucket_eps_def)
  show "bk_tokens (snd (bucket_check c now b)) < 1" if "\<not> fst (bucket_check c now b)"
    using that by (auto simp: bucket_check_eq split: if_splits)
qed (use refill_rate_bounds [OF c] in \<open>auto simp: bk_wf_def\<close>)

interpretation bk: token_bucket "bucket_check (budget_capacity k)" bk_tokens bk_updated
    "bk_wf (budget_capacity k)" "budget_capacity k" "refill_rate (budget_capacity k)" bucket_eps for k
  by (rule bucket_token_bucket [OF budget_capacity_cases])

lemma bk_wf_fresh [inv_intros]: "bk_wf (budget_capacity k) (fresh_bucket (budget_capacity k) now)"
  using budget_capacity_cases [of k] by (auto simp: bk_wf_def fresh_bucket_def)

end
