(* ===== verification/GuardPool.thy ===== *)
theory GuardPool
imports Prelude "HOL-Library.Multiset"
begin

text \<open>
  The contract of a bounded pool of RAII guards, shared by the slots for pending authentications and
  by the permits of the password service: \<open>acquire\<close> either hands out a guard or refuses and leaves
  the outstanding guards alone; dropping an outstanding guard never fails and gives back exactly
  that guard. The locale derives what its clients rely on: a guard acquired and dropped leaves the
  pool as it was, and a bound that every admission keeps is kept by both operations.
\<close>

locale guard_pool =
  fixes acquire :: "'k \<Rightarrow> 's \<Rightarrow> bool \<times> 's"
    and release :: "'k \<Rightarrow> 's \<Rightarrow> 's option"
    and held :: "'s \<Rightarrow> 'k multiset"
    and inv :: "'s \<Rightarrow> bool"
    and admits :: "'k \<Rightarrow> 'k multiset \<Rightarrow> bool"
  assumes acquire_iff: "inv s \<Longrightarrow> fst (acquire k s) \<longleftrightarrow> admits k (held s)"
    and acquire_held: "inv s \<Longrightarrow>
          held (snd (acquire k s)) = (if fst (acquire k s) then add_mset k (held s) else held s)"
    and inv_acquire: "inv s \<Longrightarrow> inv (snd (acquire k s))"
    and release_held: "inv s \<Longrightarrow> k \<in># held s \<Longrightarrow>
          \<exists>s'. release k s = Some s' \<and> inv s' \<and> held s' = held s - {#k#}"
begin

lemma acquire_release:
  assumes "inv s" "fst (acquire k s)"
  shows "\<exists>s'. release k (snd (acquire k s)) = Some s' \<and> inv s' \<and> held s' = held s"
  using release_held [OF inv_acquire [OF assms(1)], of k k] acquire_held [OF assms(1), of k] assms(2)
  by simp

lemma bound_acquire:
  assumes "inv s" "bounded (held s)"
    and "\<And>k M. admits k M \<Longrightarrow> bounded M \<Longrightarrow> bounded (add_mset k M)"
  shows "bounded (held (snd (acquire k s)))"
  using assms acquire_iff [of s k] acquire_held [of s k] by simp

lemma bound_release:
  assumes "inv s" "bounded (held s)" "k \<in># held s" "release k s = Some s'"
    and "\<And>k M. bounded (add_mset k M) \<Longrightarrow> bounded M"
  shows "bounded (held s')"
  using assms release_held [OF assms(1,3)] by (metis insert_DiffM option.inject)

end

end
