(* ===== verification/AdmissionSlots.thy ===== *)
theory AdmissionSlots
imports Admission GuardPool
begin

text \<open>
  The slots for pending authentications refine a multiset of guards: the counters per address and the
  total in \<open>Limits\<close> are the multiplicities and the size of the multiset of outstanding
  \<open>PendingAuth\<close> guards. The theory proves the refinement, interprets the guard-pool contract with it,
  and states the bounds and the absence of panics.
\<close>

section \<open>The abstraction\<close>

fun guards_of :: "('k \<times> nat) list \<Rightarrow> 'k multiset" where
  "guards_of [] = {#}"
| "guards_of ((k, n) # m) = replicate_mset n k + guards_of m"

abbreviation held_guards :: "admission \<Rightarrow> ip_addr multiset" where
  "held_guards adm \<equiv> guards_of (lim_pending (adm_limits adm))"

definition slots_inv :: "admission \<Rightarrow> bool" where
  "slots_inv adm \<longleftrightarrow>
     distinct (keys (lim_pending (adm_limits adm))) \<and>
     (\<forall>n \<in> snd ` set (lim_pending (adm_limits adm)). 0 < n) \<and>
     lim_pending_total (adm_limits adm) = size (held_guards adm)"

lemma count_guards_of:
  "distinct (keys m) \<Longrightarrow> count (guards_of m) k = (case map_of m k of Some n \<Rightarrow> n | None \<Rightarrow> 0)"
proof (induction m)
  case (Cons kn m)
  then have "map_of m (fst kn) = None" by (auto simp: map_of_eq_None_iff)
  with Cons show ?case by (cases kn) (auto split: option.splits)
qed simp

lemma count_held_guards:
  "slots_inv adm \<Longrightarrow> count (held_guards adm) ip = pending_count (adm_limits adm) ip"
  by (simp add: slots_inv_def pending_count_def count_guards_of)

lemma guards_of_update:
  assumes "distinct (keys m)"
  shows "guards_of (AList.update k n m) + replicate_mset (count (guards_of m) k) k
         = guards_of m + replicate_mset n k"
proof (rule multiset_eqI)
  fix x
  have "distinct (keys (AList.update k n m))" using assms by (simp add: distinct_update)
  then show "count (guards_of (AList.update k n m) + replicate_mset (count (guards_of m) k) k) x
      = count (guards_of m + replicate_mset n k) x"
    using assms by (auto simp: count_guards_of update_conv split: option.splits)
qed

lemma guards_of_delete:
  assumes "distinct (keys m)"
  shows "guards_of (AList.delete k m) + replicate_mset (count (guards_of m) k) k = guards_of m"
proof (rule multiset_eqI)
  fix x
  have "distinct (keys (AList.delete k m))" using assms by (simp add: distinct_delete)
  then show "count (guards_of (AList.delete k m) + replicate_mset (count (guards_of m) k) k) x
      = count (guards_of m) x"
    using assms by (auto simp: count_guards_of delete_conv split: option.splits)
qed

section \<open>Each operation refines the step on the multiset\<close>

definition slot_admits :: "ip_addr \<Rightarrow> ip_addr multiset \<Rightarrow> bool" where
  "slot_admits ip M \<longleftrightarrow> size M < 100 \<and> count M ip < 10"

definition slot_acquire :: "ip_addr \<Rightarrow> admission \<Rightarrow> bool \<times> admission" where
  "slot_acquire ip adm = (case pending ip adm of (Inl _, adm') \<Rightarrow> (False, adm') | (Inr _, adm') \<Rightarrow> (True, adm'))"

lemma pending_cases:
  assumes "slots_inv adm"
  shows "pending ip adm =
    (if slot_admits ip (held_guards adm)
     then (Inr ip, adm\<lparr>adm_limits := (adm_limits adm)
            \<lparr>lim_pending := AList.update ip (Suc (count (held_guards adm) ip)) (lim_pending (adm_limits adm)),
             lim_pending_total := Suc (size (held_guards adm))\<rparr>\<rparr>)
     else (Inl Unavailable, count_unavailable adm))"
  using assms count_held_guards [OF assms, of ip]
  by (auto simp: pending_def Let_def slot_admits_def count_unavailable_def slots_inv_def)

lemma pending_refines:
  assumes inv: "slots_inv adm" and adm: "slot_admits ip (held_guards adm)"
  shows "held_guards (snd (pending ip adm)) = add_mset ip (held_guards adm)"
    and "slots_inv (snd (pending ip adm))"
proof -
  let ?m = "lim_pending (adm_limits adm)"
  let ?m' = "AList.update ip (Suc (count (guards_of ?m) ip)) ?m"
  have d: "distinct (keys ?m)" and pos: "\<forall>n \<in> snd ` set ?m. 0 < n" using inv by (auto simp: slots_inv_def)
  have "guards_of ?m' + replicate_mset (count (guards_of ?m) ip) ip
      = add_mset ip (guards_of ?m) + replicate_mset (count (guards_of ?m) ip) ip"
    using guards_of_update [OF d, of ip "Suc (count (guards_of ?m) ip)"] by simp
  then have eq: "guards_of ?m' = add_mset ip (guards_of ?m)" by simp
  then show "held_guards (snd (pending ip adm)) = add_mset ip (held_guards adm)"
    using pending_cases [OF inv, of ip] adm by simp
  have "distinct (keys ?m')" using d by (simp add: distinct_update)
  moreover have "\<forall>n \<in> snd ` set ?m'. 0 < n"
    using pos by (auto simp: set_AList_update [OF d])
  ultimately show "slots_inv (snd (pending ip adm))"
    using pending_cases [OF inv, of ip] adm eq by (simp add: slots_inv_def)
qed

lemma pending_refused:
  assumes inv: "slots_inv adm" and "\<not> slot_admits ip (held_guards adm)"
  shows "pending ip adm = (Inl Unavailable, count_unavailable adm)" "slots_inv (count_unavailable adm)"
  using pending_cases [OF inv, of ip] assms by (simp_all add: slots_inv_def count_unavailable_def)

lemma pending_drop_refines:
  assumes inv: "slots_inv adm" and g: "ip \<in># held_guards adm"
  shows "\<exists>adm'. pending_drop ip adm = Some adm' \<and> slots_inv adm' \<and>
           held_guards adm' = held_guards adm - {#ip#}"
proof -
  let ?m = "lim_pending (adm_limits adm)" and ?M = "held_guards adm"
  have d: "distinct (keys ?m)" and pos: "\<forall>n \<in> snd ` set ?m. 0 < n"
    and tot: "lim_pending_total (adm_limits adm) = size ?M" using inv by (auto simp: slots_inv_def)
  have "0 < count ?M ip" using g by simp
  then obtain n where c: "count ?M ip = Suc n" using gr0_conv_Suc by blast
  then have n: "map_of ?m ip = Some (Suc n)" "count ?M ip = Suc n"
    using count_guards_of [OF d, of ip] by (auto split: option.splits)
  have sz: "0 < size ?M" using g by (metis empty_not_add_mset gr0I insert_DiffM size_eq_0_iff_empty)
  let ?m' = "if n = 0 then AList.delete ip ?m else AList.update ip n ?m"
  have "guards_of ?m' + replicate_mset (Suc n) ip = (?M - {#ip#}) + replicate_mset (Suc n) ip"
  proof (cases "n = 0")
    case True
    with guards_of_delete [OF d, of ip] n g show ?thesis by simp
  next
    case False
    with guards_of_update [OF d, of ip n] n g c show ?thesis by simp
  qed
  then have eq: "guards_of ?m' = ?M - {#ip#}" by simp
  have "distinct (keys ?m')" using d by (simp add: distinct_update distinct_delete)
  moreover have "\<forall>n \<in> snd ` set ?m'. 0 < n"
    using pos by (auto simp: set_AList_update [OF d] AList.delete_eq)
  moreover have "size ?M - 1 = size (?M - {#ip#})" using g by (simp add: size_Diff_singleton)
  moreover let ?adm' = "adm\<lparr>adm_limits := (adm_limits adm)\<lparr>lim_pending := ?m',
      lim_pending_total := lim_pending_total (adm_limits adm) - 1\<rparr>\<rparr>"
  have "pending_drop ip adm = Some ?adm'" using n sz tot by (auto simp: pending_drop_def Let_def)
  ultimately show ?thesis using eq tot by (intro exI [of _ ?adm']) (simp add: slots_inv_def)
qed

interpretation slots: guard_pool slot_acquire pending_drop held_guards slots_inv slot_admits
proof unfold_locales
  fix adm ip assume inv: "slots_inv adm"
  note cs = pending_cases [OF inv, of ip]
  show "fst (slot_acquire ip adm) \<longleftrightarrow> slot_admits ip (held_guards adm)"
    using cs by (simp add: slot_acquire_def)
  show "held_guards (snd (slot_acquire ip adm)) =
      (if fst (slot_acquire ip adm) then add_mset ip (held_guards adm) else held_guards adm)"
    using pending_refines(1) [OF inv, of ip] cs by (auto simp: slot_acquire_def count_unavailable_def)
  show "slots_inv (snd (slot_acquire ip adm))"
    using pending_refines(2) [OF inv, of ip] pending_refused [OF inv, of ip] cs
    by (auto simp: slot_acquire_def)
qed (rule pending_drop_refines)

section \<open>Histories of the limiter\<close>

text \<open>
  Every state the process can bring the limiter to, with the guards handed out and not yet dropped.
  A guard is dropped at most once, which Rust's ownership gives.
\<close>

inductive adm_reach :: "admission \<Rightarrow> ip_addr multiset \<Rightarrow> bool" where
  start: "adm_reach admission_default {#}"
| check: "adm_reach adm G \<Longrightarrow> adm_reach (snd (check_at key now adm)) G"
| grant: "adm_reach adm G \<Longrightarrow> pending ip adm = (Inr g, adm') \<Longrightarrow> adm_reach adm' (add_mset g G)"
| refuse: "adm_reach adm G \<Longrightarrow> pending ip adm = (Inl e, adm') \<Longrightarrow> adm_reach adm' G"
| drop: "adm_reach adm G \<Longrightarrow> g \<in># G \<Longrightarrow> pending_drop g adm = Some adm' \<Longrightarrow> adm_reach adm' (G - {#g#})"
| maintain: "adm_reach adm G \<Longrightarrow> adm_reach (snd (maintain now adm)) G"
| rejected: "adm_reach adm G \<Longrightarrow> adm_reach (count_rejected adm) G"
| failed: "adm_reach adm G \<Longrightarrow> adm_reach (count_verification_failed adm) G"
| unavailable: "adm_reach adm G \<Longrightarrow> adm_reach (count_unavailable adm) G"

lemma check_at_pending [simp]:
  "lim_pending (adm_limits (snd (check_at key now adm))) = lim_pending (adm_limits adm)"
  "lim_pending_total (adm_limits (snd (check_at key now adm))) = lim_pending_total (adm_limits adm)"
  by (simp_all add: check_at_def Let_def split: prod.splits)

lemma maintain_pending [simp]:
  "lim_pending (adm_limits (snd (maintain now adm))) = lim_pending (adm_limits adm)"
  "lim_pending_total (adm_limits (snd (maintain now adm))) = lim_pending_total (adm_limits adm)"
  by (simp_all add: maintain_def Let_def)

lemma count_pending [simp]:
  "adm_limits (count_rejected adm) = adm_limits adm"
  "adm_limits (count_verification_failed adm) = adm_limits adm"
  "adm_limits (count_unavailable adm) = adm_limits adm"
  by (simp_all add: count_rejected_def count_verification_failed_def count_unavailable_def)

lemma adm_reach_slots: "adm_reach adm G \<Longrightarrow> slots_inv adm \<and> held_guards adm = G"
proof (induction rule: adm_reach.induct)
  case start
  show ?case by (simp add: slots_inv_def admission_default_def)
next
  case (grant adm G ip g adm')
  then have "slot_admits ip (held_guards adm)" "g = ip"
    using pending_cases [of adm ip] by (auto split: if_splits)
  with grant pending_refines [of adm ip] show ?case by simp
next
  case (refuse adm G ip e adm')
  then show ?case using pending_cases [of adm ip] by (auto simp: slots_inv_def split: if_splits)
next
  case (drop adm G g adm')
  then show ?case using pending_drop_refines [of adm g] by auto
qed (simp_all add: slots_inv_def)

lemma adm_reach_bounds: "adm_reach adm G \<Longrightarrow> size G \<le> 100 \<and> (\<forall>ip. count G ip \<le> 10)"
proof (induction rule: adm_reach.induct)
  case (grant adm G ip g adm')
  then have "slot_admits ip G" "g = ip"
    using pending_cases [of adm ip] adm_reach_slots [of adm G] by (auto split: if_splits)
  with grant.IH show ?case by (auto simp: slot_admits_def Suc_le_eq)
next
  case (drop adm G g adm')
  then show ?case by (auto simp: size_Diff_singleton) (meson diff_le_self le_trans)
qed auto

text \<open>
  Slots for pending authentications: in every state the process can reach, at most 100 guards are
  outstanding and at most 10 for one address, and the counters of \<open>Limits\<close> are exactly the numbers
  of outstanding guards, in total and for each address.
\<close>

lemma pending_slots_bounded:
  assumes "adm_reach adm G"
  shows "lim_pending_total (adm_limits adm) = size G \<and> size G \<le> 100 \<and>
         (\<forall>ip. pending_count (adm_limits adm) ip = count G ip \<and> count G ip \<le> 10)"
  using adm_reach_slots [OF assms] adm_reach_bounds [OF assms] count_held_guards [of adm]
  by (auto simp: slots_inv_def)

lemma adm_reach_example:
  "adm_reach (snd (pending (V4 7) (snd (pending (V4 7) admission_default)))) {#V4 7, V4 7#}"
proof -
  have "adm_reach (snd (pending (V4 7) admission_default)) {#V4 7#}"
    by (rule adm_reach.grant [OF adm_reach.start]) code_simp
  then show ?thesis by (rule adm_reach.grant [where ip = "V4 7"]) code_simp
qed

lemma pending_slots_bounded_example:
  "lim_pending_total (adm_limits (snd (pending (V4 7) (snd (pending (V4 7) admission_default))))) = 2"
  using pending_slots_bounded [OF adm_reach_example] by simp

text \<open>
  Dropping a guard never panics: whatever has happened since a guard was handed out, its slot is
  still there, and dropping it gives back that slot and no other.
\<close>

lemma pending_drop_no_panic:
  assumes "adm_reach adm G" "g \<in># G"
  shows "\<exists>adm'. pending_drop g adm = Some adm' \<and> adm_reach adm' (G - {#g#}) \<and>
           lim_pending_total (adm_limits adm') + 1 = lim_pending_total (adm_limits adm) \<and>
           (\<forall>ip. pending_count (adm_limits adm') ip
                = pending_count (adm_limits adm) ip - (if ip = g then 1 else 0))"
proof -
  obtain adm' where d: "pending_drop g adm = Some adm'"
    using slots.release_held [of adm g] adm_reach_slots [OF assms(1)] assms(2) by blast
  have r: "adm_reach adm' (G - {#g#})" by (rule adm_reach.drop [OF assms d])
  have "size (G - {#g#}) + 1 = size G" using assms(2) by (metis Suc_eq_plus1 insert_DiffM size_add_mset)
  with d r show ?thesis
    using pending_slots_bounded [OF assms(1)] pending_slots_bounded [OF r] by auto
qed

lemma pending_drop_no_panic_example:
  "\<exists>adm'. pending_drop (V4 7) (snd (pending (V4 7) (snd (pending (V4 7) admission_default)))) = Some adm' \<and>
     lim_pending_total (adm_limits adm') = 1"
  using pending_drop_no_panic [OF adm_reach_example, of "V4 7"]
    pending_slots_bounded [OF adm_reach_example] by auto

text \<open>
  No address outlives its guards: when every guard has been dropped, the table of pending
  addresses is empty.
\<close>

lemma pending_table_empties:
  assumes "adm_reach adm {#}"
  shows "lim_pending (adm_limits adm) = []"
proof (cases "lim_pending (adm_limits adm)")
  case (Cons kn m)
  then show ?thesis
    using adm_reach_slots [OF assms] by (cases kn) (auto simp: slots_inv_def)
qed simp

lemma pending_table_empties_example:
  "lim_pending (adm_limits (snd (check_at (RoomBudget ''r'') 0 admission_default))) = []"
  by (rule pending_table_empties [OF adm_reach.check [OF adm_reach.start]])

end
