(* ===== verification/AdmissionBudget.thy ===== *)
theory AdmissionBudget
imports AdmissionSlots
begin

text \<open>
  What the token buckets of \<open>Admission\<close> guarantee as a table: it stays within its size, its entries
  stay within their capacity, evicting idle entries (in \<open>check_at\<close> and in \<open>maintain\<close>) gives no
  client an extra attempt, the attempts of one key over any history of calls are bounded by its
  capacity plus its refill, and the wait a refused client is told is neither empty nor useless.
\<close>

section \<open>The table invariant\<close>

definition buckets_wf :: "(budget \<times> bucket) list \<Rightarrow> bool" where
  "buckets_wf bs \<longleftrightarrow> distinct (keys bs) \<and> length bs \<le> max_buckets \<and>
     (\<forall>(k, b) \<in> set bs. bk_wf (budget_capacity k) b)"

abbreviation buckets_of :: "admission \<Rightarrow> (budget \<times> bucket) list" where
  "buckets_of adm \<equiv> lim_buckets (adm_limits adm)"

text \<open>The table after the eviction \<open>check_at\<close> performs when it is full, and the entry of the key.\<close>

definition made_room :: "budget \<Rightarrow> instant \<Rightarrow> (budget \<times> bucket) list \<Rightarrow> (budget \<times> bucket) list" where
  "made_room key now bs =
     (if \<not> contains_key bs key \<and> max_buckets \<le> length bs then retain (not_idle now) bs else bs)"

definition entry :: "budget \<Rightarrow> instant \<Rightarrow> (budget \<times> bucket) list \<Rightarrow> bucket" where
  "entry key now bs = (case map_of bs key of Some b \<Rightarrow> b | None \<Rightarrow> fresh_bucket (budget_capacity key) now)"

definition no_room :: "budget \<Rightarrow> instant \<Rightarrow> (budget \<times> bucket) list \<Rightarrow> bool" where
  "no_room key now bs \<longleftrightarrow> \<not> contains_key bs key \<and> max_buckets \<le> length bs \<and>
     max_buckets \<le> length (retain (not_idle now) bs)"

lemma check_at_eq [op_simps]:
  "check_at key now adm =
    (let bs = buckets_of adm; c = budget_capacity key; (ok, b) = bucket_check c now (entry key now (made_room key now bs)) in
     if no_room key now bs
     then (Inl Unavailable, count_unavailable (adm\<lparr>adm_limits := (adm_limits adm)\<lparr>lim_buckets := made_room key now bs\<rparr>\<rparr>))
     else
       let adm' = adm\<lparr>adm_limits := (adm_limits adm)\<lparr>lim_buckets := AList.update key b (made_room key now bs)\<rparr>\<rparr>
       in if ok then (Inr (), adm') else (Inl (Limited (retry_after c b)), adm'\<lparr>adm_throttled := adm_throttled adm + 1\<rparr>))"
  by (auto simp: check_at_def Let_def made_room_def no_room_def entry_def count_unavailable_def split: prod.splits)

lemma buckets_wf_retain [inv_intros]: "buckets_wf bs \<Longrightarrow> buckets_wf (retain P bs)"
  by (auto simp: buckets_wf_def in_retain_iff intro: le_trans [OF length_retain_le])

lemma buckets_wf_made_room [inv_intros]: "buckets_wf bs \<Longrightarrow> buckets_wf (made_room key now bs)"
  by (simp add: made_room_def buckets_wf_retain)

lemma entry_wf [inv_intros]: "buckets_wf bs \<Longrightarrow> bk_wf (budget_capacity key) (entry key now bs)"
  by (auto simp: entry_def buckets_wf_def bk_wf_fresh split: option.splits dest: map_of_SomeD)

lemma made_room_length:
  assumes "buckets_wf bs" "\<not> no_room key now bs"
  shows "contains_key (made_room key now bs) key \<or> length (made_room key now bs) < max_buckets"
  using assms by (auto simp: made_room_def no_room_def map_simps)

lemma buckets_wf_update:
  assumes bs: "buckets_wf bs" and b: "bk_wf (budget_capacity key) b"
    and room: "contains_key bs key \<or> length bs < max_buckets"
  shows "buckets_wf (AList.update key b bs)"
proof -
  have d: "distinct (keys bs)" using bs by (simp add: buckets_wf_def)
  have "length (AList.update key b bs) \<le> max_buckets"
    using bs room by (auto simp: buckets_wf_def length_AList_update)
  moreover have "distinct (keys (AList.update key b bs))" using d by (simp add: distinct_update)
  ultimately show ?thesis using bs b by (auto simp: buckets_wf_def set_AList_update [OF d])
qed

lemma check_at_buckets:
  "buckets_of (snd (check_at key now adm)) =
     (if no_room key now (buckets_of adm) then made_room key now (buckets_of adm)
      else AList.update key (snd (bucket_check (budget_capacity key) now
             (entry key now (made_room key now (buckets_of adm))))) (made_room key now (buckets_of adm)))"
  by (simp add: check_at_eq Let_def count_unavailable_def split: prod.splits)

lemma buckets_wf_check_at [inv_intros]:
  assumes "buckets_wf (buckets_of adm)"
  shows "buckets_wf (buckets_of (snd (check_at key now adm)))"
proof (cases "no_room key now (buckets_of adm)")
  case True
  with assms show ?thesis by (simp add: check_at_buckets buckets_wf_made_room)
next
  case False
  then have "contains_key (made_room key now (buckets_of adm)) key \<or>
      length (made_room key now (buckets_of adm)) < max_buckets"
    using assms made_room_length by blast
  with False assms show ?thesis
    by (simp only: check_at_buckets if_False)
      (intro buckets_wf_update bk.wf_check entry_wf buckets_wf_made_room)
qed

lemma maintain_buckets [simp]:
  "buckets_of (snd (maintain now adm)) = retain (not_idle now) (buckets_of adm)"
  by (simp add: maintain_def Let_def)

section \<open>Attempts of one key over a history of calls\<close>

datatype adm_call = Check budget instant | Maintain instant

fun call_time :: "adm_call \<Rightarrow> instant" where
  "call_time (Check _ t) = t"
| "call_time (Maintain t) = t"

text \<open>The calls of a history with the answer of each check: admitted, or refused with its retry hint.\<close>

type_synonym answered_call = "adm_call \<times> (admission_error + unit) option"

fun run_calls :: "admission \<Rightarrow> adm_call list \<Rightarrow> answered_call list \<times> admission" where
  "run_calls adm [] = ([], adm)"
| "run_calls adm (Check k t # cs) =
     (case check_at k t adm of (r, adm') \<Rightarrow> case run_calls adm' cs of (hist, adm'') \<Rightarrow>
        ((Check k t, Some r) # hist, adm''))"
| "run_calls adm (Maintain t # cs) =
     (case run_calls (snd (maintain t adm)) cs of (hist, adm'') \<Rightarrow> ((Maintain t, None) # hist, adm''))"

definition admitted :: "budget \<Rightarrow> answered_call list \<Rightarrow> nat" where
  "admitted k hist = length (filter (\<lambda>(c, r). r = Some (Inr ()) \<and> (\<exists>t. c = Check k t)) hist)"

definition attempts :: "budget \<Rightarrow> adm_call list \<Rightarrow> nat" where
  "attempts k cs = length (filter (\<lambda>c. \<exists>t. c = Check k t) cs)"

text \<open>
  What a key may still spend at an instant: the exact refill of its bucket, or a full bucket when it
  has none. Every operation keeps the books on it.
\<close>

definition allowance :: "budget \<Rightarrow> (budget \<times> bucket) list \<Rightarrow> instant \<Rightarrow> rat" where
  "allowance k bs now = (case map_of bs k of
      None \<Rightarrow> budget_capacity k
    | Some b \<Rightarrow> min (budget_capacity k)
        (bk_tokens b + secs (now - bk_updated b) * refill_rate (budget_capacity k)))"

definition stamps_le :: "instant \<Rightarrow> (budget \<times> bucket) list \<Rightarrow> bool" where
  "stamps_le now bs \<longleftrightarrow> (\<forall>(k, b) \<in> set bs. bk_updated b \<le> now)"

lemma capacity_pos: "0 < budget_capacity k"
  using budget_capacity_cases [of k] by auto

lemmas rate_bounds = refill_rate_bounds [OF budget_capacity_cases]

lemma allowance_nonneg: "buckets_wf bs \<Longrightarrow> stamps_le now bs \<Longrightarrow> 0 \<le> allowance k bs now"
  using capacity_pos [of k] rate_bounds(1) [of k]
  by (fastforce simp: allowance_def buckets_wf_def stamps_le_def bk_wf_def secs_def
      split: option.splits dest!: map_of_SomeD)

lemma allowance_le: "allowance k bs now \<le> budget_capacity k"
  by (simp add: allowance_def split: option.splits)

lemma allowance_advance:
  assumes "t \<le> now"
  shows "allowance k bs now \<le> allowance k bs t + secs (now - t) * refill_rate (budget_capacity k)"
proof -
  have inc: "0 \<le> secs (now - t) * refill_rate (budget_capacity k)"
    using assms rate_bounds(1) [of k] by (simp add: secs_nonneg)
  show ?thesis
  proof (cases "map_of bs k")
    case None
    with inc show ?thesis by (simp add: allowance_def)
  next
    case (Some b)
    have "secs (now - bk_updated b) = secs (t - bk_updated b) + secs (now - t)"
      by (simp flip: secs_add)
    then have "secs (now - bk_updated b) * refill_rate (budget_capacity k)
        = secs (t - bk_updated b) * refill_rate (budget_capacity k)
          + secs (now - t) * refill_rate (budget_capacity k)"
      by (simp add: distrib_right)
    with Some inc show ?thesis by (simp add: allowance_def)
  qed
qed

text \<open>An evicted bucket was full again: ten minutes refill ten times the capacity.\<close>

lemma idle_allowance:
  assumes "bk_wf (budget_capacity k) b" "\<not> not_idle now b"
  shows "budget_capacity k \<le> bk_tokens b + secs (now - bk_updated b) * refill_rate (budget_capacity k)"
proof -
  have "600 * nanos_per_sec \<le> now - bk_updated b"
    using assms(2) by (auto simp: not_idle_def idle_ttl_def saturating_duration_since_def
        nanos_per_sec_def split: if_splits)
  then have "secs (600 * nanos_per_sec) \<le> secs (now - bk_updated b)" by (rule secs_mono)
  then have "61 \<le> secs (now - bk_updated b)" by (simp add: secs_def nanos_per_sec_def)
  then have "61 * refill_rate (budget_capacity k) \<le> secs (now - bk_updated b) * refill_rate (budget_capacity k)"
    using rate_bounds(1) [of k] by (intro mult_right_mono) auto
  with rate_bounds(4) [of k] assms(1) show ?thesis by (simp add: bk_wf_def)
qed

lemma allowance_retain:
  assumes "buckets_wf bs"
  shows "allowance k (retain (not_idle now) bs) now = allowance k bs now"
proof -
  have d: "distinct (keys bs)" using assms by (simp add: buckets_wf_def)
  have "bk_wf (budget_capacity k) b" if "map_of bs k = Some b" for b
    using assms that by (auto simp: buckets_wf_def dest: map_of_SomeD)
  then show ?thesis
    using idle_allowance [of k _ now]
    by (auto simp: allowance_def map_of_retain [OF d] min_def split: option.splits)
qed

lemma allowance_made_room: "buckets_wf bs \<Longrightarrow> allowance k (made_room key now bs) now = allowance k bs now"
  by (simp add: made_room_def allowance_retain)

lemma allowance_entry:
  assumes "stamps_le now bs"
  shows "min (budget_capacity k) (bk_tokens (entry k now bs) +
      secs (saturating_duration_since now (bk_updated (entry k now bs))) * refill_rate (budget_capacity k))
    = allowance k bs now"
  using assms
  by (auto simp: allowance_def entry_def fresh_bucket_def stamps_le_def secs_def
      saturating_duration_since_def split: option.splits dest!: map_of_SomeD)

lemma stamps_le_retain [inv_intros]: "stamps_le now bs \<Longrightarrow> stamps_le now (retain P bs)"
  by (auto simp: stamps_le_def in_retain_iff)

lemma stamps_le_made_room [inv_intros]: "stamps_le now bs \<Longrightarrow> stamps_le now (made_room key now bs)"
  by (simp add: made_room_def stamps_le_retain)

lemma stamps_le_mono: "stamps_le t bs \<Longrightarrow> t \<le> now \<Longrightarrow> stamps_le now bs"
  by (fastforce simp: stamps_le_def)

lemma allowance_update_same:
  assumes "bk_updated b = now" "bk_tokens b \<le> budget_capacity k"
  shows "allowance k (AList.update k b bs) now = bk_tokens b"
  using assms by (simp add: allowance_def update_conv secs_def)

lemma allowance_update_other: "k \<noteq> key \<Longrightarrow> allowance k (AList.update key b bs) now = allowance k bs now"
  by (simp add: allowance_def update_conv)

text \<open>One call: what it admits is paid for out of the allowance, up to the rounding of one check.\<close>

lemma check_at_allowance:
  assumes wf: "buckets_wf (buckets_of adm)" and st: "stamps_le now (buckets_of adm)"
  shows "allowance k (buckets_of (snd (check_at key now adm))) now
           + of_bool (key = k \<and> fst (check_at key now adm) = Inr ())
         \<le> allowance k (buckets_of adm) now + of_bool (key = k) * bucket_eps"
proof (cases "no_room key now (buckets_of adm)")
  case True
  then have "fst (check_at key now adm) = Inl Unavailable"
    by (simp add: check_at_eq Let_def split: prod.splits)
  with True wf show ?thesis by (simp add: check_at_buckets allowance_made_room)
next
  case False
  let ?bs = "made_room key now (buckets_of adm)"
  let ?e = "entry key now ?bs"
  obtain ok b where ch: "bucket_check (budget_capacity key) now ?e = (ok, b)" by fastforce
  have wfe: "bk_wf (budget_capacity key) ?e" using wf by (intro entry_wf buckets_wf_made_room)
  have b: "bk_wf (budget_capacity key) b" "bk_updated b = now"
    using bk.wf_check [OF wfe, of now] bk.stamp_check [OF wfe, of now] ch by simp_all
  have res: "fst (check_at key now adm) = Inr () \<longleftrightarrow> ok"
      "buckets_of (snd (check_at key now adm)) = AList.update key b ?bs"
    using False ch check_at_buckets [of key now adm] by (auto simp: check_at_eq Let_def)
  show ?thesis
  proof (cases "key = k")
    case True
    have "bk_tokens b + of_bool ok \<le> allowance k ?bs now + bucket_eps"
      using bk.spend_upper [OF wfe, of now] allowance_entry [of now ?bs key]
        stamps_le_made_room [OF st, of key] ch True by simp
    then show ?thesis
      using True res b allowance_update_same [of b now k ?bs] allowance_made_room [OF wf]
      by (simp add: bk_wf_def)
  next
    case False
    then show ?thesis using res allowance_update_other allowance_made_room [OF wf] by simp
  qed
qed

lemma stamps_le_check_at [inv_intros]:
  assumes "buckets_wf (buckets_of adm)" "stamps_le now (buckets_of adm)"
  shows "stamps_le now (buckets_of (snd (check_at key now adm)))"
proof -
  let ?bs = "made_room key now (buckets_of adm)"
  have "buckets_wf ?bs" "stamps_le now ?bs" using assms by (simp_all add: inv_intros)
  then show ?thesis
    using bk.stamp_check [OF entry_wf, of ?bs key now]
    by (auto simp: check_at_buckets stamps_le_def set_AList_update buckets_wf_def)
qed

lemma run_calls_balance:
  assumes "buckets_wf (buckets_of adm)" "stamps_le u (buckets_of adm)" "sorted (u # map call_time cs)"
  shows "of_nat (admitted k (fst (run_calls adm cs)))
    \<le> allowance k (buckets_of adm) u
       + secs (last (u # map call_time cs) - u) * refill_rate (budget_capacity k)
       + of_nat (attempts k cs) * bucket_eps"
  using assms
proof (induction cs arbitrary: adm u)
  case Nil
  then show ?case using allowance_nonneg by (simp add: admitted_def attempts_def secs_def)
next
  case (Cons c cs)
  let ?r = "refill_rate (budget_capacity k)" and ?t = "call_time c"
  have t: "u \<le> ?t" "sorted (?t # map call_time cs)" using Cons.prems(3) by auto
  have st: "stamps_le ?t (buckets_of adm)" using Cons.prems(2) t(1) by (rule stamps_le_mono)
  have adv: "allowance k (buckets_of adm) ?t \<le> allowance k (buckets_of adm) u + secs (?t - u) * ?r"
    using t(1) by (rule allowance_advance)
  have "secs (last (u # map call_time (c # cs)) - u)
      = secs (last (?t # map call_time cs) - ?t) + secs (?t - u)"
    by (simp flip: secs_add)
  then have time: "secs (last (u # map call_time (c # cs)) - u) * ?r
      = secs (last (?t # map call_time cs) - ?t) * ?r + secs (?t - u) * ?r"
    by (simp only: distrib_right)
  show ?case
  proof (cases c)
    case (Check key t')
    let ?adm' = "snd (check_at key ?t adm)"
    have "admitted k (fst (run_calls adm (c # cs)))
        = of_bool (key = k \<and> fst (check_at key ?t adm) = Inr ()) + admitted k (fst (run_calls ?adm' cs))"
      using Check by (auto simp: admitted_def split: prod.splits)
    moreover have "attempts k (c # cs) = of_bool (key = k) + attempts k cs"
      using Check by (auto simp: attempts_def)
    moreover have "of_nat (admitted k (fst (run_calls ?adm' cs))) \<le> allowance k (buckets_of ?adm') ?t
        + secs (last (?t # map call_time cs) - ?t) * ?r + of_nat (attempts k cs) * bucket_eps"
      by (intro Cons.IH buckets_wf_check_at stamps_le_check_at Cons.prems(1) st t(2))
    moreover have "of_nat (of_bool (key = k) + attempts k cs) * bucket_eps
        = of_bool (key = k) * bucket_eps + of_nat (attempts k cs) * bucket_eps"
      by (simp add: distrib_right)
    ultimately show ?thesis
      using check_at_allowance [OF Cons.prems(1) st, of k key] adv time by simp
  next
    case (Maintain t')
    let ?adm' = "snd (maintain ?t adm)"
    have "of_nat (admitted k (fst (run_calls ?adm' cs))) \<le> allowance k (buckets_of ?adm') ?t
        + secs (last (?t # map call_time cs) - ?t) * ?r + of_nat (attempts k cs) * bucket_eps"
      by (intro Cons.IH t(2)) (use Cons.prems(1) st in \<open>simp_all add: inv_intros\<close>)
    moreover have "admitted k (fst (run_calls adm (c # cs))) = admitted k (fst (run_calls ?adm' cs))"
      and "attempts k (c # cs) = attempts k cs"
      using Maintain by (auto simp: admitted_def attempts_def split: prod.splits)
    ultimately show ?thesis
      using allowance_retain [OF Cons.prems(1), of k ?t] adv time by simp
  qed
qed

lemma run_calls_wf:
  assumes "buckets_wf (buckets_of adm)" "stamps_le u (buckets_of adm)" "sorted (u # map call_time cs)"
  shows "buckets_wf (buckets_of (snd (run_calls adm cs)))
    \<and> stamps_le (last (u # map call_time cs)) (buckets_of (snd (run_calls adm cs)))"
  using assms
proof (induction cs arbitrary: adm u)
  case (Cons c cs)
  let ?t = "call_time c"
  have t: "u \<le> ?t" "sorted (?t # map call_time cs)" using Cons.prems(3) by auto
  have st: "stamps_le ?t (buckets_of adm)" using Cons.prems(2) t(1) by (rule stamps_le_mono)
  note IH = Cons.IH [OF _ _ t(2)]
  show ?case
  proof (cases c)
    case (Check key t')
    then show ?thesis
      using IH [of "snd (check_at key ?t adm)"] buckets_wf_check_at [OF Cons.prems(1), of key ?t]
        stamps_le_check_at [OF Cons.prems(1) st, of key]
      by (auto split: prod.splits)
  next
    case (Maintain t')
    then show ?thesis
      using IH [of "snd (maintain ?t adm)"] buckets_wf_retain [OF Cons.prems(1)] stamps_le_retain [OF st]
      by (auto split: prod.splits)
  qed
qed simp

lemma buckets_wf_default: "buckets_wf (buckets_of admission_default)"
  by (simp add: buckets_wf_def admission_default_def)

lemma pending_buckets [simp]: "buckets_of (snd (pending ip adm)) = buckets_of adm"
  by (simp add: pending_def Let_def)

lemma pending_drop_buckets: "pending_drop g adm = Some adm' \<Longrightarrow> buckets_of adm' = buckets_of adm"
  by (auto simp: pending_drop_def Let_def split: option.splits if_splits)

lemma adm_reach_buckets: "adm_reach adm G \<Longrightarrow> buckets_wf (buckets_of adm)"
proof (induction rule: adm_reach.induct)
  case (grant adm G ip g adm')
  then show ?case by (metis pending_buckets snd_conv)
next
  case (refuse adm G ip e adm')
  then show ?case by (metis pending_buckets snd_conv)
qed (simp_all add: buckets_wf_default buckets_wf_check_at buckets_wf_retain pending_drop_buckets)

text \<open>
  The limiter's table is bounded: in every state the process can reach it holds at most 10000
  buckets, one per key, and each bucket holds between 0 tokens and the capacity of its key.
\<close>

lemma limiter_table_bounded:
  assumes "adm_reach adm G"
  shows "length (buckets_of adm) \<le> 10000 \<and> distinct (keys (buckets_of adm)) \<and>
         (\<forall>k b. map_of (buckets_of adm) k = Some b \<longrightarrow> 0 \<le> bk_tokens b \<and> bk_tokens b \<le> budget_capacity k)"
  using adm_reach_buckets [OF assms]
  by (auto simp: buckets_wf_def max_buckets_def bk_wf_def dest: map_of_SomeD)

lemma limiter_table_bounded_example:
  "length (buckets_of (snd (check_at (Creation (V4 1)) 0 admission_default))) \<le> 10000"
  using limiter_table_bounded [OF adm_reach.check [OF adm_reach.start], of "Creation (V4 1)" 0] by simp

text \<open>
  C22. The budget of a key in every period: whatever checks (of this and of other keys) and maintenance
  runs came before, at non-decreasing instants, the attempts admitted for a key from one call to any
  later one are at most its capacity (30 connections or 5 creations per address, 20 authentications per
  room) plus the refill of the time between the two, up to \<open>2 ^ -37\<close> of a token per attempt. No pattern
  of reconnecting, idling, saving up or filling the table with other keys buys more.
\<close>

theorem budget_bound:
  assumes "sorted (map call_time (before @ c # cs))"
  shows "of_nat (admitted k (fst (run_calls (snd (run_calls admission_default before)) (c # cs))))
    \<le> budget_capacity k
       + secs (last (map call_time (c # cs)) - call_time c) * refill_rate (budget_capacity k)
       + of_nat (attempts k (c # cs)) * (1 / 2 ^ 37)"
proof -
  let ?adm = "snd (run_calls admission_default before)" and ?u = "hd (map call_time (before @ [c]))"
  have start: "stamps_le ?u (buckets_of admission_default)" by (simp add: stamps_le_def admission_default_def)
  have times: "sorted (?u # map call_time before)" "last (?u # map call_time before) \<le> call_time c"
    using assms by (cases before; auto simp: sorted_append last_conv_nth)+
  note wf = run_calls_wf [OF buckets_wf_default start times(1)]
  have "sorted (call_time c # map call_time (c # cs))" using assms by (simp add: sorted_append)
  then show ?thesis
    using run_calls_balance [OF conjunct1 [OF wf] stamps_le_mono [OF conjunct2 [OF wf] times(2)], of "c # cs" k]
      allowance_le [of k "buckets_of ?adm" "call_time c"]
    by (simp add: bucket_eps_def)
qed

theorem budget_bound_witness:
  "of_nat (admitted (Creation (V4 1)) (fst (run_calls
      (snd (run_calls admission_default [Check (Creation (V4 1)) 0, Maintain 600000000000]))
      [Check (RoomBudget ''r'') 700000000000, Check (Creation (V4 1)) 760000000000])))
   \<le> (5 :: rat) + secs 60000000000 * refill_rate 5 + 1 / 2 ^ 37"
  using budget_bound [of "[Check (Creation (V4 1)) 0, Maintain 600000000000]" "Check (RoomBudget ''r'') 700000000000"
      "[Check (Creation (V4 1)) 760000000000]" "Creation (V4 1)"]
  by (simp add: attempts_def)

section \<open>Evicting idle buckets is invisible\<close>

lemma refilled_full:
  assumes c: "c \<in> {5, 20, 30}" and t: "0 \<le> t" and d: "idle_ttl \<le> d"
  shows "refilled t d (refill_rate c) c = c"
proof -
  obtain n where n: "c = of_int n" "\<bar>n\<bar> \<le> 2 ^ 53"
    using c by (auto intro: that [of 5] that [of 20] that [of 30])
  have d0: "0 \<le> d" using d by (simp add: idle_ttl_def nanos_per_sec_def)
  have "secs idle_ttl \<le> secs d" using d by (rule secs_mono)
  then have "600 \<le> secs d" by (simp add: secs_def idle_ttl_def nanos_per_sec_def)
  then have "61 \<le> as_secs_f64 d" using as_secs_f64_error(1) [OF d0] by simp
  then have "61 * refill_rate c \<le> as_secs_f64 d * refill_rate c"
    using refill_rate_bounds(1) [OF c] by (intro mult_right_mono) auto
  then have "c \<le> as_secs_f64 d * refill_rate c" using refill_rate_bounds(4) [OF c] by linarith
  then have "c \<le> rnd64 (as_secs_f64 d * refill_rate c)" using f64.int_le_rnd [of n] n by simp
  then have "c \<le> rnd64 (t + rnd64 (as_secs_f64 d * refill_rate c))"
    using f64.int_le_rnd [of n] n t by simp
  then show ?thesis by (simp add: f64_min_def f64_add_def f64_mul_def)
qed

lemma refilled_fresh:
  assumes c: "c \<in> {5, 20, 30}"
  shows "refilled c 0 r c = c"
  using assms rnd64_int [of 5] rnd64_int [of 20] rnd64_int [of 30]
  by (auto simp: f64_min_def f64_add_def f64_mul_def)

lemma idle_bucket_check:
  assumes "bk_wf (budget_capacity k) b" "\<not> not_idle now b" "now \<le> now'"
  shows "bucket_check (budget_capacity k) now' b
       = bucket_check (budget_capacity k) now' (fresh_bucket (budget_capacity k) now')"
proof -
  have "0 < idle_ttl" by (simp add: idle_ttl_def nanos_per_sec_def)
  with assms(2,3) have "idle_ttl \<le> saturating_duration_since now' (bk_updated b)"
    by (auto simp: not_idle_def saturating_duration_since_def split: if_splits)
  then show ?thesis
    using refilled_full [OF budget_capacity_cases, of "bk_tokens b" _ k]
      refilled_fresh [OF budget_capacity_cases, of k] assms(1)
    by (simp add: bucket_check_eq bk_wf_def fresh_bucket_def)
qed

text \<open>Two tables that hold the same buckets, the idle ones aside, which are as good as none.\<close>

definition same_budgets :: "instant \<Rightarrow> (budget \<times> bucket) list \<Rightarrow> (budget \<times> bucket) list \<Rightarrow> bool" where
  "same_budgets now bs bs' \<longleftrightarrow> map_of (retain (not_idle now) bs) = map_of (retain (not_idle now) bs')"

lemma buckets_wf_distinct: "buckets_wf bs \<Longrightarrow> distinct (keys bs)"
  by (simp add: buckets_wf_def)

lemma not_idle_mono: "t \<le> now \<Longrightarrow> not_idle now b \<Longrightarrow> not_idle t b"
  by (auto simp: not_idle_def saturating_duration_since_def idle_ttl_def nanos_per_sec_def split: if_splits)

lemma same_budgets_mono:
  assumes "buckets_wf bs" "buckets_wf bs'" "same_budgets t bs bs'" "t \<le> now"
  shows "same_budgets now bs bs'"
proof -
  have later: "map_of (retain (not_idle now) m) k =
      (case map_of (retain (not_idle t) m) k of Some b \<Rightarrow> if not_idle now b then Some b else None | None \<Rightarrow> None)"
    if "buckets_wf m" for m k
    using not_idle_mono [OF assms(4)]
    by (auto simp: map_of_retain [OF buckets_wf_distinct [OF that]] split: option.splits)
  show ?thesis
    using assms(3) unfolding same_budgets_def
    by (intro ext) (simp only: later [OF assms(1)] later [OF assms(2)])
qed

lemma no_room_same:
  assumes "buckets_wf bs" "buckets_wf bs'" "same_budgets now bs bs'" "no_room key now bs"
  shows "no_room key now bs'"
proof -
  let ?r = "retain (not_idle now)"
  have len: "length (?r m) = card (dom (map_of (?r m)))" if "buckets_wf m" for m
    using distinct_card [OF distinct_retain [OF buckets_wf_distinct [OF that]]] by (simp add: dom_map_of_conv_image_fst)
  have all: "?r m = m" if "buckets_wf m" "max_buckets \<le> length (?r m)" for m
  proof -
    have "length (filter (\<lambda>kv. not_idle now (snd kv)) m) = length m"
      using that by (intro le_antisym length_filter_le) (auto simp: buckets_wf_def retain_def intro: le_trans)
    then show ?thesis by (metis filter_id_conv length_filter_less less_irrefl retain_def)
  qed
  have full: "max_buckets \<le> length (?r bs)" using assms(4) by (simp add: no_room_def)
  then have full': "max_buckets \<le> length (?r bs')"
    using len [OF assms(1)] len [OF assms(2)] assms(3) by (simp add: same_budgets_def)
  then have "map_of bs' = map_of bs"
    using assms(3) all [OF assms(1) full] all [OF assms(2) full'] by (simp add: same_budgets_def)
  then show ?thesis
    using assms(4) full' length_retain_le [of "not_idle now" bs'] by (simp add: no_room_def)
qed

lemma entry_check_retained:
  assumes "buckets_wf bs"
  shows "bucket_check (budget_capacity key) now (entry key now (made_room key now bs))
       = bucket_check (budget_capacity key) now (entry key now (retain (not_idle now) bs))"
proof -
  note m = map_of_retain [OF buckets_wf_distinct [OF assms], of "not_idle now" key]
  have "entry key now (made_room key now bs) = entry key now bs"
    by (simp add: made_room_def entry_def m split: option.splits)
  moreover have "bucket_check (budget_capacity key) now (entry key now bs)
      = bucket_check (budget_capacity key) now (entry key now (retain (not_idle now) bs))"
  proof (cases "map_of bs key")
    case (Some b)
    then have "bk_wf (budget_capacity key) b" using assms by (auto simp: buckets_wf_def dest: map_of_SomeD)
    with Some idle_bucket_check [of key b now now] show ?thesis by (simp add: entry_def m)
  qed (simp add: entry_def m)
  ultimately show ?thesis by simp
qed

lemma retain_update:
  assumes "buckets_wf bs" "not_idle now b"
  shows "map_of (retain (not_idle now) (AList.update key b (made_room key now bs)))
       = (map_of (retain (not_idle now) bs))(key \<mapsto> b)"
proof -
  have d: "distinct (keys bs)" by (rule buckets_wf_distinct [OF assms(1)])
  then have "distinct (keys (AList.update key b (made_room key now bs)))"
    by (auto simp: made_room_def intro: distinct_update)
  from map_of_retain [OF this] show ?thesis
    using assms(2) by (intro ext) (auto simp: update_conv' made_room_def map_of_retain [OF d] split: option.splits)
qed

text \<open>One check, or one maintenance run, on both: the same answer, and the tables stay the same.\<close>

lemma check_at_same:
  assumes wf: "buckets_wf (buckets_of adm)" "buckets_wf (buckets_of adm')"
    and same: "same_budgets now (buckets_of adm) (buckets_of adm')"
  shows "fst (check_at key now adm) = fst (check_at key now adm')
    \<and> same_budgets now (buckets_of (snd (check_at key now adm))) (buckets_of (snd (check_at key now adm')))"
proof -
  let ?bs = "buckets_of adm" and ?bs' = "buckets_of adm'" and ?c = "budget_capacity key"
  have same': "same_budgets now ?bs' ?bs" using same by (simp add: same_budgets_def)
  have room: "no_room key now ?bs \<longleftrightarrow> no_room key now ?bs'"
    using no_room_same [OF wf same] no_room_same [OF wf(2,1) same'] by blast
  have "entry key now (retain (not_idle now) ?bs) = entry key now (retain (not_idle now) ?bs')"
    using same by (simp add: same_budgets_def entry_def)
  then obtain ok b where check: "bucket_check ?c now (entry key now (made_room key now ?bs)) = (ok, b)"
      "bucket_check ?c now (entry key now (made_room key now ?bs')) = (ok, b)"
    using entry_check_retained [OF wf(1), of key now] entry_check_retained [OF wf(2), of key now] by fastforce
  have "bk_wf ?c (entry key now (made_room key now ?bs))"
    by (intro entry_wf buckets_wf_made_room wf(1))
  from bk.stamp_check [OF this, of now] have "bk_updated b = now" using check by simp
  then have "not_idle now b" by (simp add: not_idle_def idle_ttl_def nanos_per_sec_def)
  note upd = retain_update [OF wf(1) this, of key] retain_update [OF wf(2) this, of key]
  have gone: "same_budgets now (made_room key now ?bs) (made_room key now ?bs')"
    using same wf by (auto simp: same_budgets_def made_room_def retain_def)
  have "fst (check_at key now adm) = fst (check_at key now adm')"
    using room check by (simp add: check_at_eq Let_def)
  moreover have "same_budgets now (buckets_of (snd (check_at key now adm))) (buckets_of (snd (check_at key now adm')))"
    using room check upd gone same by (auto simp: check_at_buckets same_budgets_def)
  ultimately show ?thesis by blast
qed

lemma maintain_same:
  assumes "buckets_wf (buckets_of adm)" "buckets_wf (buckets_of adm')"
  shows "same_budgets now (buckets_of (snd (maintain now adm))) (buckets_of adm)"
    "same_budgets now (buckets_of adm) (buckets_of adm')
     \<Longrightarrow> same_budgets now (buckets_of (snd (maintain now adm))) (buckets_of (snd (maintain now adm')))"
  by (simp_all add: same_budgets_def retain_def)

lemma run_calls_same:
  assumes "buckets_wf (buckets_of adm)" "buckets_wf (buckets_of adm')" "same_budgets u (buckets_of adm) (buckets_of adm')"
    and "sorted (u # map call_time cs)"
  shows "fst (run_calls adm cs) = fst (run_calls adm' cs)"
  using assms
proof (induction cs arbitrary: adm adm' u)
  case (Cons c cs)
  let ?t = "call_time c"
  have t: "u \<le> ?t" "sorted (?t # map call_time cs)" using Cons.prems(4) by auto
  have same: "same_budgets ?t (buckets_of adm) (buckets_of adm')"
    by (rule same_budgets_mono [OF Cons.prems(1-3) t(1)])
  show ?case
  proof (cases c)
    case (Check key t')
    have step: "fst (check_at key ?t adm) = fst (check_at key ?t adm')"
        "same_budgets ?t (buckets_of (snd (check_at key ?t adm))) (buckets_of (snd (check_at key ?t adm')))"
      using check_at_same [OF Cons.prems(1,2) same, of key] by blast+
    have "fst (run_calls (snd (check_at key ?t adm)) cs) = fst (run_calls (snd (check_at key ?t adm')) cs)"
      by (rule Cons.IH [OF _ _ step(2) t(2)]) (rule buckets_wf_check_at, fact)+
    then show ?thesis using Check step(1) by (auto split: prod.splits)
  next
    case (Maintain t')
    have "fst (run_calls (snd (maintain ?t adm)) cs) = fst (run_calls (snd (maintain ?t adm')) cs)"
      by (rule Cons.IH [OF _ _ maintain_same(2) [OF Cons.prems(1,2) same] t(2)])
        (use Cons.prems(1,2) in \<open>simp_all add: buckets_wf_retain\<close>)
    then show ?thesis using Maintain by (auto split: prod.splits)
  qed
qed simp

text \<open>
  C36. Maintenance is invisible to clients: in every state the process can reach, running it or not makes
  no difference to the answer of any later check, retry hints included, however many checks of whichever
  keys and further maintenance runs follow, and whether or not the table is or becomes full.
\<close>

theorem maintain_transparent:
  assumes "adm_reach adm G" "sorted (now # map call_time cs)"
  shows "fst (run_calls (snd (maintain now adm)) cs) = fst (run_calls adm cs)"
proof -
  have wf: "buckets_wf (buckets_of adm)" using assms(1) by (rule adm_reach_buckets)
  then have "buckets_wf (buckets_of (snd (maintain now adm)))" by (simp add: buckets_wf_retain)
  from run_calls_same [OF this wf maintain_same(1) [OF wf wf] assms(2)] show ?thesis .
qed

theorem maintain_transparent_witness:
  "fst (run_calls (snd (maintain 700000000000 (snd (check_at (Creation (V4 1)) 0 admission_default))))
      [Check (Creation (V4 1)) 800000000000, Check (RoomBudget ''r'') 800000000001])
   = fst (run_calls (snd (check_at (Creation (V4 1)) 0 admission_default))
      [Check (Creation (V4 1)) 800000000000, Check (RoomBudget ''r'') 800000000001])"
  by (rule maintain_transparent [OF adm_reach.check [OF adm_reach.start]]) simp

section \<open>The retry hint\<close>

lemma f64_ceil_as_u64_small:
  assumes "0 < y" "y \<le> of_int n" "n \<le> 1000"
  shows "uint (f64_ceil_as_u64 y) = \<lceil>y\<rceil>" "1 \<le> \<lceil>y\<rceil>" "\<lceil>y\<rceil> \<le> n"
proof -
  show 1: "1 \<le> \<lceil>y\<rceil>" "\<lceil>y\<rceil> \<le> n"
    using assms by (simp_all add: one_le_ceiling ceiling_le_iff)
  then have "max 0 (min (2 ^ 64 - 1) \<lceil>y\<rceil>) = \<lceil>y\<rceil>" using assms(3) by simp
  moreover have "\<lceil>y\<rceil> mod 2 ^ 64 = \<lceil>y\<rceil>"
  proof (rule mod_pos_pos_trivial)
    have "\<lceil>y\<rceil> \<le> 1000" using 1 assms(3) by linarith
    also have "(1000 :: int) < 2 ^ 64" by simp
    finally show "\<lceil>y\<rceil> < 2 ^ 64" .
  qed (use 1 in linarith)
  ultimately show "uint (f64_ceil_as_u64 y) = \<lceil>y\<rceil>"
    by (simp add: f64_ceil_as_u64_def uint_word_of_int)
qed

text \<open>The number the hint is rounded up from, between 0 and the minutes' share of one token.\<close>

lemma retry_value_bounds:
  assumes c: "c \<in> {5, 20, 30}" and t: "rnd64 t = t" "0 \<le> t" "t < 1"
  defines "y \<equiv> f64_div (f64_sub 1 t) (refill_rate c)"
  shows "0 < y" "y \<le> 60 / c" "1 - t - 1 / 2 ^ 50 \<le> y * refill_rate c" "y * refill_rate c \<le> 1 - t + 1 / 2 ^ 50"
proof -
  let ?r = "refill_rate c" and ?g = "rnd64 (1 - t)"
  note r = refill_rate_bounds [OF c]
  have gap: "pow2 (- 53) \<le> 1 - t"
    using representable_below_1 [OF t(1,3)] by (simp add: pow2_def power_int_minus field_simps)
  have g: "pow2 (- 53) \<le> ?g" "?g \<le> 1"
    using rnd64_mono [OF gap] pow2_representable [of "- 53"] f64.rnd_le_int [of "1 - t" 1] t by simp_all
  have "pow2 (- 58) \<le> ?g / ?r"
  proof -
    have "pow2 (- 58) * ?r \<le> pow2 (- 58) * 32" using r by (intro mult_left_mono) auto
    also have "\<dots> = pow2 (- 53)" by (simp add: pow2_def power_int_minus)
    finally show ?thesis using g r by (simp add: field_simps)
  qed
  then have "pow2 (- 58) \<le> y"
    using rnd64_mono [of "pow2 (- 58)" "?g / ?r"] pow2_representable [of "- 58"]
    by (simp add: y_def f64_div_def f64_sub_def)
  then show "0 < y" using pow2_pos [of "- 58"] by linarith
  have "?g / ?r \<le> 1 / ?r" using g r by (simp add: divide_right_mono)
  then have "y \<le> rnd64 (1 / ?r)" using rnd64_mono by (simp add: y_def f64_div_def f64_sub_def)
  also have "rnd64 (1 / refill_rate 5) = 12" "rnd64 (1 / refill_rate 20) = 3"
      "rnd64 (1 / refill_rate 30) = 2" by code_simp+
  then have "rnd64 (1 / ?r) = 60 / c" using c by auto
  finally show "y \<le> 60 / c" .
  have q: "0 \<le> ?g / ?r" using g r pow2_pos [of "- 53"] by (intro divide_nonneg_pos) linarith+
  have "(?g / ?r - (?g / ?r) / 2 ^ 53 - 1 / 2 ^ 60) * ?r \<le> y * ?r"
    using f64.rnd_lower [OF q] r by (intro mult_right_mono) (simp_all add: y_def f64_div_def f64_sub_def)
  then have "?g - ?g / 2 ^ 53 - ?r / 2 ^ 60 \<le> y * ?r" using r by (simp add: algebra_simps)
  moreover have "(1 - t) - (1 - t) / 2 ^ 53 - 1 / 2 ^ 60 \<le> ?g" using f64.rnd_lower [of "1 - t"] t by simp
  ultimately show "1 - t - 1 / 2 ^ 50 \<le> y * ?r" using g(2) t r(2) by (simp add: field_simps)
  have "y * ?r \<le> (?g / ?r + (?g / ?r) / 2 ^ 53 + 1 / 2 ^ 60) * ?r"
    using f64.rnd_upper [OF q] r by (intro mult_right_mono) (simp_all add: y_def f64_div_def f64_sub_def)
  then have "y * ?r \<le> ?g + ?g / 2 ^ 53 + ?r / 2 ^ 60" using r by (simp add: algebra_simps)
  moreover have "?g \<le> (1 - t) + (1 - t) / 2 ^ 53 + 1 / 2 ^ 60" using f64.rnd_upper [of "1 - t"] t by simp
  ultimately show "y * ?r \<le> 1 - t + 1 / 2 ^ 50" using g(2) t r(2) by (simp add: field_simps)
qed

lemma bk_refilled_representable:
  assumes "c \<in> {5, 20, 30}" shows "rnd64 (bk_refilled c now b) = bk_refilled c now b"
  using assms rnd64_int [of 5] rnd64_int [of 20] rnd64_int [of 30]
  by (auto simp: f64_min_def f64_add_def min_def)

text \<open>A key that has its bucket is never turned away for lack of room.\<close>

lemma check_at_present:
  assumes "map_of (buckets_of adm) key = Some b" "bucket_check (budget_capacity key) now b = (ok, b')"
  shows "fst (check_at key now adm) = (if ok then Inr () else Inl (Limited (retry_after (budget_capacity key) b')))"
    and "map_of (buckets_of (snd (check_at key now adm))) key = Some b'"
  using assms by (simp_all add: check_at_eq Let_def no_room_def made_room_def entry_def update_conv)

lemma check_at_limited:
  assumes "check_at key now adm = (Inl (Limited r), adm')"
  obtains b where "bucket_check (budget_capacity key) now (entry key now (made_room key now (buckets_of adm))) = (False, b)"
    "r = retry_after (budget_capacity key) b" "map_of (buckets_of adm') key = Some b"
    "adm_throttled adm' = adm_throttled adm + 1"
  using assms that by (auto simp: check_at_eq Let_def update_conv count_unavailable_def split: prod.splits if_splits)

lemma secs_of_nanos: "secs (n * nanos_per_sec + d) = of_int n + of_int d / 10 ^ 9"
  by (simp add: secs_def nanos_per_sec_def add_divide_distrib)

text \<open>
  C37. The retry hint of a throttled attempt is exact to the second: it is at least one second and at
  most one token's share of the minute (2, 12 and 3 seconds for connections, creations and rooms); every
  attempt made later than the hint, be it by a nanosecond (the rounding of the bucket needs less), is
  admitted; and every attempt made more than a second before the hint is refused again.
\<close>

theorem retry_hint_sound:
  assumes reach: "adm_reach adm G" and lim: "check_at key now adm = (Inl (Limited r), adm')"
  shows "1 \<le> uint r \<and> of_int (uint r) \<le> 60 / budget_capacity key
    \<and> (\<forall>later. now + uint r * nanos_per_sec < later \<longrightarrow> fst (check_at key later adm') = Inr ())
    \<and> (\<forall>early. now \<le> early \<longrightarrow> early < now + (uint r - 1) * nanos_per_sec \<longrightarrow>
         (\<exists>r'. fst (check_at key early adm') = Inl (Limited r')))"
proof -
  let ?c = "budget_capacity key"
  let ?r = "refill_rate ?c"
  note c = budget_capacity_cases [of key]
  note rate = refill_rate_bounds [OF c]
  let ?e = "entry key now (made_room key now (buckets_of adm))"
  obtain b where b: "bucket_check ?c now ?e = (False, b)" "r = retry_after ?c b"
      "map_of (buckets_of adm') key = Some b" using check_at_limited [OF lim] by metis
  have wfe: "bk_wf ?c ?e"
    using adm_reach_buckets [OF reach] by (intro entry_wf buckets_wf_made_room)
  have bt: "bk_tokens b = bk_refilled ?c now ?e" "bk_tokens b < 1" "bk_updated b = now"
    using b(1) by (auto simp: bucket_check_eq split: if_splits)
  have wfb: "bk_wf ?c b" using bk.wf_check [OF wfe, of now] b(1) by simp
  let ?t = "bk_tokens b" and ?y = "f64_div (f64_sub 1 (bk_tokens b)) (refill_rate ?c)"
  have y: "0 < ?y" "?y \<le> 60 / ?c" "1 - ?t - 1 / 2 ^ 50 \<le> ?y * ?r" "?y * ?r \<le> 1 - ?t + 1 / 2 ^ 50"
    using retry_value_bounds [OF c, of ?t] bk_refilled_representable [OF c, of ?e now] bt wfb
    by (simp_all add: bk_wf_def)
  obtain n where n: "60 / ?c = of_int n" "n \<le> 1000"
    using c by (auto intro: that [of 12] that [of 3] that [of 2])
  have r: "uint r = \<lceil>?y\<rceil>" "1 \<le> uint r" "uint r \<le> n"
    using f64_ceil_as_u64_small [of ?y n] y n b(2) by (simp_all add: retry_after_def)
  have nano: "bucket_eps + 1 / 2 ^ 50 \<le> 1 / 10 ^ 9 * ?r" using rate(5) by (simp add: bucket_eps_def)
  have later: "fst (check_at key t adm') = Inr ()" if "now + uint r * nanos_per_sec < t" for t
  proof -
    have "?y * ?r \<le> of_int (uint r) * ?r"
      using rate(1) r(1) by (intro mult_right_mono) (simp_all add: le_of_int_ceiling)
    moreover have "secs (uint r * nanos_per_sec + 1) \<le> secs (saturating_duration_since t (bk_updated b))"
      using that r(2) bt(3) by (intro secs_mono) (simp add: saturating_duration_since_def nanos_per_sec_def)
    then have "(of_int (uint r) + 1 / 10 ^ 9) * ?r \<le> secs (saturating_duration_since t (bk_updated b)) * ?r"
      using rate(1) secs_of_nanos [of "uint r" 1] by (intro mult_right_mono) simp_all
    ultimately have "1 + bucket_eps \<le> ?t + secs (saturating_duration_since t (bk_updated b)) * ?r"
      using y(3) nano unfolding distrib_right by linarith
    moreover have "1 + bucket_eps \<le> ?c" using c by (auto simp: bucket_eps_def)
    ultimately have "fst (bucket_check ?c t b)" using bk.not_refused [OF wfb, of t] by simp
    then show ?thesis using check_at_present(1) [OF b(3), of t] by (metis prod.collapse)
  qed
  have early: "\<exists>r'. fst (check_at key t adm') = Inl (Limited r')" if "now \<le> t" "t < now + (uint r - 1) * nanos_per_sec" for t
  proof -
    have "of_int (uint r - 1) * ?r < ?y * ?r"
      using rate(1) r(1) by (intro mult_strict_right_mono) linarith+
    moreover have "secs (saturating_duration_since t (bk_updated b)) \<le> secs ((uint r - 1) * nanos_per_sec + - 1)"
      using that bt(3) by (intro secs_mono) (simp add: saturating_duration_since_def)
    then have "secs (saturating_duration_since t (bk_updated b)) * ?r \<le> (of_int (uint r - 1) - 1 / 10 ^ 9) * ?r"
      using rate(1) secs_of_nanos [of "uint r - 1" "- 1"] by (intro mult_right_mono) simp_all
    ultimately have "?t + secs (saturating_duration_since t (bk_updated b)) * ?r + bucket_eps < 1"
      using y(4) nano unfolding left_diff_distrib by linarith
    then have "\<not> fst (bucket_check ?c t b)"
      using bk.spend_upper [OF wfb, of t] bk.wf_check [OF wfb, of t] by (auto simp: bk_wf_def)
    then show ?thesis using check_at_present(1) [OF b(3), of t] by (metis prod.collapse)
  qed
  have "of_int (uint r) \<le> (of_int n :: rat)" using r(3) by (simp only: of_int_le_iff)
  then show ?thesis using r(2) n(1) later early by simp
qed

lemma bucket_check_same_instant:
  assumes "0 \<le> k" "k \<le> n" "n \<le> 64"
  shows "bucket_check (of_int n) now \<lparr>bk_tokens = of_int k, bk_updated = now\<rparr> =
    (if 1 \<le> k then (True, \<lparr>bk_tokens = of_int (k - 1), bk_updated = now\<rparr>)
     else (False, \<lparr>bk_tokens = of_int k, bk_updated = now\<rparr>))"
proof -
  have "rnd64 (of_int k) = of_int k" "rnd64 (of_int (k - 1)) = of_int (k - 1)"
    using assms by (intro rnd64_int; simp)+
  moreover have "(of_int k :: rat) \<le> of_int n" using assms(2) by (simp only: of_int_le_iff)
  ultimately show ?thesis
    by (simp add: bucket_check_eq f64_min_def f64_add_def f64_mul_def f64_sub_def min_absorb1)
qed

lemma creation_bucket_runs_dry:
  "bucket_check 5 0 \<lparr>bk_tokens = 5, bk_updated = 0\<rparr> = (True, \<lparr>bk_tokens = 4, bk_updated = 0\<rparr>)"
  "bucket_check 5 0 \<lparr>bk_tokens = 4, bk_updated = 0\<rparr> = (True, \<lparr>bk_tokens = 3, bk_updated = 0\<rparr>)"
  "bucket_check 5 0 \<lparr>bk_tokens = 3, bk_updated = 0\<rparr> = (True, \<lparr>bk_tokens = 2, bk_updated = 0\<rparr>)"
  "bucket_check 5 0 \<lparr>bk_tokens = 2, bk_updated = 0\<rparr> = (True, \<lparr>bk_tokens = 1, bk_updated = 0\<rparr>)"
  "bucket_check 5 0 \<lparr>bk_tokens = 1, bk_updated = 0\<rparr> = (True, \<lparr>bk_tokens = 0, bk_updated = 0\<rparr>)"
  "bucket_check 5 0 \<lparr>bk_tokens = 0, bk_updated = 0\<rparr> = (False, \<lparr>bk_tokens = 0, bk_updated = 0\<rparr>)"
  using bucket_check_same_instant [of 5 5 0] bucket_check_same_instant [of 4 5 0]
    bucket_check_same_instant [of 3 5 0] bucket_check_same_instant [of 2 5 0]
    bucket_check_same_instant [of 1 5 0] bucket_check_same_instant [of 0 5 0] by simp_all

lemma retry_after_dry: "retry_after 5 \<lparr>bk_tokens = 0, bk_updated = 0\<rparr> = 12"
  by code_simp

definition exhausted :: "admission" where
  "exhausted = (let f = (\<lambda>adm. snd (check_at (Creation (V4 1)) 0 adm)) in f (f (f (f (f admission_default)))))"

lemma exhausted_reach: "adm_reach exhausted {#}"
  by (simp add: exhausted_def Let_def adm_reach.intros)

lemma exhausted_limited: "fst (check_at (Creation (V4 1)) 0 exhausted) = Inl (Limited 12)"
proof -
  let ?k = "Creation (V4 1)"
  let ?f = "\<lambda>adm. snd (check_at ?k 0 adm)" and ?b = "\<lambda>n. \<lparr>bk_tokens = n, bk_updated = 0\<rparr>"
  have 1: "map_of (buckets_of (?f admission_default)) ?k = Some (?b 4)"
    by (simp add: check_at_buckets no_room_def made_room_def entry_def fresh_bucket_def
        admission_default_def max_buckets_def creation_bucket_runs_dry)
  note step = check_at_present(2) [of _ ?k _ 0, unfolded budget_capacity.simps]
  note 2 = step [OF 1 creation_bucket_runs_dry(2)]
  note 3 = step [OF 2 creation_bucket_runs_dry(3)]
  note 4 = step [OF 3 creation_bucket_runs_dry(4)]
  note 5 = step [OF 4 creation_bucket_runs_dry(5)]
  show ?thesis
    using check_at_present(1) [of _ ?k _ 0, unfolded budget_capacity.simps, OF 5 creation_bucket_runs_dry(6)]
    by (simp add: exhausted_def Let_def retry_after_dry)
qed

theorem retry_hint_sound_witness:
  "fst (check_at (Creation (V4 1)) 12000000001 (snd (check_at (Creation (V4 1)) 0 exhausted))) = Inr ()
   \<and> fst (check_at (Creation (V4 1)) 10000000000 (snd (check_at (Creation (V4 1)) 0 exhausted))) \<noteq> Inr ()"
proof -
  have "check_at (Creation (V4 1)) 0 exhausted
      = (Inl (Limited 12), snd (check_at (Creation (V4 1)) 0 exhausted))"
    using exhausted_limited by (simp add: prod_eq_iff)
  note hint = retry_hint_sound [OF exhausted_reach this]
  have "fst (check_at (Creation (V4 1)) 12000000001 (snd (check_at (Creation (V4 1)) 0 exhausted))) = Inr ()"
    using hint by (simp add: nanos_per_sec_def)
  moreover have "\<exists>r'. fst (check_at (Creation (V4 1)) 10000000000 (snd (check_at (Creation (V4 1)) 0 exhausted))) = Inl (Limited r')"
    using hint by (simp add: nanos_per_sec_def)
  ultimately show ?thesis by auto
qed

end
