(* ===== verification/RoomStore.thy ===== *)
theory RoomStore
imports Prelude
begin

text \<open>
  The contract of the room store, as the rest of the backend uses the database: an abstract view from
  room ids to the time of the last activity and the stored password hash, and five operations. A call
  that fails changes nothing. The locale derives what the callers rely on: a room is never overwritten,
  its password never changes while it exists, and a purged room is gone until it is created anew.
\<close>

locale room_store =
  fixes view :: "'s \<Rightarrow> string \<Rightarrow> (i64 \<times> string option) option"
    and inv :: "'s \<Rightarrow> bool"
    and stamp :: "'c \<Rightarrow> i64"
    and create :: "'c \<Rightarrow> string \<Rightarrow> string option \<Rightarrow> 's \<Rightarrow> ('e + unit) \<times> 's"
    and touch :: "'c \<Rightarrow> string \<Rightarrow> 's \<Rightarrow> ('e + unit) \<times> 's"
    and purge :: "'c \<Rightarrow> i64 \<Rightarrow> 's \<Rightarrow> ('e + string list) \<times> 's"
    and lookup :: "'c \<Rightarrow> string \<Rightarrow> 's \<Rightarrow> 'e + string option option"
    and present :: "'c \<Rightarrow> string \<Rightarrow> 's \<Rightarrow> 'e + bool"
  assumes create_ok: "inv s \<Longrightarrow> create c rid h s = (Inr (), s') \<Longrightarrow>
          inv s' \<and> view s rid = None \<and> view s' = (view s)(rid \<mapsto> (stamp c, h))"
    and create_err: "create c rid h s = (Inl e, s') \<Longrightarrow> s' = s"
    and touch_ok: "inv s \<Longrightarrow> touch c rid s = (Inr (), s') \<Longrightarrow>
          inv s' \<and> view s' = (case view s rid of None \<Rightarrow> view s | Some v \<Rightarrow> (view s)(rid \<mapsto> (stamp c, snd v)))"
    and touch_err: "touch c rid s = (Inl e, s') \<Longrightarrow> s' = s"
    and purge_ok: "inv s \<Longrightarrow> purge c threshold s = (Inr ids, s') \<Longrightarrow>
          inv s' \<and> distinct ids \<and> view s' = view s |` (- set ids)
          \<and> (\<forall>rid. rid \<in> set ids \<longleftrightarrow> (\<exists>v. view s rid = Some v \<and> sint (fst v) < sint (stamp c - threshold)))"
    and purge_err: "purge c threshold s = (Inl e, s') \<Longrightarrow> s' = s"
    and lookup_ok: "lookup c rid s = Inr r \<Longrightarrow> r = map_option snd (view s rid)"
    and present_ok: "present c rid s = Inr b \<Longrightarrow> b \<longleftrightarrow> view s rid \<noteq> None"
begin

definition password :: "'s \<Rightarrow> string \<Rightarrow> string option option" where
  "password s rid = map_option snd (view s rid)"

lemma inv_create: "inv s \<Longrightarrow> inv (snd (create c rid h s))"
  using create_ok [of s c rid h] create_err [of c rid h s]
  by (cases "create c rid h s"; cases "fst (create c rid h s)") auto

lemma inv_touch: "inv s \<Longrightarrow> inv (snd (touch c rid s))"
  using touch_ok [of s c rid] touch_err [of c rid s]
  by (cases "touch c rid s"; cases "fst (touch c rid s)") auto

lemma inv_purge: "inv s \<Longrightarrow> inv (snd (purge c t s))"
  using purge_ok [of s c t] purge_err [of c t s]
  by (cases "purge c t s"; cases "fst (purge c t s)") auto

lemma create_keeps:
  assumes "inv s" "password s rid = Some p"
  shows "password (snd (create c rid' h s)) rid = Some p"
  using assms create_ok [of s c rid' h] create_err [of c rid' h s]
  by (cases "create c rid' h s"; cases "fst (create c rid' h s)") (auto simp: password_def)

lemma touch_keeps:
  assumes "inv s"
  shows "password (snd (touch c rid' s)) rid = password s rid"
  using assms touch_ok [of s c rid'] touch_err [of c rid' s]
  by (cases "touch c rid' s"; cases "fst (touch c rid' s)") (auto simp: password_def split: option.splits)

lemma purge_keeps:
  assumes "inv s" "\<forall>ids. fst (purge c t s) = Inr ids \<longrightarrow> rid \<notin> set ids"
  shows "password (snd (purge c t s)) rid = password s rid"
  using assms purge_ok [of s c t] purge_err [of c t s]
  by (cases "purge c t s"; cases "fst (purge c t s)") (auto simp: password_def restrict_map_def)

lemma purge_removes:
  assumes "inv s" "purge c t s = (Inr ids, s')" "rid \<in> set ids"
  shows "password s' rid = None"
  using assms purge_ok [of s c t] by (auto simp: password_def restrict_map_def)

lemma create_then_lookup:
  assumes "inv s" "create c rid h s = (Inr (), s')" "lookup c' rid s' = Inr r"
  shows "r = Some h"
  using assms create_ok [of s c rid h] lookup_ok [of c' rid s'] by auto

lemma lookup_password: "lookup c rid s = Inr r \<Longrightarrow> r = password s rid"
  using lookup_ok [of c rid s] by (auto simp: password_def)

lemma present_password: "present c rid s = Inr b \<Longrightarrow> b \<longleftrightarrow> password s rid \<noteq> None"
  using present_ok [of c rid s] by (auto simp: password_def)

end

end
