(* ===== verification/Db.thy ===== *)
theory Db
imports RoomStore
begin

text \<open>
  The database layer of \<open>src/db.rs\<close>: the table \<open>rooms\<close>, the migration, and one definition per query.
  SQLite itself is not modelled beyond the statements of the source: a call either takes effect or
  fails and changes nothing, which the argument of each operation decides. Timestamps are \<open>i64\<close> and
  wrap as in the release build.
\<close>

section \<open>Data\<close>

record room_row =
  row_created_at :: i64
  row_last_activity :: i64
  row_password_hash :: "string option"

text \<open>\<open>db_columns\<close> are the columns of the table, \<open>None\<close> before it is created.\<close>

record database =
  db_columns :: "string list option"
  db_rows :: "(string \<times> room_row) list"

datatype sqlx_error = Backend | Constraint

text \<open>The circumstances of a call: whether the backend answers, and the wall clock in seconds since 1970.\<close>

record db_call =
  call_ok :: bool
  call_clock :: u64

definition empty_database :: database where
  "empty_database = \<lparr>db_columns = None, db_rows = []\<rparr>"

definition has_columns :: "database \<Rightarrow> string list \<Rightarrow> bool" where
  "has_columns db cs = (case db_columns db of None \<Rightarrow> False | Some ds \<Rightarrow> list_all (\<lambda>c. c \<in> set ds) cs)"

section \<open>Migration\<close>

definition create_table_if_not_exists :: "database \<Rightarrow> database" where
  "create_table_if_not_exists db =
     (case db_columns db of
        None \<Rightarrow> db\<lparr>db_columns := Some [''id'', ''created_at'', ''last_activity''], db_rows := []\<rparr>
      | Some _ \<Rightarrow> db)"

definition count_password_hash :: "database \<Rightarrow> nat" where
  "count_password_hash db =
     (case db_columns db of None \<Rightarrow> 0 | Some cs \<Rightarrow> length (filter (\<lambda>c. c = ''password_hash'') cs))"

definition add_password_hash :: "database \<Rightarrow> database" where
  "add_password_hash db =
     db\<lparr>db_columns := map_option (\<lambda>cs. cs @ [''password_hash'']) (db_columns db),
        db_rows := map (\<lambda>(rid, r). (rid, r\<lparr>row_password_hash := None\<rparr>)) (db_rows db)\<rparr>"

text \<open>
  \<open>run_migrations\<close> in one transaction. \<open>fail_at\<close> is the statement that fails, if any: 0 begins the
  transaction, 1 creates the table, 2 counts the column, 3 adds it, 4 commits. On an early return the
  transaction is dropped, which rolls it back.
\<close>

definition run_migrations :: "nat option \<Rightarrow> database \<Rightarrow> (sqlx_error + unit) \<times> database" where
  "run_migrations fail_at db =
     (if fail_at = Some 0 then (Inl Backend, db)
      else if fail_at = Some 1 then (Inl Backend, db)
      else
        let db1 = create_table_if_not_exists db in
        if fail_at = Some 2 then (Inl Backend, db)
        else
          let missing = (count_password_hash db1 = 0) in
          if missing \<and> fail_at = Some 3 then (Inl Backend, db)
          else
            let db2 = (if missing then add_password_hash db1 else db1) in
            if fail_at = Some 4 then (Inl Backend, db) else (Inr (), db2))"

text \<open>\<open>init_pool\<close>: connect, then migrate; \<open>None\<close> is a connection that cannot be opened.\<close>

definition init_pool :: "nat option \<Rightarrow> database option \<Rightarrow> sqlx_error + database" where
  "init_pool fail_at opened =
     (case opened of
        None \<Rightarrow> Inl Backend
      | Some db \<Rightarrow> (case run_migrations fail_at db of (Inl e, _) \<Rightarrow> Inl e | (Inr _, db') \<Rightarrow> Inr db'))"

section \<open>Queries\<close>

definition now_timestamp :: "db_call \<Rightarrow> i64" where
  "now_timestamp c = call_clock c"

definition create_room_with_password ::
  "db_call \<Rightarrow> string \<Rightarrow> string option \<Rightarrow> database \<Rightarrow> (sqlx_error + unit) \<times> database" where
  "create_room_with_password c room_id password_hash db =
     (let now = now_timestamp c in
      if \<not> call_ok c \<or> \<not> has_columns db [''id'', ''created_at'', ''last_activity'', ''password_hash'']
      then (Inl Backend, db)
      else if contains_key (db_rows db) room_id then (Inl Constraint, db)
      else (Inr (), db\<lparr>db_rows := AList.update room_id
              \<lparr>row_created_at = now, row_last_activity = now, row_password_hash = password_hash\<rparr>
              (db_rows db)\<rparr>))"

definition create_room :: "db_call \<Rightarrow> string \<Rightarrow> database \<Rightarrow> (sqlx_error + unit) \<times> database" where
  "create_room c room_id db = create_room_with_password c room_id None db"

definition room_password :: "db_call \<Rightarrow> string \<Rightarrow> database \<Rightarrow> sqlx_error + string option option" where
  "room_password c room_id db =
     (if \<not> call_ok c \<or> \<not> has_columns db [''id'', ''password_hash''] then Inl Backend
      else Inr (map_option row_password_hash (map_of (db_rows db) room_id)))"

definition room_exists :: "db_call \<Rightarrow> string \<Rightarrow> database \<Rightarrow> sqlx_error + bool" where
  "room_exists c room_id db =
     (if \<not> call_ok c \<or> \<not> has_columns db [''id''] then Inl Backend
      else Inr (map_of (db_rows db) room_id \<noteq> None))"

definition update_activity :: "db_call \<Rightarrow> string \<Rightarrow> database \<Rightarrow> (sqlx_error + unit) \<times> database" where
  "update_activity c room_id db =
     (let now = now_timestamp c in
      if \<not> call_ok c \<or> \<not> has_columns db [''id'', ''last_activity''] then (Inl Backend, db)
      else (Inr (), db\<lparr>db_rows :=
              (case map_of (db_rows db) room_id of
                 None \<Rightarrow> db_rows db
               | Some r \<Rightarrow> AList.update room_id (r\<lparr>row_last_activity := now\<rparr>) (db_rows db))\<rparr>))"

definition delete_inactive_rooms ::
  "db_call \<Rightarrow> i64 \<Rightarrow> database \<Rightarrow> (sqlx_error + string list) \<times> database" where
  "delete_inactive_rooms c inactivity_threshold_secs db =
     (let cutoff = now_timestamp c - inactivity_threshold_secs in
      if \<not> call_ok c \<or> \<not> has_columns db [''id'', ''last_activity''] then (Inl Backend, db)
      else (Inr (map fst (filter (\<lambda>kr. sint (row_last_activity (snd kr)) < sint cutoff) (db_rows db))),
            db\<lparr>db_rows := retain (\<lambda>r. \<not> sint (row_last_activity r) < sint cutoff) (db_rows db)\<rparr>))"

section \<open>The layer implements the room store\<close>

definition db_view :: "database \<Rightarrow> string \<Rightarrow> (i64 \<times> string option) option" where
  "db_view db rid = map_option (\<lambda>r. (row_last_activity r, row_password_hash r)) (map_of (db_rows db) rid)"

definition db_inv :: "database \<Rightarrow> bool" where
  "db_inv db \<longleftrightarrow> distinct (keys (db_rows db))"

lemma distinct_AList_update: "distinct (keys m) \<Longrightarrow> distinct (keys (AList.update k v m))"
  by (rule distinct_update)

lemma keys_filter_iff:
  "distinct (keys m) \<Longrightarrow>
   k \<in> set (map fst (filter (\<lambda>kr. P (snd kr)) m)) \<longleftrightarrow> (\<exists>r. map_of m k = Some r \<and> P r)"
  by (force simp: image_iff)

interpretation store: room_store db_view db_inv now_timestamp create_room_with_password update_activity
    delete_inactive_rooms room_password room_exists
proof unfold_locales
  fix s s' :: database and c rid h
  assume "db_inv s" "create_room_with_password c rid h s = (Inr (), s')"
  then show "db_inv s' \<and> db_view s rid = None \<and> db_view s' = (db_view s)(rid \<mapsto> (now_timestamp c, h))"
    by (cases "map_of (db_rows s) rid")
      (auto simp: create_room_with_password_def Let_def db_inv_def db_view_def fun_eq_iff
        update_conv' distinct_update split: if_splits)
next
  fix s s' :: database and c rid
  assume "db_inv s" "update_activity c rid s = (Inr (), s')"
  then show "db_inv s' \<and> db_view s' = (case db_view s rid of None \<Rightarrow> db_view s
      | Some v \<Rightarrow> (db_view s)(rid \<mapsto> (now_timestamp c, snd v)))"
    by (cases "map_of (db_rows s) rid")
      (auto simp: update_activity_def Let_def db_inv_def db_view_def fun_eq_iff
        update_conv' distinct_update simp del: map_of_eq_Some_iff split: if_splits)
next
  fix s s' :: database and c t ids
  assume inv: "db_inv s" and ok: "delete_inactive_rooms c t s = (Inr ids, s')"
  let ?old = "\<lambda>r. sint (row_last_activity r) < sint (now_timestamp c - t)"
  have s': "ids = map fst (filter (\<lambda>kr. ?old (snd kr)) (db_rows s))"
    "db_rows s' = retain (\<lambda>r. \<not> ?old r) (db_rows s)"
    using ok by (auto simp: delete_inactive_rooms_def Let_def split: if_splits)
  have ids: "rid \<in> set ids \<longleftrightarrow> (\<exists>r. map_of (db_rows s) rid = Some r \<and> ?old r)" for rid
    using keys_filter_iff [of "db_rows s" rid ?old] inv unfolding s' db_inv_def by blast
  have "db_inv s'" "distinct ids"
    using inv unfolding db_inv_def s' by (auto simp: distinct_map_filter)
  moreover have "db_view s' = db_view s |` (- set ids)"
  proof
    fix rid
    show "db_view s' rid = (db_view s |` (- set ids)) rid"
      using ids [of rid] inv
      by (cases "map_of (db_rows s) rid")
        (auto simp: db_view_def s'(2) db_inv_def map_of_retain restrict_map_def simp del: map_of_eq_Some_iff)
  qed
  moreover have "rid \<in> set ids \<longleftrightarrow>
      (\<exists>v. db_view s rid = Some v \<and> sint (fst v) < sint (now_timestamp c - t))" for rid
    using ids [of rid] by (auto simp: db_view_def)
  ultimately show "db_inv s' \<and> distinct ids \<and> db_view s' = db_view s |` (- set ids)
      \<and> (\<forall>rid. rid \<in> set ids \<longleftrightarrow>
            (\<exists>v. db_view s rid = Some v \<and> sint (fst v) < sint (now_timestamp c - t)))"
    by blast
qed (auto simp: create_room_with_password_def update_activity_def delete_inactive_rooms_def
    room_password_def room_exists_def db_view_def Let_def option.map_comp comp_def split: if_splits)

section \<open>Histories of calls\<close>

datatype db_op =
    DbCreate db_call string "string option"
  | DbTouch db_call string
  | DbPurge db_call i64

text \<open>The ids a history deletes, and the database it ends in.\<close>

fun run_db :: "db_op list \<Rightarrow> database \<Rightarrow> string list \<times> database" where
  "run_db [] db = ([], db)"
| "run_db (DbCreate c rid h # ops) db = run_db ops (snd (create_room_with_password c rid h db))"
| "run_db (DbTouch c rid # ops) db = run_db ops (snd (update_activity c rid db))"
| "run_db (DbPurge c t # ops) db =
     (case delete_inactive_rooms c t db of (r, db') \<Rightarrow>
        (case run_db ops db' of (gone, db'') \<Rightarrow> ((case r of Inl _ \<Rightarrow> [] | Inr ids \<Rightarrow> ids) @ gone, db'')))"

lemma run_db_inv [inv_intros]: "db_inv db \<Longrightarrow> db_inv (snd (run_db ops db))"
proof (induction ops db rule: run_db.induct)
  case (4 c t ops db)
  then show ?case
    using store.inv_purge [of db c t] by (auto split: prod.splits)
qed (simp_all add: store.inv_create store.inv_touch)

lemma run_db_password:
  assumes "db_inv db" "store.password db rid = Some h" "rid \<notin> set (fst (run_db ops db))"
  shows "store.password (snd (run_db ops db)) rid = Some h"
  using assms
proof (induction ops db rule: run_db.induct)
  case (4 c t ops db)
  obtain r db' where r: "delete_inactive_rooms c t db = (r, db')" by fastforce
  have "\<forall>ids. fst (delete_inactive_rooms c t db) = Inr ids \<longrightarrow> rid \<notin> set ids"
    using "4.prems" by (auto simp: r split: prod.splits)
  then have "store.password db' rid = Some h" "db_inv db'"
    using store.purge_keeps [of db c t rid] store.inv_purge [of db c t] "4.prems" by (auto simp: r)
  then show ?case
    using "4.IH" [OF r [symmetric]] "4.prems" by (auto simp: r split: prod.splits)
qed (auto simp: store.inv_create store.inv_touch store.create_keeps store.touch_keeps)

text \<open>
  C29. The password of a room never changes while the room exists: whatever calls succeed or fail in
  between (creations with the same id, activity updates, purges), as long as no purge reports the room
  deleted, a later lookup gives the hash, or the absence of one, that an earlier lookup gave. In
  particular no request can turn a protected room into an open one.
\<close>

theorem room_password_immutable:
  assumes "db_inv db" "room_password c rid db = Inr (Some h)"
    and "rid \<notin> set (fst (run_db ops db))"
    and "room_password c' rid (snd (run_db ops db)) = Inr r"
  shows "r = Some h"
  using run_db_password [OF assms(1) store.lookup_password [OF assms(2), symmetric] assms(3)]
    store.lookup_password [OF assms(4)] by simp

definition sample_call :: "u64 \<Rightarrow> db_call" where
  "sample_call t = \<lparr>call_ok = True, call_clock = t\<rparr>"

definition sample_database :: database where
  "sample_database = \<lparr>db_columns = Some [''id'', ''created_at'', ''last_activity'', ''password_hash''],
     db_rows = [(''a'', \<lparr>row_created_at = 10, row_last_activity = 10, row_password_hash = Some ''h''\<rparr>),
                (''b'', \<lparr>row_created_at = 10, row_last_activity = 90, row_password_hash = None\<rparr>)]\<rparr>"

definition sample_history :: "db_op list" where
  "sample_history = [DbCreate (sample_call 20) ''a'' None, DbTouch (sample_call 95) ''a'',
     DbPurge (sample_call 100) 8]"

theorem room_password_immutable_witness:
  "fst (run_db sample_history sample_database) = [''b'']
   \<and> room_password (sample_call 101) ''a'' (snd (run_db sample_history sample_database)) = Inr (Some (Some ''h''))"
proof -
  have 1: "fst (run_db sample_history sample_database) = [''b'']" by code_simp
  have 2: "db_inv sample_database" by code_simp
  have 3: "room_password (sample_call 9) ''a'' sample_database = Inr (Some (Some ''h''))" by code_simp
  obtain r where r: "room_password (sample_call 101) ''a'' (snd (run_db sample_history sample_database)) = Inr r"
    by (rule that) code_simp
  show ?thesis
    using room_password_immutable [OF 2 3 _ r] 1 r by simp
qed

section \<open>What a purge deletes\<close>

lemma sint_small: "uint w < 2 ^ 63 \<Longrightarrow> sint (w :: 64 word) = uint w"
  by (simp add: sint_uint signed_take_bit_int_eq_self_iff order_trans [of _ 0])

lemma sint_cutoff:
  assumes "0 \<le> sint t" "uint (call_clock c) < 2 ^ 63"
  shows "sint (now_timestamp c - t) = uint (call_clock c) - sint t"
proof -
  have "sint t < 2 ^ 63" "0 \<le> uint (call_clock c)" using sint_lt [of t] by simp_all
  then have "signed_take_bit 63 (uint (call_clock c) - sint t) = uint (call_clock c) - sint t"
    using assms by (intro signed_take_bit_int_eq_self) linarith+
  then show ?thesis
    using assms by (simp add: sint_word_diff now_timestamp_def sint_small)
qed

text \<open>
  A successful purge deletes exactly the rooms whose last activity is more than the threshold
  before now, reports exactly those ids, each once, and leaves every other row as it was. The threshold
  is not negative and the clock is below \<open>2 ^ 63\<close> seconds, so the subtraction does not wrap.
\<close>

lemma delete_inactive_exact:
  assumes "db_inv db" "delete_inactive_rooms c t db = (Inr ids, db')"
    and "0 \<le> sint t" "uint (call_clock c) < 2 ^ 63"
  shows "distinct ids
    \<and> set ids = {rid. \<exists>row. map_of (db_rows db) rid = Some row
                        \<and> sint (row_last_activity row) + sint t < uint (call_clock c)}
    \<and> map_of (db_rows db') = map_of (db_rows db) |` (- set ids)"
proof (intro conjI)
  note ok = store.purge_ok [OF assms(1,2)]
  show "distinct ids" using ok by blast
  show ids: "set ids = {rid. \<exists>row. map_of (db_rows db) rid = Some row
                        \<and> sint (row_last_activity row) + sint t < uint (call_clock c)}"
    using ok by (auto simp: db_view_def sint_cutoff [OF assms(3,4)] set_eq_iff)
  show "map_of (db_rows db') = map_of (db_rows db) |` (- set ids)"
  proof
    fix rid
    have "db_rows db' = retain (\<lambda>r. \<not> sint (row_last_activity r) < uint (call_clock c) - sint t) (db_rows db)"
      using assms(2) by (auto simp: delete_inactive_rooms_def Let_def sint_cutoff [OF assms(3,4)] split: if_splits)
    then show "map_of (db_rows db') rid = (map_of (db_rows db) |` (- set ids)) rid"
      using assms(1) by (cases "map_of (db_rows db) rid")
        (auto simp: ids map_of_retain db_inv_def restrict_map_def simp del: map_of_eq_Some_iff)
  qed
qed

section \<open>The migration\<close>

text \<open>
  The databases a deployment can start from: new, or with a table of either schema (the older one has
  no password hashes).
\<close>

definition db_wf :: "database \<Rightarrow> bool" where
  "db_wf db \<longleftrightarrow>
     (case db_columns db of
        None \<Rightarrow> db_rows db = []
      | Some cs \<Rightarrow> list_all (\<lambda>c. c \<in> set cs) [''id'', ''created_at'', ''last_activity'']
          \<and> (''password_hash'' \<in> set cs \<or> list_all (\<lambda>kr. row_password_hash (snd kr) = None) (db_rows db)))"

lemma count_password_hash_0: "count_password_hash db = 0 \<longleftrightarrow> \<not> has_columns db [''password_hash'']"
  by (auto simp: count_password_hash_def has_columns_def filter_empty_conv split: option.splits)

lemma no_hashes_unchanged:
  "list_all (\<lambda>kr. row_password_hash (snd kr) = None) rows \<Longrightarrow>
   map (\<lambda>(rid, r). (rid, r\<lparr>row_password_hash := None\<rparr>)) rows = rows"
  by (induction rows) auto

lemma run_migrations_fail: "run_migrations fail_at db = (Inl e, db') \<Longrightarrow> db' = db"
  by (auto simp: run_migrations_def Let_def split: if_splits)

lemma run_migrations_ok:
  assumes "db_wf db" "run_migrations fail_at db = (Inr (), db')"
  shows "db_rows db' = db_rows db"
    and "has_columns db' [''id'', ''created_at'', ''last_activity'', ''password_hash'']"
    and "run_migrations None db' = (Inr (), db')"
proof -
  let ?d1 = "create_table_if_not_exists db"
  have d1: "db_rows ?d1 = db_rows db" "has_columns ?d1 [''id'', ''created_at'', ''last_activity'']"
      "create_table_if_not_exists db' = db'"
      "has_columns ?d1 [''password_hash''] \<or> list_all (\<lambda>kr. row_password_hash (snd kr) = None) (db_rows db)"
    using assms
    by (auto simp: db_wf_def create_table_if_not_exists_def has_columns_def run_migrations_def Let_def
        add_password_hash_def split: option.splits if_splits)
  have db': "db' = (if has_columns ?d1 [''password_hash''] then ?d1 else add_password_hash ?d1)"
    using assms(2) by (auto simp: run_migrations_def Let_def count_password_hash_0 split: if_splits)
  show rows: "db_rows db' = db_rows db"
    using d1 by (auto simp: db' add_password_hash_def no_hashes_unchanged)
  show cols: "has_columns db' [''id'', ''created_at'', ''last_activity'', ''password_hash'']"
    using d1(2) unfolding db' by (auto simp: has_columns_def add_password_hash_def split: option.splits)
  then have "has_columns db' [''password_hash'']" by (auto simp: has_columns_def split: option.splits)
  then show "run_migrations None db' = (Inr (), db')"
    using d1(3) by (simp add: run_migrations_def Let_def count_password_hash_0)
qed

text \<open>
  C31. The migration is atomic and idempotent and loses nothing: from any database of either schema, a
  failure at any statement leaves the database as it was; success keeps every row, gives the table all
  the columns the queries use, and running the migration again changes nothing.
\<close>

theorem migration_safe:
  assumes "db_wf db" "run_migrations fail_at db = (r, db')"
  shows "case r of
      Inl _ \<Rightarrow> db' = db
    | Inr _ \<Rightarrow> db_rows db' = db_rows db
        \<and> has_columns db' [''id'', ''created_at'', ''last_activity'', ''password_hash'']
        \<and> db_wf db' \<and> run_migrations None db' = (Inr (), db')"
proof (cases r)
  case (Inl e)
  then show ?thesis using assms(2) run_migrations_fail by simp
next
  case (Inr u)
  then have "run_migrations fail_at db = (Inr (), db')" using assms(2) by simp
  note ok = run_migrations_ok [OF assms(1) this]
  then have "db_wf db'" by (auto simp: db_wf_def has_columns_def split: option.splits)
  then show ?thesis using Inr ok by simp
qed

definition old_database :: database where
  "old_database = \<lparr>db_columns = Some [''id'', ''created_at'', ''last_activity''],
     db_rows = [(''a'', \<lparr>row_created_at = 10, row_last_activity = 10, row_password_hash = None\<rparr>)]\<rparr>"

theorem migration_safe_witness:
  "db_rows (snd (run_migrations None old_database)) = db_rows old_database
   \<and> snd (run_migrations (Some 3) old_database) = old_database"
proof -
  have wf: "db_wf old_database" by code_simp
  obtain d1 where d1: "run_migrations None old_database = (Inr (), d1)"
    by (rule that) (simp add: run_migrations_def Let_def)
  obtain d2 where d2: "run_migrations (Some 3) old_database = (Inl Backend, d2)"
    by (rule that) (simp add: run_migrations_def Let_def old_database_def count_password_hash_def
        create_table_if_not_exists_def)
  show ?thesis
    using migration_safe [OF wf d1] migration_safe [OF wf d2] by (simp add: d1 d2)
qed

end
