(* ===== verification/Config.thy ===== *)
theory Config
imports RustStd
begin

text \<open>
  The configuration of \<open>src/config.rs\<close>: \<open>Config\<close>, \<open>from_env\<close> with every default, every silent
  fallback and every panic, and \<open>inactivity_expiry_secs\<close> at the width of its integers. The URI and
  header-value parsers of the \<open>http\<close> crate are parameters; the parsers of the standard library are
  those of \<open>RustStd\<close>. Arithmetic wraps, as in the release build the deployment uses.
\<close>

section \<open>Data\<close>

record config =
  cfg_database_url :: string
  cfg_port :: u16
  cfg_bind_address :: ip_addr
  cfg_allowed_origins :: "string list"
  cfg_trusted_proxies :: "ip_addr list"
  cfg_inactivity_expiry_hours :: u64
  cfg_cleanup_interval_mins :: u64

text \<open>What the code reads of an \<open>http::Uri\<close>.\<close>

record http_uri =
  uri_scheme :: "string option"
  uri_authority :: "string option"
  uri_path :: string
  uri_query :: "string option"

text \<open>The functions of the \<open>http\<close> crate: \<open>Uri\<close> and \<open>HeaderValue\<close> parsing, and \<open>HeaderValue::to_str\<close>.\<close>

record http_lib =
  lib_parse_uri :: "string \<Rightarrow> http_uri option"
  lib_header_value_ok :: "string \<Rightarrow> bool"
  lib_header_to_str :: "string \<Rightarrow> string option"

section \<open>Reading the environment\<close>

text \<open>An environment maps the names to values, \<open>None\<close> when unset or not Unicode.\<close>

type_synonym environment = "string \<Rightarrow> string option"

definition unwrap_or :: "'a option \<Rightarrow> 'a \<Rightarrow> 'a" where
  "unwrap_or x d = (case x of Some y \<Rightarrow> y | None \<Rightarrow> d)"

definition origin_ok :: "http_lib \<Rightarrow> string \<Rightarrow> bool" where
  "origin_ok lib s =
     (case lib_parse_uri lib s of
        None \<Rightarrow> False
      | Some uri \<Rightarrow>
          (uri_scheme uri = Some ''https'' \<or> uri_scheme uri = Some ''http'')
          \<and> (case uri_authority uri of Some a \<Rightarrow> CHR ''@'' \<notin> set a | None \<Rightarrow> False)
          \<and> uri_path uri = ''/''
          \<and> uri_query uri = None
          \<and> \<not> ends_with s ''/''
          \<and> lib_header_value_ok lib s)"

fun collect_options :: "'a option list \<Rightarrow> 'a list option" where
  "collect_options [] = Some []"
| "collect_options (x # xs) =
     (case x of None \<Rightarrow> None | Some y \<Rightarrow> map_option (\<lambda>ys. y # ys) (collect_options xs))"

definition allowed_origins_of :: "environment \<Rightarrow> string list" where
  "allowed_origins_of env =
     map trim (split_on CHR '','' (unwrap_or (env ''ALLOWED_ORIGINS'') ''https://parrhesia.chat''))"

definition trusted_proxy_entries :: "environment \<Rightarrow> string list" where
  "trusted_proxy_entries env =
     filter (\<lambda>s. trim s \<noteq> []) (split_on CHR '','' (unwrap_or (env ''TRUSTED_PROXY_IPS'') ''''))"

text \<open>\<open>env::var(k).ok().and_then(|v| v.parse().ok()).unwrap_or(d)\<close>\<close>

definition env_number :: "environment \<Rightarrow> string \<Rightarrow> nat \<Rightarrow> int \<Rightarrow> int" where
  "env_number env k w d =
     unwrap_or (case env k of Some v \<Rightarrow> parse_uint w v | None \<Rightarrow> None) d"

text \<open>\<open>None\<close> is the panic of \<open>assert!\<close> or \<open>expect\<close>.\<close>

definition from_env :: "http_lib \<Rightarrow> environment \<Rightarrow> config option" where
  "from_env lib env =
     (let origins = allowed_origins_of env in
      if origins = [] \<or> \<not> list_all (origin_ok lib) origins then None
      else case parse_ip (unwrap_or (env ''BIND_ADDRESS'') ''127.0.0.1'') of
        None \<Rightarrow> None
      | Some bind \<Rightarrow>
          (case collect_options (map (\<lambda>s. parse_ip (trim s)) (trusted_proxy_entries env)) of
             None \<Rightarrow> None
           | Some proxies \<Rightarrow>
               Some \<lparr>cfg_database_url = unwrap_or (env ''DATABASE_URL'') ''sqlite:./parrhesia.db?mode=rwc'',
                     cfg_port = word_of_int (env_number env ''PORT'' 16 3000),
                     cfg_bind_address = bind,
                     cfg_allowed_origins = origins,
                     cfg_trusted_proxies = proxies,
                     cfg_inactivity_expiry_hours = word_of_int (env_number env ''INACTIVITY_EXPIRY_HOURS'' 64 24),
                     cfg_cleanup_interval_mins = word_of_int (env_number env ''CLEANUP_INTERVAL_MINS'' 64 5)\<rparr>))"

definition inactivity_expiry_secs :: "config \<Rightarrow> i64" where
  "inactivity_expiry_secs cfg = cfg_inactivity_expiry_hours cfg * 3600"

section \<open>What start-up accepts\<close>

lemma collect_options_iff: "collect_options xs = Some ys \<longleftrightarrow> xs = map Some ys"
  by (induction xs arbitrary: ys) (auto split: option.splits)

lemma collect_options_None:
  "collect_options (map f xs) = None \<longleftrightarrow> (\<exists>x \<in> set xs. f x = None)"
  by (induction xs) (auto split: option.splits)

lemma allowed_origins_nonempty [simp]: "allowed_origins_of env \<noteq> []"
  by (simp add: allowed_origins_of_def)

lemma from_env_None [op_simps]:
  "from_env lib env = None \<longleftrightarrow>
     (\<exists>s \<in> set (allowed_origins_of env). \<not> origin_ok lib s)
     \<or> parse_ip (unwrap_or (env ''BIND_ADDRESS'') ''127.0.0.1'') = None
     \<or> (\<exists>s \<in> set (trusted_proxy_entries env). parse_ip (trim s) = None)"
  unfolding collect_options_None [symmetric]
  by (auto simp: from_env_def Let_def list_all_iff split: option.splits)

lemma from_env_Some:
  assumes "from_env lib env = Some cfg"
  shows "cfg_allowed_origins cfg = allowed_origins_of env"
    and "\<forall>s \<in> set (cfg_allowed_origins cfg). origin_ok lib s"
    and "map Some (cfg_trusted_proxies cfg) = map (\<lambda>s. parse_ip (trim s)) (trusted_proxy_entries env)"
    and "parse_ip (unwrap_or (env ''BIND_ADDRESS'') ''127.0.0.1'') = Some (cfg_bind_address cfg)"
    and "uint (cfg_port cfg) = env_number env ''PORT'' 16 3000"
    and "uint (cfg_inactivity_expiry_hours cfg) = env_number env ''INACTIVITY_EXPIRY_HOURS'' 64 24"
    and "uint (cfg_cleanup_interval_mins cfg) = env_number env ''CLEANUP_INTERVAL_MINS'' 64 5"
proof -
  have num: "0 \<le> env_number env k w d \<and> env_number env k w d < 2 ^ w"
    if "0 \<le> d" "d < 2 ^ w" for k w d
    using that parse_uint_range [of w] by (auto simp: env_number_def unwrap_or_def split: option.splits)
  show "cfg_allowed_origins cfg = allowed_origins_of env"
    "\<forall>s \<in> set (cfg_allowed_origins cfg). origin_ok lib s"
    "map Some (cfg_trusted_proxies cfg) = map (\<lambda>s. parse_ip (trim s)) (trusted_proxy_entries env)"
    "parse_ip (unwrap_or (env ''BIND_ADDRESS'') ''127.0.0.1'') = Some (cfg_bind_address cfg)"
    using assms by (auto simp: from_env_def Let_def list_all_iff collect_options_iff
        split: option.splits if_splits)
  show "uint (cfg_port cfg) = env_number env ''PORT'' 16 3000"
    "uint (cfg_inactivity_expiry_hours cfg) = env_number env ''INACTIVITY_EXPIRY_HOURS'' 64 24"
    "uint (cfg_cleanup_interval_mins cfg) = env_number env ''CLEANUP_INTERVAL_MINS'' 64 5"
    using assms num [of 3000 16 "''PORT''"] num [of 24 64 "''INACTIVITY_EXPIRY_HOURS''"]
      num [of 5 64 "''CLEANUP_INTERVAL_MINS''"]
    by (auto simp: from_env_def Let_def uint_word_of_int take_bit_int_eq_self
        split: option.splits if_splits)
qed

text \<open>
  Start-up is fail-closed: the configuration is built if and only if every comma-separated entry
  of \<open>ALLOWED_ORIGINS\<close> is an exact http(s) origin, \<open>BIND_ADDRESS\<close> is an IP address and every
  non-blank entry of \<open>TRUSTED_PROXY_IPS\<close> is one; no bad entry is ever skipped, and the lists in the
  configuration are exactly the entries, in order.
\<close>

lemma from_env_fail_closed:
  "(from_env lib env \<noteq> None \<longleftrightarrow>
      list_all (origin_ok lib) (allowed_origins_of env)
      \<and> parse_ip (unwrap_or (env ''BIND_ADDRESS'') ''127.0.0.1'') \<noteq> None
      \<and> list_all (\<lambda>s. parse_ip (trim s) \<noteq> None) (trusted_proxy_entries env))
   \<and> (case from_env lib env of None \<Rightarrow> True
      | Some cfg \<Rightarrow> cfg_allowed_origins cfg = allowed_origins_of env
          \<and> map Some (cfg_trusted_proxies cfg) = map (\<lambda>s. parse_ip (trim s)) (trusted_proxy_entries env))"
  using from_env_None [of lib env] from_env_Some [of lib env]
  by (auto simp: list_all_iff split: option.splits)

section \<open>The expiry period\<close>

lemma inactivity_expiry_exact:
  assumes "uint (cfg_inactivity_expiry_hours cfg) \<le> 2562047788015215"
  shows "sint (inactivity_expiry_secs cfg) = 3600 * uint (cfg_inactivity_expiry_hours cfg)"
proof -
  have "uint (cfg_inactivity_expiry_hours cfg * 3600) = 3600 * uint (cfg_inactivity_expiry_hours cfg)"
    using assms by (simp add: uint_word_ariths mult.commute)
  moreover have "signed_take_bit 63 (3600 * uint (cfg_inactivity_expiry_hours cfg))
      = 3600 * uint (cfg_inactivity_expiry_hours cfg)"
    using assms by (intro signed_take_bit_int_eq_self) (auto intro: order_trans [of _ 0])
  ultimately show ?thesis
    by (simp add: inactivity_expiry_secs_def sint_uint)
qed

text \<open>Beyond that bound the product wraps: a huge period becomes short, or negative.\<close>

lemma inactivity_expiry_wraps:
  "sint (inactivity_expiry_secs (cfg\<lparr>cfg_inactivity_expiry_hours := 5124095576030432\<rparr>)) = 3584"
  "sint (inactivity_expiry_secs (cfg\<lparr>cfg_inactivity_expiry_hours := 3843071682022824\<rparr>)) = - 4611686018427385216"
  by (simp_all add: inactivity_expiry_secs_def)

end
