(* ===== verification/Blocklist.thy ===== *)
theory Blocklist
imports RustStd
begin

text \<open>
  The blocklist \<open>data/common-passwords.txt\<close> that \<open>src/passwords.rs\<close> compiles in: its lines, the file
  they make up, and what holds of every entry. That the lines of the file are the entries is proved,
  so a look-up in the set the code builds is a look-up in this list.
\<close>

definition ascii_passwords :: "string list" where
  "ascii_passwords = [
    ''$HEX[687474703a2f2f616473]'', ''$HEX[687474703a2f2f777777]'', ''000000000000000'',
    ''00000000000000000000'', ''010203040506070809'', ''102030405060708090'', ''111111111111111'',
    ''11111111111111111111'', ''111111prof_root2.sql.txt:,'', ''111111prof_root3.sql.txt:,'',
    ''111222333444555'', ''1122334455667788'', ''112233445566778899'', ''11223344556677889900'',
    ''1213141516171819'', ''122333444455555'', ''123123123123123'', ''123451234512345'',
    ''1234567812345678'', ''1234567887654321'', ''12345678900987654321'', ''123456789012345'',
    ''1234567890123456'', ''12345678901234567890'', ''1234567890987654321'', ''1234567890qwert'',
    ''1234567890qwerty'', ''1234567890qwertyuiop'', ''123456789101112'', ''123456789123456'',
    ''1234567891234567'', ''123456789123456789'', ''12345678987654321'', ''123456789987654'',
    ''1234567899876543'', ''123456789987654321'', ''123456789qwerty'', ''123456789qwertyuio'',
    ''123456789qwertyuiop'', ''123456789zxcvbnm'', ''12345678qwertyui'', ''123456prof_root2.sql.txt:,'',
    ''123456prof_root3.sql.txt:,'', ''12345qwertasdfg'', ''1234qwerasdfzxcv'', ''1324354657687980'',
    ''1q2w3e4r5t6y7u8'', ''1q2w3e4r5t6y7u8i'', ''1q2w3e4r5t6y7u8i9o'', ''1q2w3e4r5t6y7u8i9o0p'',
    ''1qa2ws3ed4rf5tg'', ''1qaz2wsx3edc4rfv'', ''1qaz2wsx3edc4rfv5tgb'', ''1qazxsw23edcvfr4'',
    ''30secondstomars'', ''5.254.105.20:test'', ''5.254.105.20:test1'', ''555555555555555'',
    ''6666666666EMPULGARA'', ''79621601378.kirill'', ''827ccb0eea8a706c4c'', ''9121318barssuki'',
    ''987654321123456789'', ''???????????????'', ''@elit-centr.com.ua'', ''ABUSE_123456_ABUSE'',
    ''BLCKD_SA_UNPAIDFEE_OCT06'', ''DRM199019902323'', ''Doomsayer.2.7mords.V'', ''Doomsayer.2.7mords.VV'',
    ''Hd764nW5d7E1vb1'', ''Lightpower12345'', ''Neworleans12345'', ''PolniyPizdec0211'',
    ''PolniyPizdec1102'', ''PolniyPizdec110211'', ''Somanypickles27'', ''Stefangreil1983'',
    ''TravelmoleOptin'', ''YeGbpltw2012LOl'', ''YfDbUfNjH10305070'', ''aaaaaaaaaaaaaaa'',
    ''aaaaaaaaaaaaaaaa'', ''aleksandr.ustinov.2012'', ''aleksej.shorin.86'', ''alena_plotnikova_1995'',
    ''aliya.mutallapova'', ''andrey.shalanov'', ''andreyka.gorshkov.98'', ''andreyka.zhilin.1981'',
    ''anna.savickaya.1986'', ''antsiferova1973'', ''antusenok_zhekonya'', ''apalkova.tatiana'',
    ''aqwleeb_6e0pk59'', ''arina-sharapova-80'', ''arividerchi_shatalov'', ''armyach-aleksandra'',
    ''arsik-di-noxcho95'', ''asdfghjkl:&#39:'', ''asdfghjkl;&#39;'', ''asdfghjklzxcvbnm'',
    ''asil.dovlatov.1982'', ''avengedsevenfold'', ''azefirov.inno1987.r'', ''bad_boys_adience'',
    ''bakuman.manga.drawing'', ''beloved_a_devil'', ''blackangel09021'', ''californication'',
    ''ceckbrcerfkbxyjcnm2'', ''cod12qw75RqYi59n'', ''constance626boilard1987'', ''cristianoronaldo'',
    ''d1bd6bc58c1d74df41a957489c9942f5'', ''d41d8cd98f00b204e980'', ''damira.shagabutdinova'',
    ''default_password'', ''demon1q2w3e4r5t'', ''denis_nazarenko'', ''dimulya.vasilenko'',
    ''dmitrij.mironov2014'', ''dovbeshkosushova.1972'', ''e10adc3949ba59abbe56'', ''eTravelmoleOptin'',
    ''eremei_vasechkin'', ''evgenii-shenderovich'', ''familiyafamiliya'', ''fiammalex1@hotmail.it'',
    ''fjodorova-natashenka'', ''friendofArriane'', ''friendofEarning$1'', ''friendofEveryEmailyouproc'',
    ''friendofThenext18peoplew'', ''friendofYOUCANMAKE$200-'', ''gadjieva.gulmira'', ''galatasaray1905'',
    ''galina-davidyuk'', ''galinka_korneeva'', ''gayASSfagpastebinleaks'', ''goderdzikarxjxv'',
    ''golovizina_elena'', ''guldaniya.galina'', ''gygypyfyyyposhy'', ''hallucinationse'',
    ''hd764nw5d7e1vb1'', ''hermina617berno1990f6i'', ''holidaysecure123'', ''holidaysecure123$'',
    ''htt//members.cumfiesta.com/'', ''hugo854lataille1988'', ''ignatova_1978_09'',
    ''ijfrnhf7yhcy54bhy0cd'', ''inactive1996Aug'', ''ivankaterinchenko'', ''jafjkshf7y6w34rjd'',
    ''john!20130605at1753'', ''julia_eduardovna'', ''juliadronina1996'', ''kamazist.tsobenko'',
    ''kartoffelpuffer'', ''kikugalanetroot'', ''kinyabuzova.eleonora'', ''kirienko_svetlana'',
    ''kirik26trimyasov'', ''kirill.kirillov.2013'', ''korostelev_3333'', ''kotovichvalentina'',
    ''ksyusha.kulagina.91'', ''kudryavcevavalya'', ''kurmangazieva_gulmira'', ''kuznecovviktorr'',
    ''lady.procenko71'', ''len_rin_kagamine_02'', ''lexaafanasiev84'', ''lhbjkjubz2957704'',
    ''linkedinlinkedin'', ''linkedinpassword'', ''listopad.iuliia'', ''macegorova.mariya'',
    ''maitland571ka1994'', ''maks.abramov.99.99'', ''maksim.bychkov.1986'', ''maksimilian_nasirov'',
    ''malhotra493ozzy1991282151'', ''manchesterunited'', ''mandds1mg6bv8re'', ''maria-demidchik'',
    ''mariagoncharenko'', ''marina.shapovalo'', ''marina.ushakovaznuv'', ''marina_stryazhkova'',
    ''marinadeduxinaa'', ''marinaorlova1991'', ''marinochka.zhelannaya'', ''masloboinikova1987'',
    ''maximova_elena77'', ''migrationsandeep'', ''migrationschool'', ''mihail_alekseevskiy406'',
    ''mihailpezhemskii'', ''milankasanakoeva'', ''mirellabroersma1987570'', ''miss-evgeniya-93'',
    ''miss.marina.nikolaeva.2013'', ''mknaxhxeh8yp3tf'', ''morozovavalya28'', ''mozellbranou81e'',
    ''mutalim.gusenov'', ''mychemicalromance'', ''narashchivaiunoghti'', ''nastyaanciferova'',
    ''natalya.dmitrieva.1978'', ''nati.beridze.92'', ''never_desponding'', ''nikolay_thebest'',
    ''oksanaorgadykova'', ''olesya.kolchina'', ''olga.kazakova_85'', ''olga.ponomarenko.2012'',
    ''olga.rumyanceva.1985'', ''olgha.pietrova.1979'', ''password1234567'', ''password12345678'',
    ''password123456789'', ''passwordpassword'', ''pletnevakaterina'', ''polniypizdec0211'',
    ''professionaltools'', ''prosto_chelkynchik'', ''q1w2e3r4t5y6u7i8'', ''q1w2e3r4t5y6u7i8o9'',
    ''q1w2e3r4t5y6u7i8o9p0'', ''qazwsxedcrfvtgb'', ''qwertasdfgzxcvb'', ''qwerty123456789'',
    ''qwerty1234567890'', ''qwertyuiop12345'', ''qwertyuiop123456'', ''qwertyuiop123456789'',
    ''qwertyuiop1234567890'', ''qwertyuiopasdfg'', ''qwertyuiopasdfghjkl'', ''qwertyuiopasdfghjkl151515'',
    ''qwertyuiopasdfghjklzxcvbnm'', ''r6a50de3ujwtog4'', ''rachelle289ariyoshi5251987'',
    ''rashaun966krager1993'', ''raymonde336schwegel7331987'', ''regawf7ss1dm7rn'', ''rendakova_sveta'',
    ''riwr2hky4w3tjgg'', ''rkamkin.karoli1988mp'', ''romanova.natalya.96'', ''rtertuy77ijyhu7i'',
    ''sataieva.elinka'', ''sdf7asdf6asdg8df'', ''sdf7asdf6asdg8df1'', ''sergeevna_10.10.91'',
    ''sergey-personal'', ''sergey.lushnikoff'', ''sergey.melnik-1996'', ''sergio-emperior'',
    ''shakmakovataisiya1992'', ''shaquillesecx10'', ''sharmaine005foskett6071988'', ''shea019bernabei1992'',
    ''sheba417yorck1986vxm7'', ''shukurova-ismigu'', ''siiifonjiknalivai'', ''silakova.nadezhda.2012'',
    ''simonova_lyudmila_73'', ''simonovskiy1970'', ''sirazhdinov.shamil'', ''slava_kulbidyuk'',
    ''sofya.kulikova.87'', ''soloveibormalei'', ''sorokina-999-01'', ''spiridonmarkin1982'',
    ''spring938burston0001990'', ''srcuqq1_2j1h3rbf'', ''stalker_lemurrr'', ''stas.gorodissky'',
    ''stas_the_best.ru'', ''stepanov_georgij'', ''sulamifcherenchikova1979'', ''svetik_kryuchkov'',
    ''svetlana-mironova-13'', ''tagesgruppe2010'', ''thisismypassword'', ''vadyusha.isaev.83'',
    ''valentina.victoria'', ''valya-valya-1982'', ''valya.klimenko.87'', ''valya.korobeynik'',
    ''valya.kryuchkova.1990'', ''valya.lantux.83'', ''varfolomeeva0990'', ''varida.alibaeva'',
    ''veralipatnikova'', ''victor_evdokimov'', ''victor_sakhalin1990-20'', ''victoria-berkat-energo'',
    ''victoria-dyatlova'', ''victoria392eliezrie1992frp'', ''victoria_shkurco'', ''vika.krivonos.1995'',
    ''vkovshut_annab1988fg'', ''vks1zz9v_7ceu69'', ''vladcherktecktonik'', ''volfram.kozlov123633'',
    ''volfram.kozlov173902'', ''volgograd.orlovka'', ''volkova.elena.13'', ''volkova.ksyusha.89'',
    ''volodina.elena66'', ''volodya-ivanov-63'', ''volokitina.olga'', ''voroshilova.liliya'',
    ''worldofwarcraft'', ''wwwksenechkawww'', ''yulia-dubrovina'', ''yushinazena2009'', ''zabloczkaya2012'',
    ''zabolotneva_ira'', ''zabolotnova31337'', ''zarina_sabirova'', ''zarinaismailova'',
    ''zxcvbnm123456789'', ''zxcvbnmasdfghjkl'']"

text \<open>The last entry is not ASCII; it is given by its bytes.\<close>

definition last_password :: string where
  "last_password = bytes [208, 191, 209, 151, 208, 133, 208, 191, 209, 151, 208, 133, 208, 191, 209, 151, 208, 133, 208, 191, 209, 151, 208, 133, 208, 191, 209, 151, 208, 133, 208, 191, 209, 151, 208, 133] @ ''@mail.ru''"

definition common_passwords :: "string list" where
  "common_passwords = ascii_passwords @ [last_password]"

text \<open>The file: every entry followed by a newline.\<close>

definition common_passwords_txt :: string where
  "common_passwords_txt = concat (map (\<lambda>l. l @ [CHR 0x0A]) common_passwords)"

text \<open>\<open>BLOCKLIST\<close>: the set of the lines of the file.\<close>

definition blocklist :: "string set" where
  "blocklist = set (lines common_passwords_txt)"

text \<open>Plain text: every byte is ASCII and no control character below the space.\<close>

fun plain_char :: "char \<Rightarrow> bool" where
  "plain_char (Char b0 b1 b2 b3 b4 b5 b6 b7) \<longleftrightarrow> \<not> b7 \<and> (b5 \<or> b6)"

definition printable_ascii :: "string \<Rightarrow> bool" where
  "printable_ascii s = list_all plain_char s"

text \<open>Fifteen characters at least, and at most three times fifteen.\<close>

fun policy_length :: "'a list \<Rightarrow> bool" where
  "policy_length (_ # _ # _ # _ # _ # _ # _ # _ # _ # _ # _ # _ # _ # _ # _ # rest) \<longleftrightarrow> length rest \<le> 30"
| "policy_length _ \<longleftrightarrow> False"

lemma policy_length_bounds: "policy_length l \<Longrightarrow> 15 \<le> length l \<and> length l \<le> 45"
  by (erule policy_length.elims) simp_all

lemma ascii_passwords_checked: "list_all printable_ascii ascii_passwords"
  by code_simp

lemma ascii_passwords_length: "list_all policy_length ascii_passwords"
  by code_simp

lemma last_password_checked: "length last_password = 44" "chars_count last_password = 26"
  by code_simp+

text \<open>A line of a file with Unix line ends.\<close>

definition plain_line :: "string \<Rightarrow> bool" where
  "plain_line l = list_all (\<lambda>c. c \<noteq> CHR 0x0A \<and> c \<noteq> CHR 0x0D) l"

lemma plain_char_newline [simp]: "\<not> plain_char CHR 0x0A" "\<not> plain_char CHR 0x0D"
  by code_simp+

lemma plain_ascii: "printable_ascii l \<Longrightarrow> plain_line l"
  by (auto simp: printable_ascii_def plain_line_def list_all_iff)

lemma plain_last: "plain_line last_password"
  by code_simp

lemma plain_passwords: "\<forall>l \<in> set common_passwords. plain_line l"
  using ascii_passwords_checked plain_last unfolding common_passwords_def list_all_iff
  by (auto intro: plain_ascii)

lemma split_on_line:
  assumes "c \<notin> set l"
  shows "split_on c (l @ c # s) = l # split_on c s"
  using assms by (induction l) auto

lemma split_on_concat:
  assumes "\<forall>l \<in> set ls. c \<notin> set l"
  shows "split_on c (concat (map (\<lambda>l. l @ [c]) ls)) = ls @ [[]]"
  using assms by (induction ls) (auto simp: split_on_line)

lemma lines_concat:
  assumes "\<forall>l \<in> set ls. plain_line l"
  shows "lines (concat (map (\<lambda>l. l @ [CHR 0x0A]) ls)) = ls"
proof -
  have "CHR 0x0A \<notin> set l \<and> strip_cr l = l" if "l \<in> set ls" for l
    using assms that by (fastforce simp: plain_line_def list_all_iff strip_cr_def dest: last_in_set)
  then have "split_on CHR 0x0A (concat (map (\<lambda>l. l @ [CHR 0x0A]) ls)) = ls @ [[]]" "map strip_cr ls = ls"
    by (auto simp: split_on_concat map_idI)
  then show ?thesis by (simp add: lines_def Let_def)
qed

lemma blocklist_eq: "blocklist = set common_passwords"
  using lines_concat [OF plain_passwords] by (simp add: blocklist_def common_passwords_txt_def)

lemma plain_char_start: "plain_char c \<Longrightarrow> \<not> continuation_byte c"
  by (cases c) simp

lemma chars_count_ascii: "printable_ascii s \<Longrightarrow> chars_count s = length s"
  unfolding chars_count_def printable_ascii_def list_all_iff by (simp add: plain_char_start)

lemma blocklist_entry:
  assumes "l \<in> blocklist"
  shows "length l \<le> 1024 \<and> 15 \<le> chars_count l \<and> chars_count l \<le> 256"
proof (cases "l \<in> set ascii_passwords")
  case True
  then have "printable_ascii l" "policy_length l"
    using ascii_passwords_checked ascii_passwords_length by (auto simp: list_all_iff)
  then show ?thesis using policy_length_bounds [of l] by (simp add: chars_count_ascii)
next
  case False
  then have "l = last_password" using assms by (simp add: blocklist_eq common_passwords_def)
  then show ?thesis by (simp add: last_password_checked)
qed

end
