(* ===== verification/Passwords.thy ===== *)
theory Passwords
imports Blocklist GuardPool
begin

text \<open>
  The password service of \<open>src/passwords.rs\<close>: the policy on new passwords, the parameters a stored
  hash must have, the two permits for the memory-hard computations, and \<open>hash\<close> and \<open>verify\<close>. The
  crates \<open>unicode_normalization\<close> and \<open>argon2\<close> are the record \<open>crypto_lib\<close> of their functions. A
  computation is split where the code awaits it: \<open>compute_begin\<close> takes the permit, \<open>compute_end\<close>
  returns it when the blocking job has run, whether or not anyone still waits for the result.
\<close>

section \<open>Data and parameters\<close>

definition memory_kib :: u32 where "memory_kib = 64 * 1024"
definition iterations :: u32 where "iterations = 3"
definition lanes :: u32 where "lanes = 1"
definition output_bytes :: nat where "output_bytes = 32"

datatype password_error = PwInvalid | PwCommon | PwBusy | PwInternal

datatype argon_algorithm = Argon2d | Argon2i | Argon2id
datatype argon_version = V0x10 | V0x13

record argon_params =
  m_cost :: u32
  t_cost :: u32
  p_cost :: u32
  output_len :: "nat option"

record argon_instance =
  arg_algorithm :: argon_algorithm
  arg_version :: argon_version
  arg_params :: argon_params

text \<open>What the code reads of a parsed \<open>PasswordHash\<close>.\<close>

record phc_string =
  phc_algorithm :: string
  phc_version :: "u32 option"
  phc_params :: "(string \<times> string) list"
  phc_salt :: "string option"
  phc_hash :: "string option"

datatype verify_outcome = VerifyOk | VerifyPasswordInvalid | VerifyOther

text \<open>The third-party functions; \<open>lib_hash_password\<close> has the random salt as an argument.\<close>

record crypto_lib =
  lib_nfc :: "string \<Rightarrow> string"
  lib_hash_password :: "argon_instance \<Rightarrow> string \<Rightarrow> string \<Rightarrow> string option"
  lib_parse_phc :: "string \<Rightarrow> phc_string option"
  lib_params :: "phc_string \<Rightarrow> argon_params option"
  lib_verify_password :: "argon_instance \<Rightarrow> string \<Rightarrow> phc_string \<Rightarrow> verify_outcome"

section \<open>The policy\<close>

definition normalize :: "crypto_lib \<Rightarrow> string \<Rightarrow> password_error + string" where
  "normalize lib password =
     (if 1024 < length password then Inl PwInvalid
      else
        let normalized = lib_nfc lib password in
        if 1024 < length normalized
           \<or> \<not> (15 \<le> chars_count normalized \<and> chars_count normalized \<le> 256)
        then Inl PwInvalid else Inr normalized)"

definition argon2 :: argon_instance where
  "argon2 = \<lparr>arg_algorithm = Argon2id, arg_version = V0x13,
     arg_params = \<lparr>m_cost = memory_kib, t_cost = iterations, p_cost = lanes, output_len = Some output_bytes\<rparr>\<rparr>"

section \<open>The permits\<close>

record password_service =
  ps_permits :: nat

definition password_service_default :: password_service where
  "password_service_default = \<lparr>ps_permits = 2\<rparr>"

text \<open>\<open>compute\<close> up to the spawned job: \<open>try_acquire_owned\<close>.\<close>

definition compute_begin :: "password_service \<Rightarrow> (password_error + unit) \<times> password_service" where
  "compute_begin svc =
     (if ps_permits svc = 0 then (Inl PwBusy, svc)
      else (Inr (), svc\<lparr>ps_permits := ps_permits svc - 1\<rparr>))"

text \<open>The end of the blocking job: its permit is dropped.\<close>

definition compute_end :: "password_service \<Rightarrow> password_service" where
  "compute_end svc = svc\<lparr>ps_permits := ps_permits svc + 1\<rparr>"

text \<open>What the waiter gets: the job's result, or an internal error when the job panicked.\<close>

definition join_result :: "(password_error + 'a) option \<Rightarrow> password_error + 'a" where
  "join_result r = (case r of None \<Rightarrow> Inl PwInternal | Some x \<Rightarrow> x)"

section \<open>Hashing\<close>

definition hash_begin ::
  "crypto_lib \<Rightarrow> string \<Rightarrow> password_service \<Rightarrow> (password_error + string) \<times> password_service" where
  "hash_begin lib password svc =
     (case normalize lib password of
        Inl e \<Rightarrow> (Inl e, svc)
      | Inr pw \<Rightarrow>
          if pw \<in> blocklist then (Inl PwCommon, svc)
          else (case compute_begin svc of
                  (Inl e, svc') \<Rightarrow> (Inl e, svc')
                | (Inr _, svc') \<Rightarrow> (Inr pw, svc')))"

definition hash_job :: "crypto_lib \<Rightarrow> string \<Rightarrow> string \<Rightarrow> password_error + string" where
  "hash_job lib salt pw =
     (case lib_hash_password lib argon2 salt pw of None \<Rightarrow> Inl PwInternal | Some s \<Rightarrow> Inr s)"

text \<open>\<open>hash\<close>, with its job run to the end; \<open>panics\<close> says whether the job panics.\<close>

definition hash_password ::
  "crypto_lib \<Rightarrow> string \<Rightarrow> bool \<Rightarrow> string \<Rightarrow> password_service \<Rightarrow> (password_error + string) \<times> password_service" where
  "hash_password lib salt panics password svc =
     (case hash_begin lib password svc of
        (Inl e, svc') \<Rightarrow> (Inl e, svc')
      | (Inr pw, svc') \<Rightarrow>
          (join_result (if panics then None else Some (hash_job lib salt pw)), compute_end svc'))"

section \<open>Verification\<close>

definition verify_begin ::
  "crypto_lib \<Rightarrow> string \<Rightarrow> password_service \<Rightarrow> (password_error + string) \<times> password_service" where
  "verify_begin lib password svc =
     (case normalize lib password of
        Inl e \<Rightarrow> (Inl e, svc)
      | Inr pw \<Rightarrow>
          (case compute_begin svc of
             (Inl e, svc') \<Rightarrow> (Inl e, svc')
           | (Inr _, svc') \<Rightarrow> (Inr pw, svc')))"

definition verify_job :: "crypto_lib \<Rightarrow> string \<Rightarrow> string \<Rightarrow> password_error + bool" where
  "verify_job lib pw stored =
     (case lib_parse_phc lib stored of
        None \<Rightarrow> Inl PwInternal
      | Some phc \<Rightarrow>
          (case lib_params lib phc of
             None \<Rightarrow> Inl PwInternal
           | Some params \<Rightarrow>
               if phc_algorithm phc \<noteq> ''argon2id''
                  \<or> phc_version phc \<noteq> Some 19
                  \<or> m_cost params \<noteq> memory_kib
                  \<or> t_cost params \<noteq> iterations
                  \<or> p_cost params \<noteq> lanes
                  \<or> map_option length (phc_salt phc) \<noteq> Some 16
                  \<or> map_option length (phc_hash phc) \<noteq> Some output_bytes
               then Inl PwInternal
               else (case lib_verify_password lib argon2 pw phc of
                       VerifyOk \<Rightarrow> Inr True
                     | VerifyPasswordInvalid \<Rightarrow> Inr False
                     | VerifyOther \<Rightarrow> Inl PwInternal)))"

definition verify_password ::
  "crypto_lib \<Rightarrow> bool \<Rightarrow> string \<Rightarrow> string \<Rightarrow> password_service \<Rightarrow> (password_error + bool) \<times> password_service" where
  "verify_password lib panics password stored svc =
     (case verify_begin lib password svc of
        (Inl e, svc') \<Rightarrow> (Inl e, svc')
      | (Inr pw, svc') \<Rightarrow>
          (join_result (if panics then None else Some (verify_job lib pw stored)), compute_end svc'))"

section \<open>The permits are a pool of two\<close>

definition permits_held :: "password_service \<Rightarrow> unit multiset" where
  "permits_held svc = replicate_mset (2 - ps_permits svc) ()"

definition permits_inv :: "password_service \<Rightarrow> bool" where
  "permits_inv svc \<longleftrightarrow> ps_permits svc \<le> 2"

definition permit_acquire :: "unit \<Rightarrow> password_service \<Rightarrow> bool \<times> password_service" where
  "permit_acquire u svc = (case compute_begin svc of (r, svc') \<Rightarrow> (r = Inr (), svc'))"

definition permit_release :: "unit \<Rightarrow> password_service \<Rightarrow> password_service option" where
  "permit_release u svc = Some (compute_end svc)"

definition permit_admits :: "unit \<Rightarrow> unit multiset \<Rightarrow> bool" where
  "permit_admits u M \<longleftrightarrow> size M < 2"

interpretation permits: guard_pool permit_acquire permit_release permits_held permits_inv permit_admits
proof unfold_locales
  fix svc u assume inv: "permits_inv svc"
  then consider "ps_permits svc = 0" | "ps_permits svc = 1" | "ps_permits svc = 2"
    unfolding permits_inv_def by linarith
  note cs = this
  show "fst (permit_acquire u svc) \<longleftrightarrow> permit_admits u (permits_held svc)"
    by (cases rule: cs) (auto simp: permit_acquire_def compute_begin_def permit_admits_def permits_held_def)
  show "permits_held (snd (permit_acquire u svc)) =
      (if fst (permit_acquire u svc) then add_mset u (permits_held svc) else permits_held svc)"
    by (cases rule: cs)
      (auto simp: permit_acquire_def compute_begin_def permits_held_def numeral_2_eq_2)
  show "permits_inv (snd (permit_acquire u svc))"
    using inv by (auto simp: permit_acquire_def compute_begin_def permits_inv_def)
  show "\<exists>svc'. permit_release u svc = Some svc' \<and> permits_inv svc' \<and> permits_held svc' = permits_held svc - {#u#}"
    if "u \<in># permits_held svc"
    using that by (cases rule: cs)
      (auto simp: permit_release_def compute_end_def permits_inv_def permits_held_def numeral_2_eq_2)
qed

text \<open>The states the service can be in, with the number of blocking jobs that run.\<close>

inductive service_reach :: "password_service \<Rightarrow> nat \<Rightarrow> bool" where
  start: "service_reach password_service_default 0"
| spawn: "service_reach svc n \<Longrightarrow> compute_begin svc = (Inr (), svc') \<Longrightarrow> service_reach svc' (Suc n)"
| busy: "service_reach svc n \<Longrightarrow> compute_begin svc = (Inl e, svc') \<Longrightarrow> service_reach svc' n"
| finish: "service_reach svc (Suc n) \<Longrightarrow> service_reach (compute_end svc) n"

lemma service_reach_permits: "service_reach svc n \<Longrightarrow> permits_inv svc \<and> permits_held svc = replicate_mset n ()"
proof (induction rule: service_reach.induct)
  case start
  show ?case by (simp add: password_service_default_def permits_inv_def permits_held_def)
next
  case (spawn svc n svc')
  then show ?case
    using permits.acquire_held [of svc "()"] permits.inv_acquire [of svc "()"]
    by (simp add: permit_acquire_def)
next
  case (busy svc n e svc')
  then show ?case
    using permits.acquire_held [of svc "()"] permits.inv_acquire [of svc "()"]
    by (simp add: permit_acquire_def)
next
  case (finish svc n)
  then show ?case
    using permits.release_held [of svc "()"] by (auto simp: permit_release_def)
qed

text \<open>
  At most two memory-hard computations run at a time, whatever requests arrive and whichever of them
  are cancelled: the free permits are two less the running jobs, and a request is refused as busy, with
  no effect, exactly when two jobs run.
\<close>

lemma password_jobs_bounded:
  assumes "service_reach svc n"
  shows "n \<le> 2 \<and> ps_permits svc + n = 2 \<and> (compute_begin svc = (Inl PwBusy, svc) \<longleftrightarrow> n = 2)"
proof -
  have p: "ps_permits svc \<le> 2" "replicate_mset (2 - ps_permits svc) () = replicate_mset n ()"
    using service_reach_permits [OF assms] by (auto simp: permits_inv_def permits_held_def)
  then have "2 - ps_permits svc = n" by (metis size_replicate_mset)
  with p(1) show ?thesis by (auto simp: compute_begin_def)
qed

lemma password_jobs_bounded_example:
  "ps_permits (snd (compute_begin (snd (compute_begin password_service_default)))) = 0"
proof -
  have "service_reach (snd (compute_begin password_service_default)) 1"
    using service_reach.spawn [OF service_reach.start]
    by (simp add: compute_begin_def password_service_default_def)
  then have "service_reach (snd (compute_begin (snd (compute_begin password_service_default)))) 2"
    using service_reach.spawn [of _ 1 "snd (compute_begin (snd (compute_begin password_service_default)))"]
    by (simp add: compute_begin_def password_service_default_def numeral_2_eq_2)
  from password_jobs_bounded [OF this] show ?thesis by simp
qed

section \<open>What the policy admits\<close>

definition acceptable :: "crypto_lib \<Rightarrow> string \<Rightarrow> bool" where
  "acceptable lib password \<longleftrightarrow>
     length password \<le> 1024 \<and> length (lib_nfc lib password) \<le> 1024
     \<and> 15 \<le> chars_count (lib_nfc lib password) \<and> chars_count (lib_nfc lib password) \<le> 256"

lemma normalize_eq [op_simps]:
  "normalize lib password = (if acceptable lib password then Inr (lib_nfc lib password) else Inl PwInvalid)"
  by (auto simp: normalize_def acceptable_def Let_def)

lemma normalize_errors [simp]: "normalize lib password \<noteq> Inl PwCommon" "normalize lib password \<noteq> Inl PwBusy"
    "normalize lib password \<noteq> Inl PwInternal"
  by (simp_all add: normalize_eq)

lemma compute_begin_end [simp]: "compute_begin svc = (Inr (), svc') \<Longrightarrow> compute_end svc' = svc"
  by (auto simp: compute_begin_def compute_end_def split: if_splits)

lemma compute_begin_err: "compute_begin svc = (Inl e, svc') \<Longrightarrow> svc' = svc \<and> e = PwBusy \<and> ps_permits svc = 0"
  by (auto simp: compute_begin_def split: if_splits)

lemma hash_password_cases [op_simps]:
  "hash_password lib salt panics password svc =
     ((if \<not> acceptable lib password then Inl PwInvalid
       else if lib_nfc lib password \<in> blocklist then Inl PwCommon
       else if ps_permits svc = 0 then Inl PwBusy
       else if panics then Inl PwInternal
       else case lib_hash_password lib argon2 salt (lib_nfc lib password) of
              None \<Rightarrow> Inl PwInternal | Some s \<Rightarrow> Inr s), svc)"
  by (auto simp: hash_password_def hash_begin_def normalize_eq hash_job_def join_result_def
      compute_begin_def compute_end_def split: option.splits)

lemma verify_password_cases [op_simps]:
  "verify_password lib panics password stored svc =
     ((if \<not> acceptable lib password then Inl PwInvalid
       else if ps_permits svc = 0 then Inl PwBusy
       else if panics then Inl PwInternal
       else verify_job lib (lib_nfc lib password) stored), svc)"
  by (auto simp: verify_password_def verify_begin_def normalize_eq join_result_def
      compute_begin_def compute_end_def)

text \<open>
  A password gets a hash exactly when its normal form has 15 to 256 characters, neither form
  exceeds 1024 bytes, the normal form is not on the blocklist, a permit is free and the computation
  succeeds; the permit is back afterwards in every case.
\<close>

lemma hash_password_policy:
  "(isl (fst (hash_password lib salt panics password svc)) \<longleftrightarrow>
      \<not> (length password \<le> 1024 \<and> length (lib_nfc lib password) \<le> 1024
         \<and> chars_count (lib_nfc lib password) \<in> {15..256}
         \<and> lib_nfc lib password \<notin> set common_passwords
         \<and> 0 < ps_permits svc \<and> \<not> panics
         \<and> lib_hash_password lib argon2 salt (lib_nfc lib password) \<noteq> None))
   \<and> snd (hash_password lib salt panics password svc) = svc"
  by (auto simp: hash_password_cases acceptable_def blocklist_eq split: option.splits)

text \<open>
  Every entry of the shipped blocklist is long enough to be caught by the blocklist and not by the
  length policy: any password whose normal form is an entry is refused as common, before a permit is
  taken, whatever the state of the service.
\<close>

lemma common_password_refused:
  assumes "length password \<le> 1024" "lib_nfc lib password \<in> set common_passwords"
  shows "hash_password lib salt panics password svc = (Inl PwCommon, svc)
    \<and> hash_begin lib password svc = (Inl PwCommon, svc)"
proof -
  have "lib_nfc lib password \<in> blocklist" using assms(2) by (simp add: blocklist_eq)
  with blocklist_entry [OF this] show ?thesis
    using assms(1) by (simp add: hash_password_cases hash_begin_def normalize_eq acceptable_def)
qed

text \<open>A stored hash has the policy's parameters: algorithm, version, costs, salt and output length.\<close>

definition policy_phc :: "crypto_lib \<Rightarrow> phc_string \<Rightarrow> bool" where
  "policy_phc lib phc \<longleftrightarrow>
     phc_algorithm phc = ''argon2id'' \<and> phc_version phc = Some 19
     \<and> (\<exists>params. lib_params lib phc = Some params \<and> m_cost params = 65536 \<and> t_cost params = 3 \<and> p_cost params = 1)
     \<and> (\<exists>salt. phc_salt phc = Some salt \<and> length salt = 16)
     \<and> (\<exists>h. phc_hash phc = Some h \<and> length h = 32)"

lemma verify_job_eq [op_simps]:
  "verify_job lib pw stored =
     (case lib_parse_phc lib stored of
        None \<Rightarrow> Inl PwInternal
      | Some phc \<Rightarrow>
          if \<not> policy_phc lib phc then Inl PwInternal
          else case lib_verify_password lib argon2 pw phc of
                 VerifyOk \<Rightarrow> Inr True | VerifyPasswordInvalid \<Rightarrow> Inr False | VerifyOther \<Rightarrow> Inl PwInternal)"
  by (auto simp: verify_job_def policy_phc_def memory_kib_def iterations_def lanes_def output_bytes_def
      split: option.splits)

text \<open>
  C28. Verification fails closed: it gives a verdict only for a stored hash that parses and has exactly
  the policy's algorithm, version, costs and lengths, and it accepts only when the library accepts the
  normalised password against that hash; corrupt, downgraded or oversized hashes give an error.
\<close>

theorem verify_fails_closed:
  assumes "verify_password lib panics password stored svc = (Inr b, svc')"
  shows "\<exists>phc. lib_parse_phc lib stored = Some phc \<and> policy_phc lib phc
    \<and> (b \<longleftrightarrow> lib_verify_password lib argon2 (lib_nfc lib password) phc = VerifyOk)
    \<and> (\<not> b \<longrightarrow> lib_verify_password lib argon2 (lib_nfc lib password) phc = VerifyPasswordInvalid)
    \<and> acceptable lib password \<and> svc' = svc"
  using assms
  by (auto simp: verify_password_cases verify_job_eq split: if_splits option.splits verify_outcome.splits)

text \<open>
  What the \<open>argon2\<close> crate documents of a hash it makes with a salt of 16 bytes: it parses, carries the
  parameters of the instance that made it, and verifies against the password it was made from.
\<close>

definition argon_documented :: "crypto_lib \<Rightarrow> bool" where
  "argon_documented lib \<longleftrightarrow>
     (\<forall>salt pw s. length salt = 16 \<longrightarrow> lib_hash_password lib argon2 salt pw = Some s \<longrightarrow>
        (\<exists>phc out. lib_parse_phc lib s = Some phc \<and> phc_algorithm phc = ''argon2id''
           \<and> phc_version phc = Some 19 \<and> lib_params lib phc = Some (arg_params argon2)
           \<and> phc_salt phc = Some salt \<and> phc_hash phc = Some out
           \<and> length out = the (output_len (arg_params argon2))
           \<and> lib_verify_password lib argon2 pw phc = VerifyOk))"

lemma hash_verifies:
  assumes "argon_documented lib" "length salt = 16"
    and "hash_password lib salt panics password svc = (Inr stored, svc')"
    and "lib_nfc lib password' = lib_nfc lib password" "length password' \<le> 1024"
    and "0 < ps_permits svc''"
  shows "verify_password lib False password' stored svc'' = (Inr True, svc'')"
proof -
  have acc: "acceptable lib password" and h: "lib_hash_password lib argon2 salt (lib_nfc lib password) = Some stored"
    using assms(3) by (auto simp: hash_password_cases split: if_splits option.splits)
  obtain phc out where phc: "lib_parse_phc lib stored = Some phc" "phc_algorithm phc = ''argon2id''"
      "phc_version phc = Some 19" "lib_params lib phc = Some (arg_params argon2)" "phc_salt phc = Some salt"
      "phc_hash phc = Some out" "length out = 32"
      "lib_verify_password lib argon2 (lib_nfc lib password) phc = VerifyOk"
    using assms(1,2) h unfolding argon_documented_def
    by (fastforce simp: argon2_def output_bytes_def)
  have "policy_phc lib phc"
    using phc assms(2) by (simp add: policy_phc_def argon2_def memory_kib_def iterations_def lanes_def)
  moreover have "acceptable lib password'" using acc assms(4,5) by (simp add: acceptable_def)
  ultimately show ?thesis
    using phc assms(4,6) by (simp add: verify_password_cases verify_job_eq)
qed

text \<open>
  Round trip: the hash that a password was given at creation accepts that password, and any
  other spelling of it with the same normal form, whenever a permit is free.
\<close>

lemma hash_then_verify:
  assumes "argon_documented lib" "length salt = 16"
    and "hash_password lib salt panics password svc = (Inr stored, svc')"
    and "lib_nfc lib password' = lib_nfc lib password" "length password' \<le> 1024"
    and "0 < ps_permits svc''"
  shows "verify_password lib False password' stored svc'' = (Inr True, svc'')"
  by (rule hash_verifies [OF assms])

text \<open>A concrete library: no normalisation, and a \<open>hash\<close> that pads or cuts the password to 32 bytes.\<close>

definition toy_phc :: "string \<Rightarrow> phc_string" where
  "toy_phc s = \<lparr>phc_algorithm = ''argon2id'', phc_version = Some 19, phc_params = [],
     phc_salt = Some (take 16 s), phc_hash = Some (drop 16 s)\<rparr>"

definition toy_digest :: "string \<Rightarrow> string" where
  "toy_digest pw = take 32 (pw @ replicate 32 CHR ''0'')"

definition toy_lib :: crypto_lib where
  "toy_lib = \<lparr>lib_nfc = (\<lambda>s. s),
     lib_hash_password = (\<lambda>_ salt pw. Some (salt @ toy_digest pw)),
     lib_parse_phc = (\<lambda>s. if length s = 48 then Some (toy_phc s) else None),
     lib_params = (\<lambda>_. Some (arg_params argon2)),
     lib_verify_password = (\<lambda>_ pw phc.
        if phc_hash phc = Some (toy_digest pw) then VerifyOk else VerifyPasswordInvalid)\<rparr>"

lemma toy_documented: "argon_documented toy_lib"
  by (auto simp: argon_documented_def toy_lib_def toy_phc_def toy_digest_def argon2_def output_bytes_def)

definition toy_salt :: string where "toy_salt = replicate 16 CHR ''s''"

definition toy_password :: string where "toy_password = ''cafe telescopes drift slowly''"

lemma toy_acceptable: "acceptable toy_lib toy_password" "toy_password \<notin> blocklist"
proof -
  show "acceptable toy_lib toy_password"
    by (simp add: acceptable_def toy_lib_def toy_password_def chars_count_def)
  show "toy_password \<notin> blocklist" unfolding blocklist_eq by code_simp
qed

lemma toy_hash:
  "hash_password toy_lib toy_salt False toy_password password_service_default
   = (Inr (toy_salt @ toy_digest toy_password), password_service_default)"
  using toy_acceptable by (simp add: hash_password_cases password_service_default_def) (simp add: toy_lib_def)

lemma hash_then_verify_example:
  "verify_password toy_lib False toy_password (toy_salt @ toy_digest toy_password) password_service_default
   = (Inr True, password_service_default)"
  by (rule hash_then_verify [OF toy_documented _ toy_hash])
    (simp_all add: toy_salt_def toy_password_def password_service_default_def)

theorem verify_fails_closed_witness:
  "\<exists>phc. lib_parse_phc toy_lib (toy_salt @ toy_digest toy_password) = Some phc \<and> policy_phc toy_lib phc"
proof -
  have "verify_password toy_lib False toy_password (toy_salt @ toy_digest toy_password) password_service_default
      = (Inr True, password_service_default)"
    using toy_acceptable(1)
    by (simp add: verify_password_cases verify_job_def password_service_default_def)
      (simp add: toy_lib_def toy_phc_def toy_salt_def toy_digest_def argon2_def memory_kib_def iterations_def
        lanes_def output_bytes_def)
  from verify_fails_closed [OF this] show ?thesis by blast
qed

lemma common_password_refused_example:
  "hash_password toy_lib toy_salt False ''Lightpower12345'' password_service_default
   = (Inl PwCommon, password_service_default)"
proof -
  have "lib_nfc toy_lib ''Lightpower12345'' \<in> set common_passwords"
    by (simp add: toy_lib_def common_passwords_def ascii_passwords_def)
  from common_password_refused [OF _ this] show ?thesis by simp
qed

end
