(* ===== verification/Channel.thy ===== *)
theory Channel
imports Prelude "HOL-Library.Sublist"
begin

text \<open>
  The broadcast channels of the rooms (\<open>tokio::sync::broadcast\<close>), as documented: every channel is the
  sequence of values sent on it, a subscription is a position in that sequence and starts at its end,
  a receiver that is further behind than the buffer gets an error, and a value sent without receivers
  is lost, which a sequence no one reads from that position on shows as well. \<open>Closed\<close> cannot reach a
  session: it holds a sender of its own. The locale states what the rooms rely on: sending appends to
  one channel and touches no other, and a fresh channel is empty and new.
\<close>

locale broadcast =
  fixes log_of :: "'s \<Rightarrow> nat \<Rightarrow> 'e list option"
    and fresh :: "'s \<Rightarrow> nat \<times> 's"
    and send :: "nat \<Rightarrow> 'e \<Rightarrow> 's \<Rightarrow> 's"
  assumes fresh_new: "fresh s = (c, s') \<Longrightarrow> log_of s c = None"
    and fresh_log: "fresh s = (c, s') \<Longrightarrow> log_of s' d = (if d = c then Some [] else log_of s d)"
    and send_log: "log_of (send c e s) d =
          (if d = c then map_option (\<lambda>l. l @ [e]) (log_of s d) else log_of s d)"
begin

text \<open>\<open>s'\<close> has every channel of \<open>s\<close>, with at least its history.\<close>

definition extends :: "'s \<Rightarrow> 's \<Rightarrow> bool" where
  "extends s s' \<longleftrightarrow> (\<forall>c l. log_of s c = Some l \<longrightarrow> (\<exists>l'. log_of s' c = Some l' \<and> prefix l l'))"

lemma extends_refl [simp]: "extends s s"
  by (auto simp: extends_def)

lemma extends_trans: "extends s s' \<Longrightarrow> extends s' s'' \<Longrightarrow> extends s s''"
  by (fastforce simp: extends_def)

lemma extends_send [simp]: "extends s (send c e s)"
  by (auto simp: extends_def send_log)

lemma extends_fresh: "fresh s = (c, s') \<Longrightarrow> extends s s'"
  using fresh_new [of s c s'] fresh_log [of s c s'] by (auto simp: extends_def)

lemma extendsD: "extends s s' \<Longrightarrow> log_of s c = Some l \<Longrightarrow> \<exists>l'. log_of s' c = Some (l @ l')"
  by (fastforce simp: extends_def prefix_def)

end

section \<open>The channels\<close>

type_synonym 'e channels = "'e list list"

definition channel_log :: "'e channels \<Rightarrow> nat \<Rightarrow> 'e list option" where
  "channel_log chs c = (if c < length chs then Some (chs ! c) else None)"

definition channel_new :: "'e channels \<Rightarrow> nat \<times> 'e channels" where
  "channel_new chs = (length chs, chs @ [[]])"

definition channel_send :: "nat \<Rightarrow> 'e \<Rightarrow> 'e channels \<Rightarrow> 'e channels" where
  "channel_send c e chs = (if c < length chs then chs[c := chs ! c @ [e]] else chs)"

text \<open>A receiver: the channel and the number of values of it already seen or missed.\<close>

type_synonym receiver = "nat \<times> nat"

definition channel_subscribe :: "nat \<Rightarrow> 'e channels \<Rightarrow> receiver" where
  "channel_subscribe c chs = (c, length (chs ! c))"

datatype 'e recv_result = Received 'e | Lagged | Pending

text \<open>\<open>buffered\<close> is the number of values the channel keeps.\<close>

definition channel_recv :: "nat \<Rightarrow> receiver \<Rightarrow> 'e channels \<Rightarrow> 'e recv_result \<times> receiver" where
  "channel_recv buffered rx chs =
     (case rx of (c, pos) \<Rightarrow>
        if length (chs ! c) \<le> pos then (Pending, rx)
        else if pos + buffered < length (chs ! c) then (Lagged, (c, length (chs ! c) - buffered))
        else (Received (chs ! c ! pos), (c, pos + 1)))"

interpretation chan: broadcast channel_log channel_new channel_send
  by unfold_locales
    (auto simp: channel_log_def channel_new_def channel_send_def nth_append split: if_splits)

lemma length_channel_send [simp]: "length (channel_send c e chs) = length chs"
  by (simp add: channel_send_def)

lemma nth_channel_send [simp]:
  "c < length chs \<Longrightarrow> channel_send c e chs ! d = (if d = c then chs ! c @ [e] else chs ! d)"
  by (simp add: channel_send_def)

lemma extends_nth:
  assumes "chan.extends chs chs'" "c < length chs"
  shows "c < length chs' \<and> prefix (chs ! c) (chs' ! c)"
  using assms by (auto simp: chan.extends_def channel_log_def split: if_splits)

end
