(* ===== verification/State.thy ===== *)
theory State
imports Db Config Admission Passwords Channel
begin

text \<open>
  The shared state of \<open>src/state.rs\<close>: room events, rooms, \<open>AppState\<close>, and the operations under the
  write lock of the room map: \<open>attach\<close>, \<open>join\<close>, \<open>detach\<close> and \<open>expire_inactive_rooms\<close>. The lock makes
  each of them one atomic step; the database calls that happen under it are part of the step. A
  \<open>Sender\<close> is the number of its channel in \<open>st_channels\<close>.
\<close>

section \<open>Events\<close>

datatype room_event =
    PeerJoined string string string "string option"
  | Chat string string "u64 option" "u64 option"
  | TreeCommit string string
  | TreeWelcome string string string
  | Typing string
  | PeerLeft string
  | RoomExpired

fun event_sender :: "room_event \<Rightarrow> string option" where
  "event_sender (PeerJoined from _ _ _) = Some from"
| "event_sender (Chat from _ _ _) = Some from"
| "event_sender (TreeCommit from _) = Some from"
| "event_sender (TreeWelcome from _ _) = Some from"
| "event_sender (Typing from) = Some from"
| "event_sender (PeerLeft from) = Some from"
| "event_sender RoomExpired = None"

fun event_target :: "room_event \<Rightarrow> string option" where
  "event_target (TreeWelcome _ target _) = Some target"
| "event_target _ = None"

section \<open>Rooms and the application state\<close>

text \<open>The limit the sessions pass to \<open>join\<close>, from \<open>src/routes/ws.rs\<close>.\<close>

definition max_participants :: nat where "max_participants = 16"

record participant =
  pt_public_key :: string
  pt_pq_public_key :: string
  pt_sig :: "string option"

record room =
  rm_tx :: nat
  rm_creator_id :: "string option"
  rm_participants :: "(string \<times> participant) list"

type_synonym peer_snapshot = "(string \<times> string \<times> string \<times> string option) list"

datatype join_outcome = Joined receiver peer_snapshot | Full | RoomGone

record app_state =
  st_db :: database
  st_config :: config
  st_rooms :: "(string \<times> room) list"
  st_admission :: admission
  st_passwords :: password_service
  st_channels :: "room_event channels"

definition room_new :: "room_event channels \<Rightarrow> room \<times> room_event channels" where
  "room_new chs =
     (case channel_new chs of (tx, chs') \<Rightarrow>
        (\<lparr>rm_tx = tx, rm_creator_id = None, rm_participants = []\<rparr>, chs'))"

definition app_state_new :: "database \<Rightarrow> config \<Rightarrow> app_state" where
  "app_state_new db cfg =
     \<lparr>st_db = db, st_config = cfg, st_rooms = [], st_admission = admission_default,
      st_passwords = password_service_default, st_channels = []\<rparr>"

text \<open>\<open>rooms.entry(id).or_insert_with(Room::new)\<close>\<close>

definition room_entry :: "string \<Rightarrow> app_state \<Rightarrow> room \<times> app_state" where
  "room_entry room_id st =
     (case map_of (st_rooms st) room_id of
        Some room \<Rightarrow> (room, st)
      | None \<Rightarrow>
          (case room_new (st_channels st) of (room, chs) \<Rightarrow>
             (room, st\<lparr>st_rooms := AList.update room_id room (st_rooms st), st_channels := chs\<rparr>)))"

definition put_room :: "string \<Rightarrow> room \<Rightarrow> app_state \<Rightarrow> app_state" where
  "put_room room_id room st = st\<lparr>st_rooms := AList.update room_id room (st_rooms st)\<rparr>"

definition send_event :: "nat \<Rightarrow> room_event \<Rightarrow> app_state \<Rightarrow> app_state" where
  "send_event tx ev st = st\<lparr>st_channels := channel_send tx ev (st_channels st)\<rparr>"

definition attach ::
  "db_call \<Rightarrow> string \<Rightarrow> string \<Rightarrow> app_state \<Rightarrow> (sqlx_error + (nat \<times> bool \<times> string option) option) \<times> app_state" where
  "attach c room_id conn_id st =
     (case room_exists c room_id (st_db st) of
        Inl e \<Rightarrow> (Inl e, st)
      | Inr False \<Rightarrow> (Inr None, st)
      | Inr True \<Rightarrow>
          (case room_entry room_id st of (room, st1) \<Rightarrow>
             (let is_creator = (rm_creator_id room = None);
                  room' = (if is_creator then room\<lparr>rm_creator_id := Some conn_id\<rparr> else room)
              in (Inr (Some (rm_tx room', is_creator, rm_creator_id room')), put_room room_id room' st1))))"

definition snapshot :: "(string \<times> participant) list \<Rightarrow> peer_snapshot" where
  "snapshot ps = map (\<lambda>(k, p). (k, pt_public_key p, pt_pq_public_key p, pt_sig p)) ps"

definition join ::
  "string \<Rightarrow> string \<Rightarrow> participant \<Rightarrow> nat \<Rightarrow> app_state \<Rightarrow> join_outcome \<times> app_state" where
  "join room_id conn_id p limit st =
     (case map_of (st_rooms st) room_id of
        None \<Rightarrow> (RoomGone, st)
      | Some room \<Rightarrow>
          if limit \<le> length (rm_participants room) then (Full, st)
          else
            let peers = snapshot (rm_participants room);
                rx = channel_subscribe (rm_tx room) (st_channels st);
                joined = PeerJoined conn_id (pt_public_key p) (pt_pq_public_key p) (pt_sig p);
                room' = room\<lparr>rm_participants := AList.update conn_id p (rm_participants room)\<rparr>
            in (Joined rx peers, send_event (rm_tx room) joined (put_room room_id room' st)))"

definition detach :: "string \<Rightarrow> string \<Rightarrow> app_state \<Rightarrow> app_state" where
  "detach room_id conn_id st =
     (case map_of (st_rooms st) room_id of
        None \<Rightarrow> st
      | Some room \<Rightarrow>
          let was = contains_key (rm_participants room) conn_id;
              room1 = room\<lparr>rm_participants := AList.delete conn_id (rm_participants room)\<rparr>;
              st1 = (if was then send_event (rm_tx room) (PeerLeft conn_id) st else st);
              room2 = (if rm_participants room1 = [] then room1\<lparr>rm_creator_id := None\<rparr> else room1)
          in put_room room_id room2 st1)"

text \<open>The loop over the deleted ids: remove the room and announce its expiry on its channel.\<close>

fun remove_rooms :: "string list \<Rightarrow> app_state \<Rightarrow> app_state" where
  "remove_rooms [] st = st"
| "remove_rooms (k # ks) st =
     (case map_of (st_rooms st) k of
        None \<Rightarrow> remove_rooms ks st
      | Some room \<Rightarrow>
          remove_rooms ks (send_event (rm_tx room) RoomExpired (st\<lparr>st_rooms := AList.delete k (st_rooms st)\<rparr>)))"

definition expire_inactive_rooms ::
  "db_call \<Rightarrow> i64 \<Rightarrow> app_state \<Rightarrow> (sqlx_error + string list) \<times> app_state" where
  "expire_inactive_rooms c threshold_secs st =
     (case delete_inactive_rooms c threshold_secs (st_db st) of
        (Inl e, db) \<Rightarrow> (Inl e, st\<lparr>st_db := db\<rparr>)
      | (Inr deleted, db) \<Rightarrow> (Inr deleted, remove_rooms deleted (st\<lparr>st_db := db\<rparr>)))"

end
