(* ===== verification/Membership.thy ===== *)
theory Membership
imports State
begin

text \<open>
  The rooms over time: the steps the backend takes on the shared state, the invariant they keep, and
  what follows from it. The participants of a room are always the replay of the join and leave events
  on its channel, so what a client is told (the snapshot at its join, then the events) is the
  membership; rooms have at most sixteen participants; a room in memory has its row in the database,
  so an expired room stays gone.
\<close>

section \<open>Membership as a replay of the events\<close>

fun apply_event :: "room_event \<Rightarrow> (string \<Rightarrow> participant option) \<Rightarrow> string \<Rightarrow> participant option" where
  "apply_event (PeerJoined from pk pq sig) m =
     m(from \<mapsto> \<lparr>pt_public_key = pk, pt_pq_public_key = pq, pt_sig = sig\<rparr>)"
| "apply_event (PeerLeft from) m = m(from := None)"
| "apply_event _ m = m"

definition replay :: "room_event list \<Rightarrow> (string \<Rightarrow> participant option) \<Rightarrow> string \<Rightarrow> participant option" where
  "replay evs m = fold apply_event evs m"

lemma replay_append [simp]: "replay (xs @ ys) m = replay ys (replay xs m)"
  by (simp add: replay_def)

lemma replay_Nil [simp]: "replay [] m = m"
  by (simp add: replay_def)

lemma replay_Cons [simp]: "replay (e # es) m = replay es (apply_event e m)"
  by (simp add: replay_def)

text \<open>
  The invariant: keys are distinct, every room has its own existing channel and a row in the
  database, its participants are the replay of its channel, and it holds at most sixteen.
\<close>

definition room_ok :: "room_event channels \<Rightarrow> room \<Rightarrow> bool" where
  "room_ok chs room \<longleftrightarrow>
     rm_tx room < length chs \<and> distinct (keys (rm_participants room))
     \<and> map_of (rm_participants room) = replay (chs ! rm_tx room) Map.empty
     \<and> length (rm_participants room) \<le> max_participants"

definition rooms_inv :: "app_state \<Rightarrow> bool" where
  "rooms_inv st \<longleftrightarrow>
     db_inv (st_db st) \<and> distinct (keys (st_rooms st))
     \<and> (\<forall>k room. map_of (st_rooms st) k = Some room \<longrightarrow>
          room_ok (st_channels st) room \<and> store.password (st_db st) k \<noteq> None)
     \<and> (\<forall>k k' r r'. map_of (st_rooms st) k = Some r \<longrightarrow> map_of (st_rooms st) k' = Some r' \<longrightarrow>
          rm_tx r = rm_tx r' \<longrightarrow> k = k')"

text \<open>Events that clients cause and that leave the membership alone.\<close>

fun relayed :: "room_event \<Rightarrow> bool" where
  "relayed (Chat _ _ _ _) \<longleftrightarrow> True"
| "relayed (TreeCommit _ _) \<longleftrightarrow> True"
| "relayed (TreeWelcome _ _ _) \<longleftrightarrow> True"
| "relayed (Typing _) \<longleftrightarrow> True"
| "relayed _ \<longleftrightarrow> False"

text \<open>
  The steps the backend takes on the state: the operations, relayed events, database calls outside the
  lock, and changes of the other components.
\<close>

inductive state_step :: "app_state \<Rightarrow> app_state \<Rightarrow> bool" where
  attach: "state_step st (snd (attach c rid cid st))"
| join: "state_step st (snd (join rid cid p max_participants st))"
| detach: "state_step st (detach rid cid st)"
| expire: "state_step st (snd (expire_inactive_rooms c t st))"
| relay: "relayed ev \<Longrightarrow> state_step st (send_event tx ev st)"
| create: "state_step st (st\<lparr>st_db := snd (create_room_with_password c rid h (st_db st))\<rparr>)"
| touch: "state_step st (st\<lparr>st_db := snd (update_activity c rid (st_db st))\<rparr>)"
| admission: "state_step st (st\<lparr>st_admission := adm\<rparr>)"
| passwords: "state_step st (st\<lparr>st_passwords := svc\<rparr>)"

section \<open>The invariant is kept\<close>

lemma rooms_invD:
  assumes "rooms_inv st" "map_of (st_rooms st) k = Some room"
  shows "rm_tx room < length (st_channels st)" "distinct (keys (rm_participants room))"
    "map_of (rm_participants room) = replay (st_channels st ! rm_tx room) Map.empty"
    "length (rm_participants room) \<le> max_participants" "store.password (st_db st) k \<noteq> None"
    "room_ok (st_channels st) room"
  using assms by (auto simp: rooms_inv_def room_ok_def)

lemma room_ok_extend [simp]: "room_ok chs r \<Longrightarrow> room_ok (chs @ [l]) r"
  by (simp add: room_ok_def nth_append)

lemma room_ok_send_other [simp]: "room_ok chs r \<Longrightarrow> tx \<noteq> rm_tx r \<Longrightarrow> room_ok (channel_send tx ev chs) r"
  by (cases "tx < length chs") (simp_all add: room_ok_def channel_send_def)

lemma apply_relayed [simp]: "relayed ev \<Longrightarrow> apply_event ev m = m"
  by (cases ev) simp_all

lemma room_ok_send_relayed [simp]: "room_ok chs r \<Longrightarrow> relayed ev \<Longrightarrow> room_ok (channel_send tx ev chs) r"
proof (cases "tx = rm_tx r")
  case True
  then show "room_ok chs r \<Longrightarrow> relayed ev \<Longrightarrow> ?thesis" by (simp add: room_ok_def)
qed simp

lemma room_ok_creator [simp]: "room_ok chs (r\<lparr>rm_creator_id := c\<rparr>) = room_ok chs r"
  by (simp add: room_ok_def)

lemma rooms_inv_change:
  assumes "rooms_inv st"
    and "\<And>k' r. map_of (st_rooms st) k' = Some r \<Longrightarrow> k' \<noteq> k \<Longrightarrow> room_ok chs r"
    and "room_ok chs room" "store.password (st_db st) k \<noteq> None"
    and "\<And>k' r. map_of (st_rooms st) k' = Some r \<Longrightarrow> rm_tx r = rm_tx room \<Longrightarrow> k' = k"
  shows "rooms_inv (st\<lparr>st_rooms := AList.update k room (st_rooms st), st_channels := chs\<rparr>)"
  using assms unfolding rooms_inv_def
  by (auto simp: update_conv' distinct_update split: if_splits)

lemma rooms_inv_tx:
  assumes "rooms_inv st" "map_of (st_rooms st) k = Some room" "map_of (st_rooms st) k' = Some r"
  shows "rm_tx r = rm_tx room \<longleftrightarrow> k' = k"
  using assms unfolding rooms_inv_def by (metis option.inject)

lemma rooms_inv_send_other:
  assumes "rooms_inv st" "map_of (st_rooms st) k = Some room" "map_of (st_rooms st) k' = Some r" "k' \<noteq> k"
  shows "room_ok (channel_send (rm_tx room) ev (st_channels st)) r"
  using rooms_inv_tx [OF assms(1,2,3)] assms(4) rooms_invD(6) [OF assms(1,3)]
  by (intro room_ok_send_other) auto

lemma rooms_inv_db:
  assumes "rooms_inv st" "db_inv db"
    and "\<And>k. contains_key (st_rooms st) k \<Longrightarrow> store.password db k \<noteq> None"
  shows "rooms_inv (st\<lparr>st_db := db\<rparr>)"
  using assms unfolding rooms_inv_def by (auto simp del: map_of_eq_Some_iff)

lemma put_room_eq: "put_room k room st = st\<lparr>st_rooms := AList.update k room (st_rooms st), st_channels := st_channels st\<rparr>"
  by (simp add: put_room_def)

lemma rooms_inv_attach [inv_intros]:
  assumes inv: "rooms_inv st"
  shows "rooms_inv (snd (attach c rid cid st))"
proof (cases "room_exists c rid (st_db st) = Inr True")
  case False
  then show ?thesis using inv by (auto simp: attach_def split: sum.splits bool.splits)
next
  case True
  then have row: "store.password (st_db st) rid \<noteq> None"
    using store.present_password [of c rid "st_db st" True] by simp
  show ?thesis
  proof (cases "map_of (st_rooms st) rid")
    case None
    let ?room = "\<lparr>rm_tx = length (st_channels st), rm_creator_id = Some cid, rm_participants = []\<rparr>"
    have "snd (attach c rid cid st) = st\<lparr>st_rooms := AList.update rid ?room (st_rooms st),
        st_channels := st_channels st @ [[]]\<rparr>"
      using True None by (simp add: attach_def room_entry_def room_new_def channel_new_def put_room_def Let_def
          update_Some_unfold [symmetric])
    moreover have "rooms_inv \<dots>"
    proof (rule rooms_inv_change [OF inv])
      show "room_ok (st_channels st @ [[]]) r" if "map_of (st_rooms st) k' = Some r" "k' \<noteq> rid" for k' r
        using rooms_invD(6) [OF inv that(1)] by simp
      show "k' = rid" if "map_of (st_rooms st) k' = Some r" "rm_tx r = rm_tx ?room" for k' r
        using rooms_invD(1) [OF inv that(1)] that(2) by simp
    qed (use row in \<open>simp_all add: room_ok_def nth_append max_participants_def\<close>)
    ultimately show ?thesis by simp
  next
    case (Some room)
    let ?room = "if rm_creator_id room = None then room\<lparr>rm_creator_id := Some cid\<rparr> else room"
    have "snd (attach c rid cid st) = put_room rid ?room st"
      using True Some by (simp add: attach_def room_entry_def Let_def)
    moreover have "rooms_inv \<dots>"
      unfolding put_room_eq
      by (rule rooms_inv_change [OF inv])
        (use row rooms_invD(6) [OF inv] Some rooms_inv_tx [OF inv Some] in \<open>auto split: if_splits\<close>)
    ultimately show ?thesis by simp
  qed
qed

lemma rooms_inv_join [inv_intros]:
  assumes inv: "rooms_inv st"
  shows "rooms_inv (snd (join rid cid p max_participants st))"
proof (cases "map_of (st_rooms st) rid")
  case None
  then show ?thesis using inv by (simp add: join_def)
next
  case (Some room)
  note ok = rooms_invD [OF inv Some]
  show ?thesis
  proof (cases "max_participants \<le> length (rm_participants room)")
    case True
    then show ?thesis using Some inv by (simp add: join_def)
  next
    case False
    let ?ev = "PeerJoined cid (pt_public_key p) (pt_pq_public_key p) (pt_sig p)"
    let ?room = "room\<lparr>rm_participants := AList.update cid p (rm_participants room)\<rparr>"
    let ?chs = "channel_send (rm_tx room) ?ev (st_channels st)"
    have "snd (join rid cid p max_participants st)
        = st\<lparr>st_rooms := AList.update rid ?room (st_rooms st), st_channels := ?chs\<rparr>"
      using Some False by (simp add: join_def Let_def send_event_def put_room_def)
    moreover have "room_ok ?chs ?room"
      using ok(1-4) False
      by (auto simp: room_ok_def distinct_update update_conv' length_AList_update)
    moreover have "rooms_inv (st\<lparr>st_rooms := AList.update rid ?room (st_rooms st), st_channels := ?chs\<rparr>)"
      if "room_ok ?chs ?room"
      by (rule rooms_inv_change [OF inv _ that])
        (use ok(5) rooms_inv_send_other [OF inv Some] rooms_inv_tx [OF inv Some] in auto)
    ultimately show ?thesis by simp
  qed
qed

lemma rooms_inv_detach [inv_intros]:
  assumes inv: "rooms_inv st"
  shows "rooms_inv (detach rid cid st)"
proof (cases "map_of (st_rooms st) rid")
  case None
  then show ?thesis using inv by (simp add: detach_def)
next
  case (Some room)
  note ok = rooms_invD [OF inv Some]
  let ?ps = "AList.delete cid (rm_participants room)"
  let ?room = "room\<lparr>rm_participants := ?ps, rm_creator_id := if ?ps = [] then None else rm_creator_id room\<rparr>"
  let ?chs = "if contains_key (rm_participants room) cid
              then channel_send (rm_tx room) (PeerLeft cid) (st_channels st) else st_channels st"
  have "detach rid cid st = st\<lparr>st_rooms := AList.update rid ?room (st_rooms st), st_channels := ?chs\<rparr>"
    using Some by (simp add: detach_def Let_def send_event_def put_room_def)
  moreover have "map_of ?ps = replay (?chs ! rm_tx room) Map.empty"
    using ok(1,3) by (auto simp: delete_conv' fun_upd_idem)
  then have "room_ok ?chs ?room"
    using ok(1,2,4) by (auto simp: room_ok_def distinct_delete length_AList_delete)
  moreover have "rooms_inv (st\<lparr>st_rooms := AList.update rid ?room (st_rooms st), st_channels := ?chs\<rparr>)"
    if "room_ok ?chs ?room"
    by (rule rooms_inv_change [OF inv _ that])
      (use ok(5) rooms_inv_send_other [OF inv Some] rooms_invD(6) [OF inv] rooms_inv_tx [OF inv Some] in auto)
  ultimately show ?thesis by simp
qed

text \<open>Removing the rooms of deleted rows, one at a time.\<close>

lemma rooms_inv_remove:
  assumes inv: "rooms_inv st" and "map_of (st_rooms st) k = Some room"
  shows "rooms_inv (send_event (rm_tx room) ev (st\<lparr>st_rooms := AList.delete k (st_rooms st)\<rparr>))"
proof -
  have "room_ok (channel_send (rm_tx room) ev (st_channels st)) r"
    if "map_of (st_rooms st) k' = Some r" "k' \<noteq> k" for k' r
    by (rule rooms_inv_send_other [OF inv assms(2) that])
  then show ?thesis
    using inv unfolding rooms_inv_def send_event_def
    by (auto simp: delete_conv' distinct_delete simp del: map_of_eq_Some_iff)
qed

lemma remove_rooms_inv:
  assumes "rooms_inv st"
  shows "rooms_inv (remove_rooms ks st) \<and> st_db (remove_rooms ks st) = st_db st
    \<and> map_of (st_rooms (remove_rooms ks st)) = map_of (st_rooms st) |` (- set ks)"
  using assms
proof (induction ks arbitrary: st)
  case (Cons k ks)
  show ?case
  proof (cases "map_of (st_rooms st) k")
    case None
    with Cons show ?thesis by (auto simp: restrict_map_def fun_eq_iff)
  next
    case (Some room)
    from Cons.IH [OF rooms_inv_remove [OF Cons.prems Some]] Some show ?thesis
      by (auto simp: send_event_def delete_conv' restrict_map_def fun_eq_iff)
  qed
qed (auto simp: restrict_map_def)

lemma remove_rooms_db: "remove_rooms ks (st\<lparr>st_db := db\<rparr>) = (remove_rooms ks st)\<lparr>st_db := db\<rparr>"
proof (induction ks arbitrary: st)
  case (Cons k ks)
  show ?case
  proof (cases "map_of (st_rooms st) k")
    case (Some room)
    have "send_event (rm_tx room) RoomExpired (st\<lparr>st_db := db, st_rooms := AList.delete k (st_rooms st)\<rparr>)
        = (send_event (rm_tx room) RoomExpired (st\<lparr>st_rooms := AList.delete k (st_rooms st)\<rparr>))\<lparr>st_db := db\<rparr>"
      by (simp add: send_event_def)
    then show ?thesis using Some Cons.IH by simp
  qed (use Cons.IH in simp)
qed simp

lemma expire_cases:
  assumes inv: "rooms_inv st" and "expire_inactive_rooms c t st = (r, st')"
  shows "rooms_inv st'"
    and "r = Inr ids \<Longrightarrow> delete_inactive_rooms c t (st_db st) = (Inr ids, st_db st')
      \<and> map_of (st_rooms st') = map_of (st_rooms st) |` (- set ids)"
    and "r = Inl e \<Longrightarrow> st' = st"
proof -
  obtain r' db where d: "delete_inactive_rooms c t (st_db st) = (r', db)" by fastforce
  have db: "db_inv (st_db st)" using inv by (simp add: rooms_inv_def)
  have r: "r' = r" and st': "st' = (case r of Inl _ \<Rightarrow> st\<lparr>st_db := db\<rparr>
      | Inr ids \<Rightarrow> (remove_rooms ids st)\<lparr>st_db := db\<rparr>)"
    using assms(2) d by (auto simp: expire_inactive_rooms_def remove_rooms_db split: sum.splits)
  note rem = remove_rooms_inv [OF inv]
  have err: "db = st_db st" if "r = Inl e" for e
    using store.purge_err [of c t "st_db st" e db] d r that by simp
  then show "r = Inl e \<Longrightarrow> st' = st" by (simp add: st')
  show "r = Inr ids \<Longrightarrow> delete_inactive_rooms c t (st_db st) = (Inr ids, st_db st')
      \<and> map_of (st_rooms st') = map_of (st_rooms st) |` (- set ids)"
    using d r rem by (simp add: st')
  show "rooms_inv st'"
  proof (cases r)
    case (Inl e)
    then show ?thesis using inv err by (simp add: st')
  next
    case (Inr ids)
    have p: "db_inv db" "db_view db = db_view (st_db st) |` (- set ids)"
      using store.purge_ok [OF db, of c t ids db] d r Inr by auto
    have "store.password db k \<noteq> None" if "contains_key (st_rooms (remove_rooms ids st)) k" for k
    proof -
      have "k \<notin> set ids" "contains_key (st_rooms st) k"
        using that rem [of ids] by (auto simp: restrict_map_def split: if_splits)
      then show ?thesis
        using p(2) rooms_invD(5) [OF inv] by (auto simp: store.password_def)
    qed
    with rem [of ids] p(1) show ?thesis
      unfolding st' Inr sum.case by (intro rooms_inv_db) auto
  qed
qed

lemma rooms_inv_relay [inv_intros]: "rooms_inv st \<Longrightarrow> relayed ev \<Longrightarrow> rooms_inv (send_event tx ev st)"
  unfolding rooms_inv_def send_event_def by (auto simp del: map_of_eq_Some_iff)

lemma rooms_inv_create [inv_intros]:
  assumes "rooms_inv st"
  shows "rooms_inv (st\<lparr>st_db := snd (create_room_with_password c rid h (st_db st))\<rparr>)"
proof -
  have db: "db_inv (st_db st)" using assms by (simp add: rooms_inv_def)
  show ?thesis
    using store.create_keeps [OF db, of _ _ c rid h] rooms_invD(5) [OF assms]
    by (intro rooms_inv_db [OF assms] store.inv_create [OF db]) (metis not_None_eq)
qed

lemma rooms_inv_touch [inv_intros]:
  assumes "rooms_inv st"
  shows "rooms_inv (st\<lparr>st_db := snd (update_activity c rid (st_db st))\<rparr>)"
proof -
  have db: "db_inv (st_db st)" using assms by (simp add: rooms_inv_def)
  show ?thesis
    using store.touch_keeps [OF db, of c rid] rooms_invD(5) [OF assms]
    by (intro rooms_inv_db [OF assms] store.inv_touch [OF db]) (metis not_None_eq)
qed

lemma state_step_inv: "state_step st st' \<Longrightarrow> rooms_inv st \<Longrightarrow> rooms_inv st'"
proof (induction rule: state_step.induct)
  case (expire st c t)
  then show ?case using expire_cases(1) [of st c t] by (metis prod.collapse)
next
  case (admission st adm)
  then show ?case by (simp add: rooms_inv_def)
next
  case (passwords st svc)
  then show ?case by (simp add: rooms_inv_def)
qed (rule inv_intros; assumption)+

lemma rooms_inv_new: "db_inv db \<Longrightarrow> rooms_inv (app_state_new db cfg)"
  by (simp add: rooms_inv_def app_state_new_def)

lemma state_steps_inv: "state_step\<^sup>*\<^sup>* st st' \<Longrightarrow> rooms_inv st \<Longrightarrow> rooms_inv st'"
  by (induction rule: rtranclp_induct) (auto intro: state_step_inv)

section \<open>Channels only grow\<close>

lemma extends_remove_rooms: "chan.extends (st_channels st) (st_channels (remove_rooms ks st))"
proof (induction ks arbitrary: st)
  case (Cons k ks)
  show ?case
  proof (cases "map_of (st_rooms st) k")
    case (Some room)
    show ?thesis
      using chan.extends_trans [OF chan.extends_send [of "st_channels st" "rm_tx room" RoomExpired],
          of "st_channels (remove_rooms (k # ks) st)"]
        Cons.IH [of "send_event (rm_tx room) RoomExpired (st\<lparr>st_rooms := AList.delete k (st_rooms st)\<rparr>)"] Some
      by (simp add: send_event_def)
  qed (use Cons.IH in simp)
qed simp

lemma state_step_extends: "state_step st st' \<Longrightarrow> chan.extends (st_channels st) (st_channels st')"
proof (induction rule: state_step.induct)
  case (attach st c rid cid)
  then show ?case
    using chan.extends_fresh [of "st_channels st"]
    by (auto simp: attach_def room_entry_def room_new_def put_room_def Let_def
        split: sum.splits bool.splits option.splits prod.splits)
next
  case (expire st c t)
  then show ?case
    using extends_remove_rooms
    by (auto simp: expire_inactive_rooms_def remove_rooms_db split: sum.splits prod.splits)
qed (auto simp: join_def detach_def send_event_def put_room_def Let_def split: option.splits)

lemma state_steps_extend: "state_step\<^sup>*\<^sup>* st st' \<Longrightarrow> chan.extends (st_channels st) (st_channels st')"
  by (induction rule: rtranclp_induct) (auto intro: chan.extends_trans state_step_extends)

section \<open>Reachable states\<close>

definition state_reachable :: "app_state \<Rightarrow> bool" where
  "state_reachable st \<longleftrightarrow> (\<exists>db cfg. db_inv db \<and> state_step\<^sup>*\<^sup>* (app_state_new db cfg) st)"

lemma reachable_inv: "state_reachable st \<Longrightarrow> rooms_inv st"
  by (auto simp: state_reachable_def intro: state_steps_inv rooms_inv_new)

lemma reachable_new: "db_inv db \<Longrightarrow> state_reachable (app_state_new db cfg)"
  by (auto simp: state_reachable_def)

lemma reachable_step: "state_reachable st \<Longrightarrow> state_step st st' \<Longrightarrow> state_reachable st'"
  by (auto simp: state_reachable_def intro: rtranclp.rtrancl_into_rtrancl)

text \<open>A state to try things on: the rooms \<open>a\<close> and \<open>b\<close> have rows, nothing is in memory.\<close>

definition sample_config :: config where
  "sample_config = \<lparr>cfg_database_url = [], cfg_port = 3000, cfg_bind_address = V4 0x7f000001,
     cfg_allowed_origins = [''https://parrhesia.chat''], cfg_trusted_proxies = [],
     cfg_inactivity_expiry_hours = 24, cfg_cleanup_interval_mins = 5\<rparr>"

definition sample_state :: app_state where
  "sample_state = app_state_new sample_database sample_config"

definition sample_participant :: participant where
  "sample_participant = \<lparr>pt_public_key = ''k'', pt_pq_public_key = ''q'', pt_sig = None\<rparr>"

definition sample_attached :: app_state where
  "sample_attached = snd (attach (sample_call 1) ''a'' ''y'' (snd (attach (sample_call 1) ''a'' ''x'' sample_state)))"

definition sample_joined :: app_state where
  "sample_joined = snd (join ''a'' ''x'' sample_participant max_participants sample_attached)"

lemma sample_reachable: "state_reachable sample_state" "state_reachable sample_attached"
    "state_reachable sample_joined"
proof -
  have "db_inv sample_database" by code_simp
  then show 1: "state_reachable sample_state"
    unfolding sample_state_def by (rule reachable_new)
  show 2: "state_reachable sample_attached"
    unfolding sample_attached_def by (intro reachable_step [OF _ state_step.attach] 1)
  show "state_reachable sample_joined"
    unfolding sample_joined_def by (rule reachable_step [OF 2 state_step.join])
qed

section \<open>What a member is told is the membership\<close>

definition peers_map :: "peer_snapshot \<Rightarrow> string \<Rightarrow> participant option" where
  "peers_map peers = map_of (map (\<lambda>(k, pk, pq, sig).
     (k, \<lparr>pt_public_key = pk, pt_pq_public_key = pq, pt_sig = sig\<rparr>)) peers)"

lemma peers_map_snapshot [simp]: "peers_map (snapshot ps) = map_of ps"
  by (induction ps) (auto simp: peers_map_def snapshot_def)

lemma join_Joined:
  assumes "join rid cid p n st = (Joined (ch, pos) peers, st')"
  obtains room where "map_of (st_rooms st) rid = Some room" "ch = rm_tx room"
    "pos = length (st_channels st ! ch)" "peers = snapshot (rm_participants room)"
    "st_channels st' = channel_send ch (PeerJoined cid (pt_public_key p) (pt_pq_public_key p) (pt_sig p)) (st_channels st)"
  using assms by (auto simp: join_def Let_def channel_subscribe_def send_event_def put_room_def
      split: option.splits if_splits)

text \<open>
  C7. What a member is told is the membership: the first event on the receiver of a successful join is
  the join itself, and at any later time, however joins, departures, relayed messages, expiries and
  other rooms interleave, as long as the room lives on the same channel, replaying the events from the
  receiver's position on the snapshot gives exactly the participants of the room. No member is missed
  and none is shown twice or with other keys.
\<close>

theorem snapshot_then_events:
  assumes "state_reachable st"
    and "join rid cid p max_participants st = (Joined (ch, pos) peers, st1)"
    and "state_step\<^sup>*\<^sup>* st1 st2"
    and "map_of (st_rooms st2) rid = Some room" "rm_tx room = ch"
  shows "replay (drop pos (st_channels st2 ! ch)) (peers_map peers) = map_of (rm_participants room)
    \<and> pos < length (st_channels st2 ! ch)
    \<and> st_channels st2 ! ch ! pos = PeerJoined cid (pt_public_key p) (pt_pq_public_key p) (pt_sig p)"
proof -
  let ?ev = "PeerJoined cid (pt_public_key p) (pt_pq_public_key p) (pt_sig p)"
  have inv: "rooms_inv st" using assms(1) by (rule reachable_inv)
  obtain room0 where r0: "map_of (st_rooms st) rid = Some room0" "ch = rm_tx room0"
      "pos = length (st_channels st ! ch)" "peers = snapshot (rm_participants room0)"
      "st_channels st1 = channel_send ch ?ev (st_channels st)"
    using join_Joined [OF assms(2)] by metis
  have ch: "ch < length (st_channels st)" using rooms_invD(1) [OF inv r0(1)] r0(2) by simp
  then have log1: "st_channels st1 ! ch = st_channels st ! ch @ [?ev]" "ch < length (st_channels st1)"
    by (simp_all add: r0(5))
  then obtain later where log2: "st_channels st2 ! ch = st_channels st ! ch @ ?ev # later"
    using extends_nth [OF state_steps_extend [OF assms(3)], of ch] by (auto simp: prefix_def)
  have "state_reachable st1"
    using reachable_step [OF assms(1) state_step.join] assms(2) by (metis snd_conv)
  then have "state_reachable st2"
    using assms(3) by (auto simp: state_reachable_def intro: rtranclp_trans)
  then have "map_of (rm_participants room) = replay (st_channels st2 ! ch) Map.empty"
    using rooms_invD(3) [OF reachable_inv assms(4)] assms(5) by simp
  also have "\<dots> = replay (?ev # later) (map_of (rm_participants room0))"
    using rooms_invD(3) [OF inv r0(1), folded r0(2)] by (simp add: log2)
  finally show ?thesis by (simp add: log2 r0(3,4))
qed

theorem snapshot_then_events_witness:
  "replay (drop 0 [PeerJoined ''x'' ''k'' ''q'' None, PeerJoined ''y'' ''k'' ''q'' None]) (peers_map [])
   = map_of [(''x'', sample_participant), (''y'', sample_participant)]"
proof -
  let ?st2 = "snd (join ''a'' ''y'' sample_participant max_participants sample_joined)"
  have j: "join ''a'' ''x'' sample_participant max_participants sample_attached = (Joined (0, 0) [], sample_joined)"
    unfolding sample_joined_def by code_simp
  have st2: "state_step\<^sup>*\<^sup>* sample_joined ?st2" by (rule r_into_rtranclp [where r = state_step]) (rule state_step.join)
  have room: "map_of (st_rooms ?st2) ''a'' = Some \<lparr>rm_tx = 0, rm_creator_id = Some ''x'',
      rm_participants = [(''x'', sample_participant), (''y'', sample_participant)]\<rparr>"
    by code_simp
  have "st_channels ?st2 ! 0 = [PeerJoined ''x'' ''k'' ''q'' None, PeerJoined ''y'' ''k'' ''q'' None]"
    by code_simp
  with snapshot_then_events [OF sample_reachable(2) j st2 room] show ?thesis
    by (simp add: sample_participant_def)
qed

text \<open>
  No room ever holds more than sixteen participants, and a join is refused for lack of space only
  when the room holds sixteen.
\<close>

lemma room_capacity:
  assumes "state_reachable st" "map_of (st_rooms st) rid = Some room"
  shows "length (rm_participants room) \<le> 16
    \<and> (fst (join rid cid p max_participants st) = Full \<longleftrightarrow> length (rm_participants room) = 16)"
  using rooms_invD(4) [OF reachable_inv [OF assms(1)] assms(2)] assms(2)
  by (auto simp: join_def Let_def max_participants_def)

lemma room_capacity_example:
  "fst (join ''a'' ''y'' sample_participant max_participants sample_joined) \<noteq> Full"
proof -
  have room: "map_of (st_rooms sample_joined) ''a'' = Some \<lparr>rm_tx = 0, rm_creator_id = Some ''x'',
      rm_participants = [(''x'', sample_participant)]\<rparr>"
    by code_simp
  from room_capacity [OF sample_reachable(3) room] show ?thesis by simp
qed

section \<open>Expiry\<close>

lemma remove_rooms_other_log:
  assumes "\<And>k r. map_of (st_rooms st) k = Some r \<Longrightarrow> rm_tx r \<noteq> tx" "tx < length (st_channels st)"
  shows "st_channels (remove_rooms ks st) ! tx = st_channels st ! tx"
  using assms
proof (induction ks arbitrary: st)
  case (Cons k ks)
  show ?case
  proof (cases "map_of (st_rooms st) k")
    case (Some room)
    have "st_channels (send_event (rm_tx room) RoomExpired (st\<lparr>st_rooms := AList.delete k (st_rooms st)\<rparr>)) ! tx
        = st_channels st ! tx"
      using Cons.prems(1) [OF Some] by (simp add: send_event_def channel_send_def)
    moreover have "rm_tx r \<noteq> tx"
      if "map_of (st_rooms (send_event (rm_tx room) RoomExpired (st\<lparr>st_rooms := AList.delete k (st_rooms st)\<rparr>))) k' = Some r"
      for k' r
      using that Cons.prems(1) by (auto simp: send_event_def delete_conv' split: if_splits)
    ultimately show ?thesis
      using Cons.IH [of "send_event (rm_tx room) RoomExpired (st\<lparr>st_rooms := AList.delete k (st_rooms st)\<rparr>)"]
        Cons.prems(2) Some
      by (simp add: send_event_def)
  qed (use Cons in simp)
qed simp

lemma remove_rooms_log:
  assumes "rooms_inv st" "distinct ks" "map_of (st_rooms st) k = Some room"
  shows "st_channels (remove_rooms ks st) ! rm_tx room
    = st_channels st ! rm_tx room @ (if k \<in> set ks then [RoomExpired] else [])"
  using assms
proof (induction ks arbitrary: st)
  case (Cons j ks)
  show ?case
  proof (cases "map_of (st_rooms st) j")
    case None
    with Cons show ?thesis by auto
  next
    case (Some r)
    let ?st = "send_event (rm_tx r) RoomExpired (st\<lparr>st_rooms := AList.delete j (st_rooms st)\<rparr>)"
    note inv = rooms_inv_remove [OF Cons.prems(1) Some, of RoomExpired]
    note tx = rooms_inv_tx [OF Cons.prems(1)] and len = rooms_invD(1) [OF Cons.prems(1) Some]
    show ?thesis
    proof (cases "k = j")
      case True
      then have r: "r = room" using Some Cons.prems(3) by simp
      have "st_channels (remove_rooms ks ?st) ! rm_tx room = st_channels ?st ! rm_tx room"
      proof (rule remove_rooms_other_log)
        show "rm_tx r' \<noteq> rm_tx room" if "map_of (st_rooms ?st) k' = Some r'" for k' r'
          using that tx [OF Cons.prems(3), of k' r'] True
          by (auto simp: send_event_def delete_conv' split: if_splits)
      qed (use len r in \<open>simp add: send_event_def\<close>)
      then show ?thesis using True Some r len by (simp add: send_event_def)
    next
      case False
      have "map_of (st_rooms ?st) k = Some room"
        using False Cons.prems(3) by (simp add: send_event_def delete_conv')
      from Cons.IH [OF inv _ this] Cons.prems(2) Some False tx [OF Some Cons.prems(3)] len show ?thesis
        by (auto simp: send_event_def)
    qed
  qed
qed simp

lemma expire_log:
  assumes "rooms_inv st" "expire_inactive_rooms c t st = (Inr ids, st')" "map_of (st_rooms st) rid = Some room"
  shows "st_channels st' ! rm_tx room
    = st_channels st ! rm_tx room @ (if rid \<in> set ids then [RoomExpired] else [])"
proof -
  have db: "db_inv (st_db st)" using assms(1) by (simp add: rooms_inv_def)
  have "distinct ids"
    using store.purge_ok [OF db conjunct1 [OF expire_cases(2) [OF assms(1,2) refl]]] by blast
  moreover have "st_channels st' = st_channels (remove_rooms ids st)"
    using assms(2) by (auto simp: expire_inactive_rooms_def remove_rooms_db split: sum.splits prod.splits)
  ultimately show ?thesis using remove_rooms_log [OF assms(1) _ assms(3)] by simp
qed

text \<open>A purge that succeeds: its rooms are out of memory and told so once, the others are as before.\<close>

lemma expiry_at_once:
  assumes "rooms_inv st" "expire_inactive_rooms c t st = (Inr ids, st')" "map_of (st_rooms st) rid = Some room"
  shows "if rid \<in> set ids
    then map_of (st_rooms st') rid = None
      \<and> st_channels st' ! rm_tx room = st_channels st ! rm_tx room @ [RoomExpired]
    else map_of (st_rooms st') rid = Some room \<and> st_channels st' ! rm_tx room = st_channels st ! rm_tx room"
  using expire_cases(2) [OF assms(1,2) refl] expire_log [OF assms] assms(3) by (auto simp: restrict_map_def)

section \<open>The creator\<close>

text \<open>
  The creator of a room changes only when the room has no participants: any step of the backend
  that keeps a room in memory with participants keeps its creator.
\<close>

lemma creator_stable:
  assumes "state_step st st'" "rooms_inv st"
    and "map_of (st_rooms st) rid = Some room" "rm_creator_id room = Some cid"
    and "map_of (st_rooms st') rid = Some room'" "rm_participants room' \<noteq> []"
  shows "rm_creator_id room' = Some cid"
  using assms
proof cases
  case (attach c k d)
  then show ?thesis
    using assms(3-6)
    by (cases "k = rid"; cases "map_of (st_rooms st) k")
      (auto simp: attach_def room_entry_def room_new_def channel_new_def put_room_def Let_def update_conv'
        simp del: map_of_eq_Some_iff split: sum.splits bool.splits if_splits)
next
  case (join k d p)
  then show ?thesis
    using assms(3-6)
    by (cases "k = rid"; cases "map_of (st_rooms st) k")
      (auto simp: join_def put_room_def send_event_def Let_def update_conv'
        simp del: map_of_eq_Some_iff split: if_splits)
next
  case (detach k d)
  then show ?thesis
    using assms(3-6)
    by (cases "k = rid"; cases "map_of (st_rooms st) k")
      (auto simp: detach_def put_room_def send_event_def Let_def update_conv'
        simp del: map_of_eq_Some_iff split: if_splits)
next
  case (expire c t)
  obtain r where "expire_inactive_rooms c t st = (r, st')" using expire by (metis prod.collapse)
  then show ?thesis
    using expire_cases(2) [OF assms(2), of c t r st'] expire_cases(3) [OF assms(2), of c t r st'] assms(3-5)
    by (cases r) (auto simp: restrict_map_def simp del: map_of_eq_Some_iff split: if_splits)
qed (simp_all add: send_event_def)

lemma creator_stable_example:
  "rm_creator_id (the (map_of (st_rooms (snd (join ''a'' ''y'' sample_participant max_participants sample_joined))) ''a''))
   = Some ''x''"
proof -
  let ?st2 = "snd (join ''a'' ''y'' sample_participant max_participants sample_joined)"
  have before: "map_of (st_rooms sample_joined) ''a'' = Some \<lparr>rm_tx = 0, rm_creator_id = Some ''x'',
      rm_participants = [(''x'', sample_participant)]\<rparr>"
    by code_simp
  obtain room' where after: "map_of (st_rooms ?st2) ''a'' = Some room'" "rm_participants room' \<noteq> []"
    by (rule that) (code_simp, simp)
  from creator_stable [OF state_step.join reachable_inv [OF sample_reachable(3)] before _ after]
  show ?thesis by (simp add: after)
qed

text \<open>
  C38. The creator is not unique: a connection that attaches first is told it created the room; when a
  second one attaches and goes before anyone has joined, the creator is forgotten although the first is
  still attached, and the next connection to attach is told that it created the room as well. Both then
  join the same room, each as its creator.
\<close>

theorem two_creators:
  assumes "map_of (db_rows (st_db st)) rid \<noteq> None" "has_columns (st_db st) [''id'']"
    and "map_of (st_rooms st) rid = None" "call_ok c"
    and "attach c rid a st = (ra, st1)" "attach c rid b st1 = (rb, st2)" "attach c rid d (detach rid b st2) = (rd, st3)"
  shows "ra = Inr (Some (length (st_channels st), True, Some a))
    \<and> rb = Inr (Some (length (st_channels st), False, Some a))
    \<and> rd = Inr (Some (length (st_channels st), True, Some d))"
proof -
  have st1: "ra = Inr (Some (length (st_channels st), True, Some a))" "st_db st1 = st_db st"
    "map_of (st_rooms st1) rid = Some \<lparr>rm_tx = length (st_channels st), rm_creator_id = Some a, rm_participants = []\<rparr>"
    using assms(1-5) by (auto simp: attach_def room_exists_def room_entry_def room_new_def channel_new_def
        put_room_def Let_def update_conv' simp del: map_of_eq_Some_iff)
  have st2: "rb = Inr (Some (length (st_channels st), False, Some a))" "st_db st2 = st_db st"
    "map_of (st_rooms st2) rid = Some \<lparr>rm_tx = length (st_channels st), rm_creator_id = Some a, rm_participants = []\<rparr>"
    using st1 assms(1,2,4,6) by (auto simp: attach_def room_exists_def room_entry_def
        put_room_def Let_def update_conv' simp del: map_of_eq_Some_iff)
  have "rd = Inr (Some (length (st_channels st), True, Some d))"
    using st2 assms(1,2,4,7) by (auto simp: attach_def detach_def room_exists_def room_entry_def
        put_room_def Let_def update_conv' simp del: map_of_eq_Some_iff)
  with st1 st2 show ?thesis by simp
qed

theorem two_creators_witness:
  "fst (attach (sample_call 1) ''a'' ''z'' (detach ''a'' ''y'' sample_attached)) = Inr (Some (0, True, Some ''z''))"
proof -
  have pre: "map_of (db_rows (st_db sample_state)) ''a'' \<noteq> None" "has_columns (st_db sample_state) [''id'']"
      "map_of (st_rooms sample_state) ''a'' = None" "call_ok (sample_call 1)"
      "length (st_channels sample_state) = 0"
    by code_simp+
  show ?thesis
    using two_creators [OF pre(1-4) surjective_pairing surjective_pairing surjective_pairing,
        of "''x''" "''y''" "''z''"] pre(5)
    by (simp only: sample_attached_def)
qed

end
