(* ===== verification/Cleanup.thy ===== *)
theory Cleanup
imports Membership
begin

text \<open>
  The background tasks of \<open>src/cleanup.rs\<close>: one maintains the admission control every minute, one
  expires inactive rooms with the period and the threshold of the configuration. A tick is a step; the
  times of the ticks, and whether the database answers, are arguments; which ticks a server has is in
  \<open>Server\<close>. \<open>tokio::time::interval\<close> panics
  on a zero period, as documented, which ends the task before its first tick.
\<close>

section \<open>The tasks\<close>

text \<open>\<open>interval(Duration::from_secs(n))\<close>: \<open>None\<close> is the panic.\<close>

definition interval_new :: "u64 \<Rightarrow> u64 option" where
  "interval_new n = (if n = 0 then None else Some n)"

definition cleanup_period :: "config \<Rightarrow> u64 option" where
  "cleanup_period cfg = interval_new (cfg_cleanup_interval_mins cfg * 60)"

definition maintenance_tick :: "instant \<Rightarrow> app_state \<Rightarrow> app_state" where
  "maintenance_tick now st = st\<lparr>st_admission := snd (maintain now (st_admission st))\<rparr>"

datatype cleanup_log = Silent | DeletedRooms nat | CleanupFailed sqlx_error

definition cleanup_tick :: "i64 \<Rightarrow> db_call \<Rightarrow> app_state \<Rightarrow> cleanup_log \<times> app_state" where
  "cleanup_tick expiry_secs c st =
     (case expire_inactive_rooms c expiry_secs st of
        (Inr deleted, st') \<Rightarrow> (if deleted = [] then Silent else DeletedRooms (length deleted), st')
      | (Inl e, st') \<Rightarrow> (CleanupFailed e, st'))"

lemma cleanup_tick_state [simp]: "snd (cleanup_tick t c st) = snd (expire_inactive_rooms c t st)"
  by (simp add: cleanup_tick_def split: prod.splits sum.splits)

lemma cleanup_tick_step [inv_intros]: "state_step st (snd (cleanup_tick t c st))"
  by (simp add: state_step.expire)

lemma maintenance_tick_step [inv_intros]: "state_step st (maintenance_tick now st)"
  by (simp add: maintenance_tick_def state_step.admission)

section \<open>What a tick deletes\<close>

text \<open>
  C30. With any period of at most 2562047788015215 hours, a tick of the cleanup task that reaches the
  database deletes exactly the rooms whose last activity is more than that many hours ago: none that is
  younger, and afterwards none that is older is left, in the database or in memory.
\<close>

theorem cleanup_exact:
  assumes "state_reachable st"
    and "uint (cfg_inactivity_expiry_hours (st_config st)) \<le> 2562047788015215"
    and "uint (call_clock c) < 2 ^ 63"
    and "cleanup_tick (inactivity_expiry_secs (st_config st)) c st = (l, st')" "\<not> (\<exists>e. l = CleanupFailed e)"
  shows "map_of (db_rows (st_db st')) rid =
      (case map_of (db_rows (st_db st)) rid of
         None \<Rightarrow> None
       | Some row \<Rightarrow>
           if sint (row_last_activity row) + 3600 * uint (cfg_inactivity_expiry_hours (st_config st)) < uint (call_clock c)
           then None else Some row)
    \<and> (map_of (db_rows (st_db st')) rid = None \<longrightarrow> map_of (st_rooms st') rid = None)"
proof -
  let ?t = "inactivity_expiry_secs (st_config st)"
  have inv: "rooms_inv st" using assms(1) by (rule reachable_inv)
  have t: "sint ?t = 3600 * uint (cfg_inactivity_expiry_hours (st_config st))"
    by (rule inactivity_expiry_exact [OF assms(2)])
  obtain ids where ex: "expire_inactive_rooms c ?t st = (Inr ids, st')"
    using assms(4,5) by (auto simp: cleanup_tick_def split: prod.splits sum.splits if_splits)
  have "db_inv (st_db st)" using inv by (simp add: rooms_inv_def)
  then have "set ids = {rid. \<exists>row. map_of (db_rows (st_db st)) rid = Some row
                        \<and> sint (row_last_activity row) + sint ?t < uint (call_clock c)}
    \<and> map_of (db_rows (st_db st')) = map_of (db_rows (st_db st)) |` (- set ids)"
    using delete_inactive_exact [OF _ conjunct1 [OF expire_cases(2) [OF inv ex refl]] _ assms(3)] t
    by simp
  moreover have "rooms_inv st'" by (rule expire_cases(1) [OF inv ex])
  then have "map_of (st_rooms st') rid = None" if "map_of (db_rows (st_db st')) rid = None"
    using rooms_invD(5) [of st' rid] that
    by (cases "map_of (st_rooms st') rid") (auto simp: store.password_def db_view_def)
  ultimately show ?thesis
    by (auto simp: t restrict_map_def split: option.splits)
qed

theorem cleanup_exact_witness:
  "\<exists>st'. cleanup_tick (inactivity_expiry_secs (st_config sample_state)) (sample_call 86450) sample_state
      = (DeletedRooms 1, st')
     \<and> map_of (db_rows (st_db st')) ''a'' = None \<and> map_of (db_rows (st_db st')) ''b'' \<noteq> None"
proof -
  let ?t = "inactivity_expiry_secs (st_config sample_state)"
  obtain st' where tick: "cleanup_tick ?t (sample_call 86450) sample_state = (DeletedRooms 1, st')"
    by (rule that [OF prod_eqI]) (code_simp, simp)
  have rows: "map_of (db_rows (st_db sample_state)) ''a'' \<noteq> None"
      "row_last_activity (the (map_of (db_rows (st_db sample_state)) ''a'')) = 10"
      "map_of (db_rows (st_db sample_state)) ''b'' \<noteq> None"
      "row_last_activity (the (map_of (db_rows (st_db sample_state)) ''b'')) = 90"
    by code_simp+
  note exact = cleanup_exact [OF sample_reachable(1) _ _ tick]
  have hours: "uint (cfg_inactivity_expiry_hours (st_config sample_state)) = 24"
    by (simp add: sample_state_def app_state_new_def sample_config_def)
  show ?thesis
    using exact [of "''a''"] exact [of "''b''"] rows tick
    by (auto simp: hours sample_call_def split: option.splits)
qed

section \<open>A threshold that wraps\<close>

text \<open>
  C39. The product with 3600 wraps: with 5124095576030432 hours, which start-up accepts as any number
  below \<open>2 ^ 64\<close>, the threshold is 3584 seconds, and a tick deletes a room that was active an hour ago.
\<close>

theorem expiry_hours_overflow:
  assumes "state_reachable st" "cfg_inactivity_expiry_hours (st_config st) = 5124095576030432"
    and "map_of (db_rows (st_db st)) rid = Some row"
    and "sint (row_last_activity row) + 3600 = uint (call_clock c)" "uint (call_clock c) < 2 ^ 63"
    and "cleanup_tick (inactivity_expiry_secs (st_config st)) c st = (l, st')" "\<not> (\<exists>e. l = CleanupFailed e)"
  shows "map_of (db_rows (st_db st')) rid = None"
proof -
  let ?t = "inactivity_expiry_secs (st_config st)"
  have inv: "rooms_inv st" using assms(1) by (rule reachable_inv)
  have t: "sint ?t = 3584"
    using inactivity_expiry_wraps(1) [of "st_config st"] assms(2) by (metis config.surjective config.update_convs(6))
  obtain ids where ex: "expire_inactive_rooms c ?t st = (Inr ids, st')"
    using assms(6,7) by (auto simp: cleanup_tick_def split: prod.splits sum.splits if_splits)
  have "db_inv (st_db st)" using inv by (simp add: rooms_inv_def)
  from delete_inactive_exact [OF this conjunct1 [OF expire_cases(2) [OF inv ex refl]] _ assms(5)]
  show ?thesis using assms(3,4) t by (auto simp: restrict_map_def)
qed

definition overflow_state :: app_state where
  "overflow_state = app_state_new sample_database
     (sample_config\<lparr>cfg_inactivity_expiry_hours := 5124095576030432\<rparr>)"

theorem expiry_hours_overflow_witness:
  "map_of (db_rows (st_db (snd (cleanup_tick (inactivity_expiry_secs (st_config overflow_state))
      (sample_call 3690) overflow_state)))) ''b'' = None"
proof -
  let ?t = "inactivity_expiry_secs (st_config overflow_state)"
  have r: "state_reachable overflow_state"
    unfolding overflow_state_def by (rule reachable_new) code_simp
  obtain st' where tick: "cleanup_tick ?t (sample_call 3690) overflow_state = (DeletedRooms 2, st')"
    by (rule that [OF prod_eqI]) (code_simp, simp)
  obtain row where row: "map_of (db_rows (st_db overflow_state)) ''b'' = Some row" "row_last_activity row = 90"
    by (rule that) (code_simp, simp)
  show ?thesis
    using expiry_hours_overflow [OF r _ row(1) _ _ tick] row(2) tick
    by (simp add: overflow_state_def app_state_new_def sample_call_def)
qed

end
