(* ===== verification/Json.thy ===== *)
theory Json
imports RustStd
begin

text \<open>
  JSON values and what the derived \<open>serde\<close> code does with them. The text of a value is the business
  of \<open>serde_json\<close>; the attributes in the source (\<open>default\<close>, \<open>deny_unknown_fields\<close>, \<open>tag\<close>, \<open>other\<close>)
  say how a value is read into a type, and these rules are modelled here: an object keeps its entries
  in order with duplicates, a field given twice is an error, an array is read field by field, and an
  internally tagged enum takes its tag out first.
\<close>

datatype json =
    JNull
  | JBool bool
  | JInt int
  | JFloat rat
  | JStr string
  | JArr "json list"
  | JObj "(string \<times> json) list"

section \<open>Fields\<close>

fun as_string :: "json \<Rightarrow> string option" where
  "as_string (JStr s) = Some s"
| "as_string _ = None"

fun as_u64 :: "json \<Rightarrow> u64 option" where
  "as_u64 (JInt n) = (if 0 \<le> n \<and> n < 2 ^ 64 then Some (word_of_int n) else None)"
| "as_u64 _ = None"

text \<open>An \<open>Option<T>\<close>: \<open>null\<close> is \<open>None\<close>.\<close>

definition as_option :: "(json \<Rightarrow> 'a option) \<Rightarrow> json \<Rightarrow> 'a option option" where
  "as_option f j = (if j = JNull then Some None else map_option Some (f j))"

definition entries_of :: "string \<Rightarrow> (string \<times> json) list \<Rightarrow> json list" where
  "entries_of k es = map snd (filter (\<lambda>e. fst e = k) es)"

text \<open>A required field, and an optional one that defaults to \<open>None\<close>; a duplicate is an error.\<close>

definition required_field :: "(json \<Rightarrow> 'a option) \<Rightarrow> string \<Rightarrow> (string \<times> json) list \<Rightarrow> 'a option" where
  "required_field f k es = (case entries_of k es of [j] \<Rightarrow> f j | _ \<Rightarrow> None)"

definition default_field ::
  "(json \<Rightarrow> 'a option) \<Rightarrow> string \<Rightarrow> (string \<times> json) list \<Rightarrow> 'a option option" where
  "default_field f k es = (case entries_of k es of [] \<Rightarrow> Some None | [j] \<Rightarrow> as_option f j | _ \<Rightarrow> None)"

text \<open>
  An array stands for the fields in their order. \<open>seq_entries\<close> names its elements; more elements
  than fields are an error.
\<close>

definition seq_entries :: "string list \<Rightarrow> json list \<Rightarrow> (string \<times> json) list option" where
  "seq_entries ks js = (if length js \<le> length ks then Some (zip ks js) else None)"

text \<open>
  The content of a struct with the given field names: the entries of an object, or of an array.
\<close>

definition struct_entries :: "string list \<Rightarrow> json \<Rightarrow> (string \<times> json) list option" where
  "struct_entries ks j =
     (case j of JObj es \<Rightarrow> Some es | JArr js \<Rightarrow> seq_entries ks js | _ \<Rightarrow> None)"

section \<open>Internally tagged enums\<close>

text \<open>
  \<open>#[serde(tag = "type")]\<close>: the one entry \<open>type\<close> of an object, or the first element of an array, is
  the tag and has to be a string; the rest is the content.
\<close>

definition take_tag :: "json \<Rightarrow> (string \<times> json) option" where
  "take_tag j =
     (case j of
        JObj es \<Rightarrow>
          (case entries_of ''type'' es of
             [t] \<Rightarrow> map_option (\<lambda>tag. (tag, JObj (filter (\<lambda>e. fst e \<noteq> ''type'') es))) (as_string t)
           | _ \<Rightarrow> None)
      | JArr (t # js) \<Rightarrow> map_option (\<lambda>tag. (tag, JArr js)) (as_string t)
      | _ \<Rightarrow> None)"

section \<open>Writing\<close>

text \<open>\<open>skip_serializing_if = "Option::is_none"\<close>\<close>

definition optional_entry :: "string \<Rightarrow> ('a \<Rightarrow> json) \<Rightarrow> 'a option \<Rightarrow> (string \<times> json) list" where
  "optional_entry k f x = (case x of None \<Rightarrow> [] | Some y \<Rightarrow> [(k, f y)])"

definition json_u64 :: "u64 \<Rightarrow> json" where
  "json_u64 n = JInt (uint n)"

definition tagged :: "string \<Rightarrow> (string \<times> json) list \<Rightarrow> json" where
  "tagged tag es = JObj ((''type'', JStr tag) # es)"

section \<open>Reading what was written\<close>

lemma entries_of_Nil [simp]: "entries_of k [] = []"
  by (simp add: entries_of_def)

lemma entries_of_Cons [simp]:
  "entries_of k ((k', j) # es) = (if k' = k then j # entries_of k es else entries_of k es)"
  by (simp add: entries_of_def)

lemma entries_of_append [simp]: "entries_of k (es @ es') = entries_of k es @ entries_of k es'"
  by (simp add: entries_of_def)

lemma entries_of_optional [simp]:
  "entries_of k (optional_entry k' f x) =
     (if k' = k then case x of None \<Rightarrow> [] | Some y \<Rightarrow> [f y] else [])"
  by (simp add: optional_entry_def split: option.splits)

lemma as_u64_json [simp]: "as_u64 (json_u64 n) = Some n"
  using uint_lt2p [of n] by (simp add: json_u64_def)

lemma json_u64_not_null [simp]: "json_u64 n \<noteq> JNull"
  by (simp add: json_u64_def)

lemma json_u64_inj [simp]: "json_u64 m = json_u64 n \<longleftrightarrow> m = n"
  by (auto simp: json_u64_def word_uint_eq_iff)

lemma as_option_simps [simp]:
  "as_option f JNull = Some None" "as_option as_string (JStr s) = Some (Some s)"
  "as_option as_u64 (json_u64 n) = Some (Some n)"
  by (simp_all add: as_option_def)

lemma tagged_inj [simp]: "tagged t es = tagged t' es' \<longleftrightarrow> t = t' \<and> es = es'"
  by (auto simp: tagged_def)

lemma take_tag_tagged:
  "''type'' \<notin> fst ` set es \<Longrightarrow> take_tag (tagged tag es) = Some (tag, JObj es)"
proof -
  assume "''type'' \<notin> fst ` set es"
  then have "entries_of ''type'' es = []" "filter (\<lambda>e. fst e \<noteq> ''type'') es = es"
    by (force simp: entries_of_def filter_empty_conv filter_id_conv)+
  then show ?thesis by (simp add: take_tag_def tagged_def)
qed

lemma optional_entry_inj:
  "(\<And>x y. f x = f y \<longleftrightarrow> x = y) \<Longrightarrow> optional_entry k f x = optional_entry k f y \<longleftrightarrow> x = y"
  by (auto simp: optional_entry_def split: option.splits)

lemma keys_optional_entry: "fst ` set (optional_entry k f x) \<subseteq> {k}"
  by (auto simp: optional_entry_def split: option.splits)

end
