(* ===== verification/Wire.thy ===== *)
theory Wire
imports State Json
begin

text \<open>
  The messages of the WebSocket protocol, from \<open>src/routes/ws.rs\<close>: what a client may send, what the
  server sends, how each is read from or written to JSON under its \<open>serde\<close> attributes, and the
  conversion of room events. \<open>serde_json\<close> itself, between text and JSON value, is a parameter of the
  sessions.
\<close>

section \<open>From the client\<close>

datatype incoming_message =
    InKeyAnnounce "string option" "string option" "string option"
  | InMessage "string option" "u64 option" "u64 option"
  | InTreeCommit "string option"
  | InTreeWelcome "string option" "string option"
  | InTyping
  | InUnknown

text \<open>A unit variant takes any object, and an array with nothing after the tag.\<close>

definition unit_content :: "json \<Rightarrow> bool" where
  "unit_content j = (case j of JObj _ \<Rightarrow> True | JArr js \<Rightarrow> js = [] | _ \<Rightarrow> False)"

definition decode_incoming :: "json \<Rightarrow> incoming_message option" where
  "decode_incoming j =
     (case take_tag j of
        None \<Rightarrow> None
      | Some (tag, content) \<Rightarrow>
          if tag = ''key_announce'' then
            (case struct_entries [''public_key'', ''pq_public_key'', ''sig''] content of
               None \<Rightarrow> None
             | Some es \<Rightarrow>
                 (case (default_field as_string ''public_key'' es, default_field as_string ''pq_public_key'' es,
                        default_field as_string ''sig'' es) of
                    (Some a, Some b, Some c) \<Rightarrow> Some (InKeyAnnounce a b c)
                  | _ \<Rightarrow> None))
          else if tag = ''message'' then
            (case struct_entries [''payload'', ''epoch'', ''counter''] content of
               None \<Rightarrow> None
             | Some es \<Rightarrow>
                 (case (default_field as_string ''payload'' es, default_field as_u64 ''epoch'' es,
                        default_field as_u64 ''counter'' es) of
                    (Some a, Some b, Some c) \<Rightarrow> Some (InMessage a b c)
                  | _ \<Rightarrow> None))
          else if tag = ''tree_commit'' then
            (case struct_entries [''tree_commit''] content of
               None \<Rightarrow> None
             | Some es \<Rightarrow> map_option InTreeCommit (default_field as_string ''tree_commit'' es))
          else if tag = ''tree_welcome'' then
            (case struct_entries [''tree_welcome'', ''target_peer_id''] content of
               None \<Rightarrow> None
             | Some es \<Rightarrow>
                 (case (default_field as_string ''tree_welcome'' es, default_field as_string ''target_peer_id'' es) of
                    (Some a, Some b) \<Rightarrow> Some (InTreeWelcome a b)
                  | _ \<Rightarrow> None))
          else if tag = ''typing'' then (if unit_content content then Some InTyping else None)
          else if unit_content content then Some InUnknown else None)"

text \<open>\<open>Authentication::Authenticate { password }\<close>, with \<open>deny_unknown_fields\<close>.\<close>

definition decode_authentication :: "json \<Rightarrow> string option" where
  "decode_authentication j =
     (case take_tag j of
        None \<Rightarrow> None
      | Some (tag, content) \<Rightarrow>
          if tag \<noteq> ''authenticate'' then None
          else case struct_entries [''password''] content of
            None \<Rightarrow> None
          | Some es \<Rightarrow>
              if list_all (\<lambda>e. fst e = ''password'') es then required_field as_string ''password'' es else None)"

section \<open>To the client\<close>

datatype outgoing_message =
    AuthRequired u32
  | AuthFailed
  | AuthRateLimited u64
  | AuthUnavailable
  | OutJoined
  | Welcome u32 string bool "string option"
  | PeerKey string string string "string option"
  | OutPeerJoined string string string "string option"
  | OutPeerLeft string
  | OutMessage string string "u64 option" "u64 option"
  | OutTreeCommit string string
  | OutTyping string
  | OutRoomExpired
  | OutTreeWelcome string
  | RoomFull

fun outgoing_of_event :: "room_event \<Rightarrow> outgoing_message" where
  "outgoing_of_event (Chat from payload epoch counter) = OutMessage from payload epoch counter"
| "outgoing_of_event (TreeCommit from tree_data) = OutTreeCommit from tree_data"
| "outgoing_of_event (TreeWelcome _ _ tree_data) = OutTreeWelcome tree_data"
| "outgoing_of_event (PeerJoined from public_key pq_public_key sig) =
     OutPeerJoined from public_key pq_public_key sig"
| "outgoing_of_event (PeerLeft from) = OutPeerLeft from"
| "outgoing_of_event (Typing from) = OutTyping from"
| "outgoing_of_event RoomExpired = OutRoomExpired"

fun outgoing_json :: "outgoing_message \<Rightarrow> json" where
  "outgoing_json (AuthRequired v) = tagged ''auth_required'' [(''protocol_version'', JInt (uint v))]"
| "outgoing_json AuthFailed = tagged ''auth_failed'' []"
| "outgoing_json (AuthRateLimited n) = tagged ''auth_rate_limited'' [(''retry_after_secs'', json_u64 n)]"
| "outgoing_json AuthUnavailable = tagged ''auth_unavailable'' []"
| "outgoing_json OutJoined = tagged ''joined'' []"
| "outgoing_json (Welcome v peer_id is_creator creator_id) = tagged ''welcome''
     ([(''protocol_version'', JInt (uint v)), (''peer_id'', JStr peer_id), (''is_creator'', JBool is_creator)]
      @ optional_entry ''creator_id'' JStr creator_id)"
| "outgoing_json (PeerKey peer_id pk pq sig) = tagged ''peer_key''
     ([(''peer_id'', JStr peer_id), (''public_key'', JStr pk), (''pq_public_key'', JStr pq)]
      @ optional_entry ''sig'' JStr sig)"
| "outgoing_json (OutPeerJoined peer_id pk pq sig) = tagged ''peer_joined''
     ([(''peer_id'', JStr peer_id), (''public_key'', JStr pk), (''pq_public_key'', JStr pq)]
      @ optional_entry ''sig'' JStr sig)"
| "outgoing_json (OutPeerLeft peer_id) = tagged ''peer_left'' [(''peer_id'', JStr peer_id)]"
| "outgoing_json (OutMessage peer_id payload epoch counter) = tagged ''message''
     ([(''peer_id'', JStr peer_id), (''payload'', JStr payload)]
      @ optional_entry ''epoch'' json_u64 epoch @ optional_entry ''counter'' json_u64 counter)"
| "outgoing_json (OutTreeCommit peer_id tree_commit) = tagged ''tree_commit''
     [(''peer_id'', JStr peer_id), (''tree_commit'', JStr tree_commit)]"
| "outgoing_json (OutTyping peer_id) = tagged ''typing'' [(''peer_id'', JStr peer_id)]"
| "outgoing_json OutRoomExpired = tagged ''room_expired'' []"
| "outgoing_json (OutTreeWelcome tree_welcome) = tagged ''tree_welcome'' [(''tree_welcome'', JStr tree_welcome)]"
| "outgoing_json RoomFull = tagged ''room_full'' []"

section \<open>What the formats guarantee\<close>

lemma optional_JStr_inj [simp]: "optional_entry k JStr x = optional_entry k JStr y \<longleftrightarrow> x = y"
  by (rule optional_entry_inj) simp

lemma optional_u64_inj [simp]: "optional_entry k json_u64 x = optional_entry k json_u64 y \<longleftrightarrow> x = y"
  by (rule optional_entry_inj) simp

lemma optional_two_inj [simp]:
  "k \<noteq> k' \<Longrightarrow> optional_entry k json_u64 x @ optional_entry k' json_u64 y
      = optional_entry k json_u64 x' @ optional_entry k' json_u64 y' \<longleftrightarrow> x = x' \<and> y = y'"
  by (auto simp: optional_entry_def split: option.splits)

lemma uint_eq_iff [simp]: "uint a = uint b \<longleftrightarrow> a = b"
  by (auto simp: word_uint_eq_iff)

text \<open>
  No two messages of the server look the same: the JSON of a message determines its kind and
  every field, absent optional fields included.
\<close>

lemma outgoing_json_injective: "outgoing_json m = outgoing_json m' \<longleftrightarrow> m = m'"
  by (cases m; cases m'; simp)

lemma as_string_iff [simp]: "as_string j = Some s \<longleftrightarrow> j = JStr s"
  by (cases j) auto

lemma required_field_iff: "required_field f k es = Some x \<longleftrightarrow> (\<exists>j. entries_of k es = [j] \<and> f j = Some x)"
  by (auto simp: required_field_def split: list.splits)

lemma two_entries:
  assumes "entries_of k es = [x]" "entries_of k' (filter (\<lambda>e. fst e \<noteq> k) es) = [y]"
    and "list_all (\<lambda>e. fst e = k') (filter (\<lambda>e. fst e \<noteq> k) es)" "k \<noteq> k'"
  shows "es = [(k, x), (k', y)] \<or> es = [(k', y), (k, x)]"
proof -
  have 1: "length (filter (\<lambda>e. fst e = k) es) = 1"
    using assms(1) by (metis entries_of_def length_map One_nat_def length_Cons list.size(3))
  have "filter (\<lambda>e. fst e = k') (filter (\<lambda>e. fst e \<noteq> k) es) = filter (\<lambda>e. fst e \<noteq> k) es"
    using assms(3) unfolding list_all_iff by (intro filter_True)
  then have "length (filter (\<lambda>e. fst e \<noteq> k) es) = 1"
    using assms(2) by (metis entries_of_def length_map One_nat_def length_Cons list.size(3))
  then have "length es = 2" using 1 sum_length_filter_compl [of "\<lambda>e. fst e = k" es] by simp
  then obtain a b where "es = [a, b]" by (auto simp: length_Suc_conv numeral_2_eq_2)
  with assms show ?thesis by (cases a; cases b) (auto split: if_splits)
qed

text \<open>
  Authentication frames are strict: the password is read from an object with exactly the entries
  \<open>type\<close> and \<open>password\<close>, in either order, each once, both strings, or from the array of the two, and
  from nothing else.
\<close>

lemma authentication_strict:
  "decode_authentication j = Some password \<longleftrightarrow>
     j = JObj [(''type'', JStr ''authenticate''), (''password'', JStr password)]
     \<or> j = JObj [(''password'', JStr password), (''type'', JStr ''authenticate'')]
     \<or> j = JArr [JStr ''authenticate'', JStr password]"
proof
  assume dec: "decode_authentication j = Some password"
  show "j = JObj [(''type'', JStr ''authenticate''), (''password'', JStr password)]
     \<or> j = JObj [(''password'', JStr password), (''type'', JStr ''authenticate'')]
     \<or> j = JArr [JStr ''authenticate'', JStr password]"
  proof (cases j)
    case (JObj es)
    then have "entries_of ''type'' es = [JStr ''authenticate'']"
        "entries_of ''password'' (filter (\<lambda>e. fst e \<noteq> ''type'') es) = [JStr password]"
        "list_all (\<lambda>e. fst e = ''password'') (filter (\<lambda>e. fst e \<noteq> ''type'') es)"
      using dec by (auto simp: decode_authentication_def take_tag_def struct_entries_def required_field_iff
          split: option.splits prod.splits list.splits if_splits)
    from two_entries [OF this] show ?thesis by (simp add: JObj)
  next
    case (JArr js)
    then obtain t rest where "js = t # rest" "take_tag j = Some (''authenticate'', JArr rest)" "t = JStr ''authenticate''"
      using dec by (auto simp: decode_authentication_def take_tag_def split: option.splits list.splits if_splits)
    moreover from this dec have "rest = [JStr password]"
      by (cases rest) (auto simp: decode_authentication_def struct_entries_def seq_entries_def required_field_iff
          split: if_splits)
    ultimately show ?thesis by (simp add: JArr)
  qed (use dec in \<open>simp_all add: decode_authentication_def take_tag_def\<close>)
next
  show "j = JObj [(''type'', JStr ''authenticate''), (''password'', JStr password)]
     \<or> j = JObj [(''password'', JStr password), (''type'', JStr ''authenticate'')]
     \<or> j = JArr [JStr ''authenticate'', JStr password] \<Longrightarrow> decode_authentication j = Some password"
    by (auto simp: decode_authentication_def take_tag_def struct_entries_def seq_entries_def required_field_def)
qed

end
