(* ===== verification/Security.thy ===== *)
theory Security
imports Config
begin

text \<open>
  \<open>src/security.rs\<close>: the client address behind a trusted proxy, and the middleware that sets the
  security headers. A header map is the list of its name-value pairs, names in lower case, in order;
  \<open>HeaderValue::to_str\<close> is the function of the \<open>http\<close> crate.
\<close>

section \<open>Header maps, requests and responses\<close>

type_synonym header_map = "(string \<times> string) list"

definition header_get_all :: "header_map \<Rightarrow> string \<Rightarrow> string list" where
  "header_get_all hs name = map snd (filter (\<lambda>h. fst h = name) hs)"

definition header_get :: "header_map \<Rightarrow> string \<Rightarrow> string option" where
  "header_get hs name = (case header_get_all hs name of [] \<Rightarrow> None | v # _ \<Rightarrow> Some v)"

definition header_insert :: "string \<Rightarrow> string \<Rightarrow> header_map \<Rightarrow> header_map" where
  "header_insert name v hs = filter (\<lambda>h. fst h \<noteq> name) hs @ [(name, v)]"

type_synonym status_code = nat

record 'b response =
  rsp_status :: status_code
  rsp_headers :: header_map
  rsp_body :: 'b

section \<open>The client address\<close>

definition client_ip :: "http_lib \<Rightarrow> ip_addr \<Rightarrow> header_map \<Rightarrow> ip_addr list \<Rightarrow> status_code + ip_addr" where
  "client_ip lib peer headers trusted_proxies =
     (if peer \<notin> set trusted_proxies then Inr peer
      else case header_get_all headers ''x-parrhesia-client-ip'' of
        [] \<Rightarrow> Inl 400
      | value # values \<Rightarrow>
          if values \<noteq> [] then Inl 400
          else case lib_header_to_str lib value of
            None \<Rightarrow> Inl 400
          | Some s \<Rightarrow> (case parse_ip s of None \<Rightarrow> Inl 400 | Some ip \<Rightarrow> Inr ip))"

text \<open>
  C34. A forwarded address is believed only from a configured proxy: any other peer is itself, whatever
  headers it sends; a proxy's request has an address exactly when it carries the header once with one
  well-formed IP address, which is then the address, and every other request of a proxy is refused.
\<close>

theorem client_ip_trust:
  "(peer \<notin> set proxies \<longrightarrow> client_ip lib peer headers proxies = Inr peer)
   \<and> (peer \<in> set proxies \<longrightarrow>
        (\<forall>ip. client_ip lib peer headers proxies = Inr ip \<longleftrightarrow>
           (\<exists>v s. header_get_all headers ''x-parrhesia-client-ip'' = [v]
              \<and> lib_header_to_str lib v = Some s \<and> parse_ip s = Some ip))
        \<and> (\<forall>e. client_ip lib peer headers proxies = Inl e \<longrightarrow> e = 400))"
  by (auto simp: client_ip_def split: list.splits option.splits)

definition ascii_lib :: http_lib where
  "ascii_lib = \<lparr>lib_parse_uri = (\<lambda>_. None), lib_header_value_ok = (\<lambda>_. True), lib_header_to_str = Some\<rparr>"

theorem client_ip_trust_witness:
  "client_ip ascii_lib (V4 1) [(''x-parrhesia-client-ip'', ''198.51.100.5'')] [V4 2] = Inr (V4 1)
   \<and> client_ip ascii_lib (V4 2) [(''x-parrhesia-client-ip'', ''198.51.100.5'')] [V4 2] = Inr (V4 0xC6336405)"
  using client_ip_trust [of "V4 1" "[V4 2]" ascii_lib "[(''x-parrhesia-client-ip'', ''198.51.100.5'')]"]
    client_ip_trust [of "V4 2" "[V4 2]" ascii_lib "[(''x-parrhesia-client-ip'', ''198.51.100.5'')]"]
  by (simp add: header_get_all_def ascii_lib_def parse_ip_tests)

section \<open>The security headers\<close>

definition no_store :: "string \<Rightarrow> bool" where
  "no_store path \<longleftrightarrow> starts_with path ''/api/rooms'' \<or> starts_with path ''/ws/''"

definition fixed_headers :: header_map where
  "fixed_headers =
     [(''content-security-policy'',
       ''default-src 'self'; '' @ ''script-src 'self'; '' @ ''style-src 'self' 'unsafe-inline'; ''
       @ ''connect-src 'self' wss: ws:; '' @ ''img-src 'self' data: blob:; '' @ ''frame-ancestors 'none'; ''
       @ ''base-uri 'self'; '' @ ''form-action 'self'' @ [CHR 0x27]),
      (''x-content-type-options'', ''nosniff''),
      (''x-frame-options'', ''DENY''),
      (''referrer-policy'', ''strict-origin-when-cross-origin''),
      (''x-xss-protection'', ''0''),
      (''permissions-policy'', ''camera=(self), microphone=()''),
      (''strict-transport-security'', ''max-age=31536000; includeSubDomains'')]"

text \<open>\<open>run\<close> is the rest of the stack, \<open>next.run\<close>; the \<open>insert\<close>s are in the order of the code.\<close>

definition security_headers :: "('r \<Rightarrow> 'b response) \<Rightarrow> ('r \<Rightarrow> string) \<Rightarrow> 'r \<Rightarrow> 'b response" where
  "security_headers run path_of request =
     (let no = no_store (path_of request);
          response = run request;
          hs = rsp_headers response;
          hs1 = (if no then header_insert ''cache-control'' ''no-store'' hs else hs)
      in response\<lparr>rsp_headers := fold (\<lambda>(name, v). header_insert name v) fixed_headers hs1\<rparr>)"

lemma header_get_all_insert [simp]:
  "header_get_all (header_insert n v hs) name = (if name = n then [v] else header_get_all hs name)"
proof -
  have "filter (\<lambda>h. fst h = name \<and> fst h \<noteq> n) hs = filter (\<lambda>h. fst h = name) hs" if "name \<noteq> n"
    using that by (intro filter_cong) auto
  then show ?thesis by (auto simp: header_get_all_def header_insert_def conj_commute)
qed

lemma header_get_all_inserts:
  assumes "distinct (keys kvs)"
  shows "header_get_all (fold (\<lambda>(name, v). header_insert name v) kvs hs) name =
    (case map_of kvs name of Some v \<Rightarrow> [v] | None \<Rightarrow> header_get_all hs name)"
  using assms
proof (induction kvs arbitrary: hs)
  case (Cons kv kvs)
  then show ?case
    by (cases kv; cases "map_of kvs name") (auto simp: rev_image_eqI)
qed simp

lemma fixed_headers_distinct: "distinct (keys fixed_headers)" "''cache-control'' \<notin> set (keys fixed_headers)"
  by (simp_all add: fixed_headers_def)

text \<open>
  Each of the headers exactly once with the policy's value, whatever the handler set; \<open>no-store\<close> under
  \<open>/api/rooms\<close> and \<open>/ws/\<close>; every other header, the status and the body are the handler's.
\<close>

lemma security_headers_get:
  "header_get_all (rsp_headers (security_headers run path_of request)) name =
     (case map_of fixed_headers name of
        Some v \<Rightarrow> [v]
      | None \<Rightarrow> if name = ''cache-control'' \<and> no_store (path_of request) then [''no-store'']
                else header_get_all (rsp_headers (run request)) name)"
  "rsp_status (security_headers run path_of request) = rsp_status (run request)"
  "rsp_body (security_headers run path_of request) = rsp_body (run request)"
  by (simp_all add: security_headers_def Let_def header_get_all_inserts fixed_headers_distinct split: option.splits)

end
