(* ===== verification/RoomsRoutes.thy ===== *)
theory RoomsRoutes
imports Cleanup Wire Security
begin

text \<open>
  The HTTP handlers of \<open>src/routes/rooms.rs\<close>: error responses, \<open>create_room\<close> and \<open>get_room\<close>. Bodies
  are JSON values. The arguments of a handler are the request, the functions of the crates, and what
  the environment supplies: the clock, the salt, the fresh id and the outcome of the database call.
\<close>

section \<open>Libraries\<close>

text \<open>
  The crates the handlers and sessions call: \<open>http\<close>, the cryptographic ones, \<open>serde_json\<close> from text to
  JSON value (\<open>None\<close> for a syntax error) and the base64 decoder.
\<close>

record web_lib =
  web_http :: http_lib
  web_crypto :: crypto_lib
  web_json :: "string \<Rightarrow> json option"
  web_base64 :: "string \<Rightarrow> string option"

section \<open>Responses\<close>

definition json_response :: "status_code \<Rightarrow> json \<Rightarrow> json response" where
  "json_response status body =
     \<lparr>rsp_status = status, rsp_headers = [(''content-type'', ''application/json'')], rsp_body = body\<rparr>"

text \<open>The bodies, \<open>CreateRoomResponse\<close>, \<open>RoomStatusResponse\<close> and \<open>ErrorResponse\<close>, as they are serialised.\<close>

definition create_room_body :: "string \<Rightarrow> bool \<Rightarrow> json" where
  "create_room_body room_id password_required =
     JObj [(''room_id'', JStr room_id), (''password_required'', JBool password_required)]"

definition room_status_body :: "bool \<Rightarrow> string \<Rightarrow> bool \<Rightarrow> json" where
  "room_status_body exists room_id password_required =
     JObj [(''exists'', JBool exists), (''room_id'', JStr room_id), (''password_required'', JBool password_required)]"

definition error_body :: "string \<Rightarrow> json" where
  "error_body message = JObj [(''error'', JStr message)]"

declare create_room_body_def [simp] room_status_body_def [simp] error_body_def [simp]

definition error_response :: "status_code \<Rightarrow> string \<Rightarrow> json response" where
  "error_response status message = json_response status (error_body message)"

fun admission_error_response :: "admission_error \<Rightarrow> json response" where
  "admission_error_response (Limited retry) =
     (let response = error_response 429 ''Too many attempts; retry later''
      in response\<lparr>rsp_headers := header_insert ''retry-after'' (u64_to_string retry) (rsp_headers response)\<rparr>)"
| "admission_error_response Unavailable = error_response 503 ''Admission temporarily unavailable''"

section \<open>Creating a room\<close>

text \<open>\<open>CreateRoomRequest\<close>: one optional field, unknown fields denied.\<close>

definition decode_create_request :: "json \<Rightarrow> string option option" where
  "decode_create_request j =
     (case j of
        JObj es \<Rightarrow> if list_all (\<lambda>e. fst e = ''password'') es then default_field as_string ''password'' es else None
      | JArr [x] \<Rightarrow> as_option as_string x
      | _ \<Rightarrow> None)"

definition content_type :: "web_lib \<Rightarrow> header_map \<Rightarrow> string option" where
  "content_type lib headers =
     (case header_get headers ''content-type'' of
        None \<Rightarrow> None
      | Some h \<Rightarrow>
          (case lib_header_to_str (web_http lib) h of
             None \<Rightarrow> None
           | Some s \<Rightarrow> Some (trim (hd (split_on CHR '';'' s)))))"

definition create_room_request :: "web_lib \<Rightarrow> header_map \<Rightarrow> string \<Rightarrow> json response + string option" where
  "create_room_request lib headers body =
     (if body = [] then Inr None
      else if content_type lib headers \<noteq> Some ''application/json''
      then Inl (error_response 415 ''Expected application/json'')
      else case web_json lib body of
        None \<Rightarrow> Inl (error_response 400 ''Invalid room request'')
      | Some j \<Rightarrow>
          (case decode_create_request j of
             None \<Rightarrow> Inl (error_response 400 ''Invalid room request'')
           | Some password \<Rightarrow> Inr password))"

definition hash_error_response :: "password_error \<Rightarrow> app_state \<Rightarrow> json response \<times> app_state" where
  "hash_error_response e st =
     (case e of
        PwInvalid \<Rightarrow> (error_response 400
          (''Password must contain 15'' @ bytes [226, 128, 147] @ ''256 characters and at most 1024 UTF-8 bytes''), st)
      | PwCommon \<Rightarrow> (error_response 400 ''This password is commonly used; choose a different passphrase'', st)
      | _ \<Rightarrow> (error_response 503 ''Password protection temporarily unavailable'',
               st\<lparr>st_admission := count_unavailable (st_admission st)\<rparr>))"

definition store_room :: "db_call \<Rightarrow> string \<Rightarrow> string option \<Rightarrow> app_state \<Rightarrow> json response \<times> app_state" where
  "store_room c room_id hash st =
     (case create_room_with_password c room_id hash (st_db st) of
        (Inl _, db) \<Rightarrow> (error_response 500 ''Failed to create room'', st\<lparr>st_db := db\<rparr>)
      | (Inr _, db) \<Rightarrow>
          (json_response 200 (create_room_body room_id (hash \<noteq> None)),
           st\<lparr>st_db := db\<rparr>))"

definition create_room_handler ::
  "web_lib \<Rightarrow> ip_addr \<Rightarrow> header_map \<Rightarrow> string \<Rightarrow> instant \<Rightarrow> string \<Rightarrow> bool \<Rightarrow> string \<Rightarrow> db_call
   \<Rightarrow> app_state \<Rightarrow> json response \<times> app_state" where
  "create_room_handler lib peer headers body now salt panics room_id c st =
     (case client_ip (web_http lib) peer headers (cfg_trusted_proxies (st_config st)) of
        Inl status \<Rightarrow> (error_response status ''Invalid client address'', st)
      | Inr ip \<Rightarrow>
          (case check_at (Creation ip) now (st_admission st) of
             (Inl e, adm) \<Rightarrow> (admission_error_response e, st\<lparr>st_admission := adm\<rparr>)
           | (Inr _, adm) \<Rightarrow>
               let st1 = st\<lparr>st_admission := adm\<rparr> in
               (case create_room_request lib headers body of
                  Inl r \<Rightarrow> (r, st1)
                | Inr None \<Rightarrow> store_room c room_id None st1
                | Inr (Some password) \<Rightarrow>
                    (case hash_password (web_crypto lib) salt panics password (st_passwords st1) of
                       (Inl e, svc) \<Rightarrow> hash_error_response e (st1\<lparr>st_passwords := svc\<rparr>)
                     | (Inr h, svc) \<Rightarrow> store_room c room_id (Some h) (st1\<lparr>st_passwords := svc\<rparr>)))))"

section \<open>Looking a room up\<close>

definition get_room :: "db_call \<Rightarrow> string \<Rightarrow> app_state \<Rightarrow> json response" where
  "get_room c room_id st =
     (case room_password c room_id (st_db st) of
        Inr (Some hash) \<Rightarrow> json_response 200 (room_status_body True room_id (hash \<noteq> None))
      | Inr None \<Rightarrow> error_response 404 ''Room not found''
      | Inl _ \<Rightarrow> error_response 500 ''Failed to check room'')"

section \<open>What creation does\<close>

lemma rsp_json_response [simp]: "rsp_status (json_response s b) = s" "rsp_body (json_response s b) = b"
    "rsp_status (error_response s m) = s"
  by (simp_all add: json_response_def error_response_def)

lemma admission_error_status [simp]: "rsp_status (admission_error_response e) \<in> {429, 503}"
  by (cases e) (simp_all add: Let_def)

lemma client_ip_error: "client_ip lib peer headers proxies = Inl e \<Longrightarrow> e = 400"
  by (auto simp: client_ip_def split: if_splits list.splits option.splits)

lemma hash_error_effect:
  "rsp_status (fst (hash_error_response e st)) \<in> {400, 503}"
  "st_db (snd (hash_error_response e st)) = st_db st"
  "st_rooms (snd (hash_error_response e st)) = st_rooms st"
  "st_channels (snd (hash_error_response e st)) = st_channels st"
  "st_passwords (snd (hash_error_response e st)) = st_passwords st"
  by (cases e; simp add: hash_error_response_def)+

lemma store_room_effect:
  "st_rooms (snd (store_room c rid h st)) = st_rooms st"
  "st_channels (snd (store_room c rid h st)) = st_channels st"
  "st_passwords (snd (store_room c rid h st)) = st_passwords st"
  "st_db (snd (store_room c rid h st)) = snd (create_room_with_password c rid h (st_db st))"
  "rsp_status (fst (store_room c rid h st)) =
     (if fst (create_room_with_password c rid h (st_db st)) = Inr () then 200 else 500)"
  by (auto simp: store_room_def split: prod.splits sum.splits)

lemma create_status:
  "fst (create_room_with_password c rid h db) = Inr () \<longleftrightarrow>
     call_ok c \<and> has_columns db [''id'', ''created_at'', ''last_activity'', ''password_hash'']
     \<and> map_of (db_rows db) rid = None"
  by (auto simp: create_room_with_password_def Let_def)

lemma create_request_status: "create_room_request lib headers body = Inl r \<Longrightarrow> rsp_status r \<in> {400, 415}"
  by (auto simp: create_room_request_def split: if_splits option.splits)

lemma create_rows:
  "fst (create_room_with_password c rid h db) = Inr () \<Longrightarrow>
   map_of (db_rows (snd (create_room_with_password c rid h db)))
     = (map_of (db_rows db))(rid \<mapsto> \<lparr>row_created_at = call_clock c, row_last_activity = call_clock c, row_password_hash = h\<rparr>)"
  "fst (create_room_with_password c rid h db) \<noteq> Inr () \<Longrightarrow> snd (create_room_with_password c rid h db) = db"
  by (auto simp: create_room_with_password_def Let_def update_conv' now_timestamp_def)

text \<open>The response of a creation with the given outcome.\<close>

definition created_response :: "string \<Rightarrow> bool \<Rightarrow> json response" where
  "created_response rid protected =
     json_response 200 (JObj [(''room_id'', JStr rid), (''password_required'', JBool protected)])"

lemma store_room_cases:
  "store_room c rid h st = (r, st') \<Longrightarrow>
     (rsp_status r = 200 \<and> r = created_response rid (h \<noteq> None)
        \<and> fst (create_room_with_password c rid h (st_db st)) = Inr ()
        \<and> st' = st\<lparr>st_db := snd (create_room_with_password c rid h (st_db st))\<rparr>)
     \<or> (rsp_status r = 500 \<and> st' = st)"
  using store.create_err [of c rid h "st_db st"]
  by (auto simp: store_room_def created_response_def split: prod.splits sum.splits)

lemma handler_cases:
  assumes "create_room_handler lib peer headers body now salt panics rid c st = (r, st')"
  obtains (refused) "rsp_status r \<noteq> 200" "st_db st' = st_db st" "st_rooms st' = st_rooms st"
      "st_channels st' = st_channels st" "st_passwords st' = st_passwords st"
  | (created) ip adm h st1 where "client_ip (web_http lib) peer headers (cfg_trusted_proxies (st_config st)) = Inr ip"
      "check_at (Creation ip) now (st_admission st) = (Inr (), adm)"
      "st1 = st\<lparr>st_admission := adm\<rparr>"
      "create_room_request lib headers body = Inr None \<and> h = None \<or>
       (\<exists>password s. create_room_request lib headers body = Inr (Some password) \<and> h = Some s
          \<and> hash_password (web_crypto lib) salt panics password (st_passwords st) = (Inr s, st_passwords st))"
      "r = created_response rid (h \<noteq> None)"
      "fst (create_room_with_password c rid h (st_db st)) = Inr ()"
      "st' = st1\<lparr>st_db := snd (create_room_with_password c rid h (st_db st))\<rparr>"
proof (cases "client_ip (web_http lib) peer headers (cfg_trusted_proxies (st_config st))")
  case (Inl e)
  then show ?thesis
    using assms client_ip_error [OF Inl] by (intro refused) (auto simp: create_room_handler_def)
next
  case (Inr ip)
  note ip = this
  obtain ra adm where chk: "check_at (Creation ip) now (st_admission st) = (ra, adm)" by fastforce
  let ?st1 = "st\<lparr>st_admission := adm\<rparr>"
  show ?thesis
  proof (cases ra)
    case (Inl e)
    then show ?thesis
      using assms ip chk admission_error_status [of e] by (intro refused) (auto simp: create_room_handler_def)
  next
    case (Inr u)
    note ok = this
    show ?thesis
    proof (cases "create_room_request lib headers body")
      case (Inl r')
      then show ?thesis
        using assms ip chk ok create_request_status [OF Inl]
        by (intro refused) (auto simp: create_room_handler_def)
    next
      case (Inr pw)
      show ?thesis
      proof (cases pw)
        case None
        then have "store_room c rid None ?st1 = (r, st')"
          using assms ip chk ok Inr by (simp add: create_room_handler_def)
        from store_room_cases [OF this] show ?thesis
          using created [OF ip _ refl, of adm None] chk ok Inr None refused by fastforce
      next
        case (Some password)
        obtain rh svc where h: "hash_password (web_crypto lib) salt panics password (st_passwords st) = (rh, svc)"
          by fastforce
        then have svc: "svc = st_passwords st" by (simp add: hash_password_cases)
        show ?thesis
        proof (cases rh)
          case (Inl e)
          then have "(r, st') = hash_error_response e ?st1"
            using assms ip chk ok Inr Some h svc by (simp add: create_room_handler_def)
          then show ?thesis
            using hash_error_effect [of e ?st1] by (intro refused) (auto simp: prod_eq_iff)
        next
          case (Inr s)
          then have "store_room c rid (Some s) ?st1 = (r, st')"
            using assms ip chk ok \<open>create_room_request lib headers body = Inr pw\<close> Some h svc
            by (simp add: create_room_handler_def)
          from store_room_cases [OF this] show ?thesis
            using created [OF ip _ refl, of adm "Some s"] chk ok \<open>create_room_request lib headers body = Inr pw\<close>
              Some refused h Inr svc by fastforce
        qed
      qed
    qed
  qed
qed

text \<open>
  C33. Creation is all or nothing: a response 200 means that exactly one row was added, under the fresh
  id, protected exactly when the request has a password, and that the response says so; after any other
  response the database is unchanged. The rooms in memory, the channels and the permits are untouched
  either way.
\<close>

theorem create_room_all_or_nothing:
  "case create_room_handler lib peer headers body now salt panics rid c st of (r, st') \<Rightarrow>
     st_rooms st' = st_rooms st \<and> st_channels st' = st_channels st \<and> st_passwords st' = st_passwords st
     \<and> (if rsp_status r = 200
        then \<exists>hash password. create_room_request lib headers body = Inr password
          \<and> (hash = None \<longleftrightarrow> password = None)
          \<and> r = created_response rid (password \<noteq> None)
          \<and> map_of (db_rows (st_db st)) rid = None
          \<and> map_of (db_rows (st_db st')) = (map_of (db_rows (st_db st)))(rid \<mapsto>
               \<lparr>row_created_at = call_clock c, row_last_activity = call_clock c, row_password_hash = hash\<rparr>)
        else st_db st' = st_db st)"
proof -
  obtain r st' where run: "create_room_handler lib peer headers body now salt panics rid c st = (r, st')"
    by fastforce
  show ?thesis
    using run
  proof (cases rule: handler_cases)
    case refused
    then show ?thesis by (simp add: run)
  next
    case (created ip adm h st1)
    then obtain password where pw: "create_room_request lib headers body = Inr password" "h = None \<longleftrightarrow> password = None"
      by auto
    have "map_of (db_rows (st_db st)) rid = None"
      using created(6) by (simp add: create_status)
    then show ?thesis
      using created(3,5,7) pw create_rows(1) [OF created(6)] by (auto simp: run created_response_def)
  qed
qed

text \<open>
  C21. A room that was created with a password opens with it: after a response 200 to such a request, a
  lookup finds a hash, and verification accepts the password, in any spelling with the same normal
  form, whenever a permit is free; a room that was created without one has no hash.
\<close>

theorem created_room_opens:
  assumes "argon_documented (web_crypto lib)" "length salt = 16"
    and "create_room_handler lib peer headers body now salt panics rid c st = (r, st')" "rsp_status r = 200"
    and "create_room_request lib headers body = Inr request"
    and "room_password c' rid (st_db st') = Inr found"
    and "0 < ps_permits svc" "length password' \<le> 1024"
  shows "case request of
      None \<Rightarrow> found = Some None
    | Some password \<Rightarrow> lib_nfc (web_crypto lib) password' = lib_nfc (web_crypto lib) password \<longrightarrow>
        (\<exists>h. found = Some (Some h) \<and> verify_password (web_crypto lib) False password' h svc = (Inr True, svc))"
  using assms(3)
proof (cases rule: handler_cases)
  case refused
  then show ?thesis using assms(4) by simp
next
  case (created ip adm h st1)
  have found: "found = Some h"
    using assms(6) create_rows(1) [OF created(6)] created(7) by (auto simp: room_password_def split: if_splits)
  show ?thesis
  proof (cases request)
    case None
    then show ?thesis using created(4) assms(5) found by auto
  next
    case (Some password)
    then obtain s where s: "h = Some s"
        "hash_password (web_crypto lib) salt panics password (st_passwords st) = (Inr s, st_passwords st)"
      using created(4) assms(5) by auto
    then show ?thesis
      using hash_verifies [OF assms(1,2) s(2) _ assms(8,7)] found Some by simp
  qed
qed

text \<open>
  What creation answers, the lookup of the room answers too: after a response 200 the room exists
  and needs a password exactly when the request had one; the hash is never in a response.
\<close>

lemma create_then_get:
  assumes "create_room_handler lib peer headers body now salt panics rid c st = (r, st')" "rsp_status r = 200"
    and "create_room_request lib headers body = Inr request" "call_ok c'"
  shows "get_room c' rid st' = json_response 200 (JObj [(''exists'', JBool True), (''room_id'', JStr rid),
      (''password_required'', JBool (request \<noteq> None))])"
  using assms(1)
proof (cases rule: handler_cases)
  case refused
  then show ?thesis using assms(2) by simp
next
  case (created ip adm h st1)
  have "has_columns (st_db st') [''id'', ''password_hash'']" "h = None \<longleftrightarrow> request = None"
    using created(3,4,6,7) assms(3)
    by (auto simp: create_room_with_password_def Let_def has_columns_def split: if_splits option.splits)
  then show ?thesis
    using create_rows(1) [OF created(6)] created(7) assms(4) by (simp add: get_room_def room_password_def)
qed

section \<open>The retry header\<close>

text \<open>
  A client over its budget is told how long to wait: the response is 429 and its only
  \<open>retry-after\<close> header is the decimal number that the limiter computed, which parses back to it; nothing but the
  limiter has changed.
\<close>

lemma retry_header_exact:
  assumes "client_ip (web_http lib) peer headers (cfg_trusted_proxies (st_config st)) = Inr ip"
    and "check_at (Creation ip) now (st_admission st) = (Inl (Limited n), adm)"
  shows "\<exists>r v. create_room_handler lib peer headers body now salt panics rid c st = (r, st\<lparr>st_admission := adm\<rparr>)
    \<and> rsp_status r = 429 \<and> header_get_all (rsp_headers r) ''retry-after'' = [v]
    \<and> parse_uint 64 v = Some (uint n)"
  using assms u64_to_string_parse [of n]
  by (auto simp: create_room_handler_def error_response_def json_response_def Let_def)

section \<open>Concrete runs\<close>

definition toy_web :: web_lib where
  "toy_web = \<lparr>web_http = ascii_lib, web_crypto = toy_lib,
     web_json = (\<lambda>s. if s = ''body'' then Some (JObj [(''password'', JStr toy_password)]) else None),
     web_base64 = Some\<rparr>"

definition json_headers :: header_map where
  "json_headers = [(''content-type'', ''application/json; charset=utf-8'')]"

definition toy_creation :: "json response \<times> app_state" where
  "toy_creation = create_room_handler toy_web (V4 1) json_headers ''body'' 0 toy_salt False ''new'' (sample_call 50) sample_state"

lemma toy_request: "create_room_request toy_web json_headers ''body'' = Inr (Some toy_password)"
  by code_simp

definition toy_stored :: string where
  "toy_stored = toy_salt @ toy_digest toy_password"

lemma toy_creation_ok:
  "rsp_status (fst toy_creation) = 200"
  "st_db (snd toy_creation)
   = snd (create_room_with_password (sample_call 50) ''new'' (Some toy_stored) (st_db sample_state))"
proof -
  have ip: "client_ip (web_http toy_web) (V4 1) json_headers (cfg_trusted_proxies (st_config sample_state)) = Inr (V4 1)"
    by code_simp
  obtain adm where adm: "check_at (Creation (V4 1)) 0 (st_admission sample_state) = (Inr (), adm)"
    by (rule that [OF prod_eqI]) (code_simp, simp)
  have "st_passwords sample_state = password_service_default" "web_crypto toy_web = toy_lib"
    by (simp add: sample_state_def app_state_new_def, simp add: toy_web_def)
  then have run: "toy_creation = store_room (sample_call 50) ''new'' (Some toy_stored)
      (sample_state\<lparr>st_admission := adm, st_passwords := password_service_default\<rparr>)"
    by (simp add: toy_creation_def create_room_handler_def ip adm toy_request toy_hash toy_stored_def)
  have "fst (create_room_with_password (sample_call 50) ''new'' (Some toy_stored) (st_db sample_state)) = Inr ()"
    by code_simp
  then show "rsp_status (fst toy_creation) = 200" "st_db (snd toy_creation)
     = snd (create_room_with_password (sample_call 50) ''new'' (Some toy_stored) (st_db sample_state))"
    by (simp_all add: run store_room_effect)
qed

lemma toy_run:
  "create_room_handler toy_web (V4 1) json_headers ''body'' 0 toy_salt False ''new'' (sample_call 50) sample_state
   = (fst toy_creation, snd toy_creation)"
  by (simp add: toy_creation_def)

theorem created_room_opens_witness:
  "room_password (sample_call 51) ''new'' (st_db (snd toy_creation)) = Inr (Some (Some toy_stored))
   \<and> verify_password toy_lib False toy_password toy_stored password_service_default
     = (Inr True, password_service_default)"
proof -
  have found: "room_password (sample_call 51) ''new'' (st_db (snd toy_creation)) = Inr (Some (Some toy_stored))"
    unfolding toy_creation_ok(2) by code_simp
  have web: "web_crypto toy_web = toy_lib" by (simp add: toy_web_def)
  from created_room_opens [of toy_web, unfolded web, OF toy_documented _ toy_run toy_creation_ok(1) toy_request found,
      of password_service_default toy_password] found
  show ?thesis
    by (simp add: toy_salt_def toy_password_def password_service_default_def)
qed

lemma create_then_get_example:
  "rsp_status (get_room (sample_call 51) ''new'' (snd toy_creation)) = 200"
  using create_then_get [OF toy_run toy_creation_ok(1) toy_request, of "sample_call 51"]
  by (simp add: sample_call_def)

definition drained_state :: app_state where
  "drained_state = sample_state\<lparr>st_admission := admission_default\<lparr>adm_limits :=
     \<lparr>lim_buckets = [(Creation (V4 1), \<lparr>bk_tokens = 0, bk_updated = 0\<rparr>)], lim_pending = [], lim_pending_total = 0\<rparr>\<rparr>\<rparr>"

lemma retry_header_exact_example:
  "\<exists>r st' v. create_room_handler toy_web (V4 1) [] [] 0 toy_salt False ''new'' (sample_call 50) drained_state = (r, st')
     \<and> rsp_status r = 429 \<and> header_get_all (rsp_headers r) ''retry-after'' = [v] \<and> parse_uint 64 v = Some 12"
proof -
  have ip: "client_ip (web_http toy_web) (V4 1) [] (cfg_trusted_proxies (st_config drained_state)) = Inr (V4 1)"
    by code_simp
  obtain adm where adm: "check_at (Creation (V4 1)) 0 (st_admission drained_state) = (Inl (Limited 12), adm)"
    by (rule that [OF prod_eqI]) (code_simp, simp)
  have n: "uint (12 :: u64) = 12" by simp
  from retry_header_exact [OF ip adm, unfolded n] show ?thesis by blast
qed

end
