(* ===== verification/RateLimiter.thy ===== *)
theory RateLimiter
imports TokenBucket
begin

text \<open>
  The per-connection limiter of inbound frames, \<open>RateLimiter\<close> in \<open>src/routes/ws.rs\<close>: its state, its
  constructor, \<open>check\<close>, and the proof that it implements the token-bucket contract.
\<close>

section \<open>The limiter\<close>

record rate_limiter =
  rl_tokens :: f64
  rl_capacity :: f64
  rl_refill_per_sec :: f64
  rl_last_refill :: instant

definition msg_rate_capacity :: f64 where "msg_rate_capacity = 60"
definition msg_rate_refill_per_sec :: f64 where "msg_rate_refill_per_sec = 30"

text \<open>\<open>RateLimiter::new\<close>; the instant is the one \<open>Instant::now()\<close> returns.\<close>

definition rate_limiter_new :: "f64 \<Rightarrow> f64 \<Rightarrow> instant \<Rightarrow> rate_limiter" where
  "rate_limiter_new capacity refill_per_sec now =
     \<lparr>rl_tokens = capacity, rl_capacity = capacity, rl_refill_per_sec = refill_per_sec,
      rl_last_refill = now\<rparr>"

definition rate_limiter_check :: "instant \<Rightarrow> rate_limiter \<Rightarrow> bool \<times> rate_limiter" where
  "rate_limiter_check now rl =
     (let elapsed = as_secs_f64 (saturating_duration_since now (rl_last_refill rl));
          rl1 = rl\<lparr>rl_last_refill := now\<rparr>;
          rl2 = rl1\<lparr>rl_tokens := f64_min (f64_add (rl_tokens rl1) (f64_mul elapsed (rl_refill_per_sec rl1)))
                                   (rl_capacity rl1)\<rparr>
      in if 1 \<le> rl_tokens rl2 then (True, rl2\<lparr>rl_tokens := f64_sub (rl_tokens rl2) 1\<rparr>)
         else (False, rl2))"

section \<open>It implements the token-bucket contract\<close>

definition rl_wf :: "f64 \<Rightarrow> f64 \<Rightarrow> rate_limiter \<Rightarrow> bool" where
  "rl_wf c r rl \<longleftrightarrow> rl_capacity rl = c \<and> rl_refill_per_sec rl = r \<and> 0 \<le> rl_tokens rl \<and> rl_tokens rl \<le> c"

lemma rl_wf_new [inv_intros]: "0 \<le> c \<Longrightarrow> rl_wf c r (rate_limiter_new c r now)"
  by (simp add: rl_wf_def rate_limiter_new_def)

abbreviation rl_refilled :: "instant \<Rightarrow> rate_limiter \<Rightarrow> f64" where
  "rl_refilled now rl \<equiv> refilled (rl_tokens rl) (saturating_duration_since now (rl_last_refill rl))
     (rl_refill_per_sec rl) (rl_capacity rl)"

lemma rate_limiter_check_eq [op_simps]:
  "rate_limiter_check now rl =
     (if 1 \<le> rl_refilled now rl
      then (True, rl\<lparr>rl_last_refill := now, rl_tokens := f64_sub (rl_refilled now rl) 1\<rparr>)
      else (False, rl\<lparr>rl_last_refill := now, rl_tokens := rl_refilled now rl\<rparr>))"
  by (simp add: rate_limiter_check_def Let_def)

lemma rate_limiter_token_bucket:
  assumes r: "0 < r" "r \<le> 32" and c: "0 \<le> c" "c \<le> 64" "c \<le> 64 * r" "\<And>t. 1 \<le> t \<Longrightarrow> t \<le> c \<Longrightarrow> f64_sub t 1 \<le> c"
  shows "token_bucket rate_limiter_check rl_tokens rl_last_refill (rl_wf c r) c r bucket_eps"
proof unfold_locales
  fix rl now assume wf: "rl_wf c r rl"
  let ?d = "saturating_duration_since now (rl_last_refill rl)"
  let ?t = "refilled (rl_tokens rl) ?d r c"
  have rl: "rl_capacity rl = c" "rl_refill_per_sec rl = r" "0 \<le> rl_tokens rl" "rl_tokens rl \<le> c"
    using wf by (auto simp: rl_wf_def)
  have b: "0 \<le> ?t" "?t \<le> c" using refilled_bounds [of "rl_tokens rl" r ?d c] rl r c by auto
  have up: "?t \<le> rl_tokens rl + secs ?d * r + 1 / 2 ^ 38"
    using refilled_upper [of "rl_tokens rl" c r ?d] rl r c by simp
  have lo: "min c (rl_tokens rl + secs ?d * r) \<le> ?t + 1 / 2 ^ 38"
    using refilled_lower [of "rl_tokens rl" c r ?d] rl r c by simp
  show "rl_wf c r (snd (rate_limiter_check now rl))"
    using rl b c spend_token(1) [of ?t] by (auto simp: rl_wf_def rate_limiter_check_eq)
  show "rl_last_refill (snd (rate_limiter_check now rl)) = now"
    by (simp add: rate_limiter_check_eq)
  show "rl_tokens (snd (rate_limiter_check now rl)) + of_bool (fst (rate_limiter_check now rl))
      \<le> min c (rl_tokens rl + secs ?d * r) + bucket_eps"
    using rl b up c(2) spend_token(2) [of ?t] by (auto simp: rate_limiter_check_eq bucket_eps_def)
  show "min c (rl_tokens rl + secs ?d * r)
      \<le> rl_tokens (snd (rate_limiter_check now rl)) + of_bool (fst (rate_limiter_check now rl)) + bucket_eps"
    using rl b lo c(2) spend_token(3) [of ?t] by (auto simp: rate_limiter_check_eq bucket_eps_def)
  show "rl_tokens (snd (rate_limiter_check now rl)) < 1" if "\<not> fst (rate_limiter_check now rl)"
    using that rl by (auto simp: rate_limiter_check_eq split: if_splits)
qed (use r in \<open>auto simp: rl_wf_def\<close>)

lemma f64_sub_one_le: "t \<le> of_int c \<Longrightarrow> 0 \<le> c \<Longrightarrow> c \<le> 64 \<Longrightarrow> f64_sub t 1 \<le> of_int c"
  unfolding f64_sub_def using f64.rnd_le_int [of "t - 1" c] by simp

interpretation rl: token_bucket rate_limiter_check rl_tokens rl_last_refill
    "rl_wf msg_rate_capacity msg_rate_refill_per_sec" msg_rate_capacity msg_rate_refill_per_sec bucket_eps
  by (rule rate_limiter_token_bucket)
    (use f64_sub_one_le [of _ 60] in \<open>auto simp: msg_rate_capacity_def msg_rate_refill_per_sec_def\<close>)

section \<open>What a connection can have relayed\<close>

lemma rl_refilled_same_instant:
  assumes "rl_tokens rl = of_nat k" "rl_capacity rl = of_nat c" "k \<le> c" "c \<le> 2 ^ 53" "rl_last_refill rl = now"
  shows "rl_refilled now rl = of_nat k"
proof -
  have "rnd64 (of_nat k) = of_nat k"
    using rnd64_int [of "int k"] assms(3,4) by simp
  with assms show ?thesis by (simp add: f64_min_def f64_add_def f64_mul_def)
qed

lemma rate_limiter_check_same_instant:
  assumes "rl_tokens rl = of_nat k" "rl_capacity rl = of_nat c" "k \<le> c" "c \<le> 2 ^ 53" "rl_last_refill rl = now"
  shows "rate_limiter_check now rl = (if 0 < k then (True, rl\<lparr>rl_tokens := of_nat (k - 1)\<rparr>) else (False, rl))"
proof (cases k)
  case 0
  with rl_refilled_same_instant [OF assms] assms show ?thesis
    by (simp add: rate_limiter_check_eq)
next
  case (Suc j)
  have "f64_sub (of_nat k) 1 = of_nat j"
    using rnd64_int [of "int j"] Suc assms(3,4) by (simp add: f64_sub_def)
  with rl_refilled_same_instant [OF assms] assms Suc show ?thesis
    by (simp add: rate_limiter_check_eq)
qed

lemma burst_from:
  assumes "rl_tokens rl = of_nat k" "rl_capacity rl = of_nat c" "k \<le> c" "c \<le> 2 ^ 53" "rl_last_refill rl = now"
  shows "fst (run_checks rate_limiter_check rl (replicate n now))
         = replicate (min n k) True @ replicate (n - k) False"
  using assms
proof (induction n arbitrary: rl k)
  case (Suc n)
  note step = rate_limiter_check_same_instant [OF Suc.prems]
  show ?case
  proof (cases k)
    case 0
    with step Suc.IH [OF Suc.prems] show ?thesis by (auto split: prod.splits)
  next
    case (Suc j)
    let ?rl = "rl\<lparr>rl_tokens := of_nat j\<rparr>"
    have "fst (run_checks rate_limiter_check ?rl (replicate n now))
          = replicate (min n j) True @ replicate (n - j) False"
      using Suc.prems Suc by (intro Suc.IH) auto
    with step Suc show ?thesis by (auto split: prod.splits)
  qed
qed simp

text \<open>
  The relay budget of one connection: whatever instants its frames arrive at, the number of
  frames let through is at most 60 plus 30 per second of elapsed time, up to a rounding error of
  less than one part in \<open>2 ^ 37\<close> of a frame per frame received.
\<close>

lemma rate_limiter_bound:
  "of_nat (accepted (fst (run_checks rate_limiter_check
      (rate_limiter_new msg_rate_capacity msg_rate_refill_per_sec start) ts)))
   \<le> 60 + secs (elapsed_along start ts) * 30 + of_nat (length ts) * (1 / 2 ^ 37)"
  using rl.accepted_bound [OF rl_wf_new, of start ts]
  by (simp add: msg_rate_capacity_def msg_rate_refill_per_sec_def rate_limiter_new_def bucket_eps_def)

text \<open>
  Bursts: on a fresh limiter of capacity \<open>c\<close>, of \<open>n\<close> frames that arrive at one instant exactly
  the first \<open>min n c\<close> pass and every later one is dropped.
\<close>

lemma rate_limiter_burst:
  assumes "c \<le> 2 ^ 53"
  shows "fst (run_checks rate_limiter_check (rate_limiter_new (of_nat c) r now) (replicate n now))
         = replicate (min n c) True @ replicate (n - c) False"
  by (rule burst_from [where c = c]) (use assms in \<open>simp_all add: rate_limiter_new_def\<close>)

lemma rate_limiter_burst_example:
  "fst (run_checks rate_limiter_check (rate_limiter_new (of_nat 3) 1 0) (replicate 5 0))
   = replicate 3 True @ replicate 2 False"
  using rate_limiter_burst [of 3 1 0 5] by simp

text \<open>
  No lock-out: whatever a connection has sent before, a frame that arrives 33333334 ns or more
  after the previous one is let through.
\<close>

lemma rate_limiter_recovers:
  assumes "33333334 \<le> now - last (start # ts)"
  shows "fst (rate_limiter_check now (snd (run_checks rate_limiter_check
      (rate_limiter_new msg_rate_capacity msg_rate_refill_per_sec start) ts)))"
proof -
  let ?new = "rate_limiter_new msg_rate_capacity msg_rate_refill_per_sec start"
  let ?rl = "snd (run_checks rate_limiter_check ?new ts)"
  have new: "rl_wf msg_rate_capacity msg_rate_refill_per_sec ?new"
    by (rule rl_wf_new) (simp add: msg_rate_capacity_def)
  have last: "rl_last_refill ?rl = last (start # ts)"
    using rl.stamp_run [OF new, of ts] by (simp add: rate_limiter_new_def)
  have "secs 33333334 \<le> secs (now - rl_last_refill ?rl)" using assms last by (intro secs_mono) simp
  then have "(1 + bucket_eps) / msg_rate_refill_per_sec \<le> secs (now - rl_last_refill ?rl)"
    by (simp add: secs_def bucket_eps_def msg_rate_refill_per_sec_def)
  then show ?thesis
    using assms last
    by (intro rl.idle_then_accepted rl.wf_run new) (simp_all add: msg_rate_capacity_def bucket_eps_def)
qed

lemma rate_limiter_recovers_example:
  "fst (rate_limiter_check 50000000
     (snd (run_checks rate_limiter_check
        (rate_limiter_new msg_rate_capacity msg_rate_refill_per_sec 0) [0, 7])))"
  using rate_limiter_recovers [of 50000000 0 "[0, 7]"] by simp

end
