(* ===== verification/Ws.thy ===== *)
theory Ws
imports RoomsRoutes RateLimiter
begin

text \<open>
  The WebSocket sessions of \<open>src/routes/ws.rs\<close>: the upgrade handler, authentication, the key exchange
  and the relay loop. A session is a state machine: its phases are the points where the code awaits,
  its inputs are what an await can yield (a frame, a time-out, the result of a computation, an event of
  the room, a tick of the ping interval), and one function gives the reaction to an input, from one
  await to the next. \<open>ss_sent\<close> records the frames that were sent.
\<close>

section \<open>Constants and validators\<close>

definition protocol_version :: u32 where "protocol_version = 1"
definition ping_interval :: duration where "ping_interval = 30 * nanos_per_sec"
definition pong_timeout :: duration where "pong_timeout = 10 * nanos_per_sec"
definition handshake_timeout :: duration where "handshake_timeout = 10 * nanos_per_sec"
definition max_message_bytes :: u64 where "max_message_bytes = 64 * 1024"

definition is_valid_mldsa65_public_key :: "web_lib \<Rightarrow> string \<Rightarrow> bool" where
  "is_valid_mldsa65_public_key lib base64_key =
     (case web_base64 lib base64_key of Some bs \<Rightarrow> length bs = 1952 | None \<Rightarrow> False)"

definition is_valid_mlkem768_public_key :: "web_lib \<Rightarrow> string \<Rightarrow> bool" where
  "is_valid_mlkem768_public_key lib base64_key =
     (case web_base64 lib base64_key of Some bs \<Rightarrow> length bs = 1184 | None \<Rightarrow> False)"

section \<open>Frames, inputs and sessions\<close>

datatype ws_message = MText string | MBinary string | MPing string | MPong string | MClose

text \<open>\<open>receiver.next()\<close>: a message, a transport error, or the end of the stream.\<close>

datatype ws_next = NextMsg ws_message | NextErr | NextNone

datatype frame = FText json | FPing | FPong string | FClose

datatype phase =
    Opening
  | AuthWait
  | VerifyReady string
  | VerifyJob string
  | Rejecting outgoing_message
  | Attaching
  | Unattached
  | Welcoming bool "string option"
  | Handshaking
  | Joining string string "string option"
  | RejectFull
  | Announcing "outgoing_message list"
  | Relaying
  | Detaching
  | Done
  | Panicked

record session =
  ss_phase :: phase
  ss_room_id :: string
  ss_room :: "string option option"
  ss_pending :: "pending_auth option"
  ss_conn_id :: string
  ss_tx :: nat
  ss_rx :: receiver
  ss_limiter :: rate_limiter
  ss_last_pong :: instant
  ss_waiting_for_pong :: bool
  ss_sent :: "frame list"

text \<open>
  What an await yields: a frame, the elapsed deadline, the result of the blocking job (or its panic), an
  event of the room, a tick, the end of an upgrade that failed, or the completion of the call at hand.
\<close>

datatype ws_input = Recv ws_next | Deadline | JobDone bool | RoomEvent | PingTick | UpgradeFailed | Proceed

text \<open>
  The environment of a step: the clock, which of the frames sent in it go through, the database, the
  fresh id, and the number of events a channel keeps.
\<close>

record step_env =
  env_now :: instant
  env_send :: "nat \<Rightarrow> bool"
  env_call :: db_call
  env_uuid :: string
  env_buffered :: nat

section \<open>The upgrade handler\<close>

definition session_new :: "string \<Rightarrow> string option option \<Rightarrow> pending_auth option \<Rightarrow> session" where
  "session_new room_id stored guard =
     \<lparr>ss_phase = Opening, ss_room_id = room_id, ss_room = stored, ss_pending = guard, ss_conn_id = [],
      ss_tx = 0, ss_rx = (0, 0), ss_limiter = rate_limiter_new 0 0 0, ss_last_pong = 0,
      ss_waiting_for_pong = False, ss_sent = []\<rparr>"

definition origin_allowed :: "web_lib \<Rightarrow> header_map \<Rightarrow> string list \<Rightarrow> bool" where
  "origin_allowed lib headers allowed_origins =
     (case header_get_all headers ''origin'' of
        [h] \<Rightarrow> (case lib_header_to_str (web_http lib) h of
                  Some origin \<Rightarrow> list_ex (\<lambda>allowed. allowed = origin) allowed_origins
                | None \<Rightarrow> False)
      | _ \<Rightarrow> False)"

definition ws_handler ::
  "web_lib \<Rightarrow> step_env \<Rightarrow> ip_addr \<Rightarrow> header_map \<Rightarrow> string \<Rightarrow> app_state \<Rightarrow> (json response + session) \<times> app_state" where
  "ws_handler lib env peer headers room_id st =
     (if \<not> origin_allowed lib headers (cfg_allowed_origins (st_config st))
      then (Inl (error_response 403 ''Origin not allowed''),
            st\<lparr>st_admission := count_rejected (st_admission st)\<rparr>)
      else case client_ip (web_http lib) peer headers (cfg_trusted_proxies (st_config st)) of
        Inl status \<Rightarrow> (Inl (error_response status ''Invalid client address''), st)
      | Inr ip \<Rightarrow>
          (case check_at (Connection ip) (env_now env) (st_admission st) of
             (Inl e, adm) \<Rightarrow> (Inl (admission_error_response e), st\<lparr>st_admission := adm\<rparr>)
           | (Inr _, adm) \<Rightarrow>
               let st1 = st\<lparr>st_admission := adm\<rparr> in
               (case room_password (env_call env) room_id (st_db st1) of
                  Inl _ \<Rightarrow> (Inl (error_response 503 ''Admission temporarily unavailable''), st1)
                | Inr stored \<Rightarrow>
                    (case stored of
                       Some (Some _) \<Rightarrow>
                         (case pending ip (st_admission st1) of
                            (Inl e, adm') \<Rightarrow> (Inl (admission_error_response e), st1\<lparr>st_admission := adm'\<rparr>)
                          | (Inr guard, adm') \<Rightarrow>
                              (Inr (session_new room_id stored (Some guard)), st1\<lparr>st_admission := adm'\<rparr>))
                     | _ \<Rightarrow> (Inr (session_new room_id stored None), st1)))))"

section \<open>Sending, failing, dropping the guard\<close>

definition send_frame :: "bool \<Rightarrow> frame \<Rightarrow> session \<Rightarrow> session" where
  "send_frame ok f s = (if ok then s\<lparr>ss_sent := ss_sent s @ [f]\<rparr> else s)"

definition send_json :: "bool \<Rightarrow> outgoing_message \<Rightarrow> session \<Rightarrow> session" where
  "send_json ok m s = send_frame ok (FText (outgoing_json m)) s"

definition goto :: "phase \<Rightarrow> session \<Rightarrow> session" where
  "goto p s = s\<lparr>ss_phase := p\<rparr>"

text \<open>Dropping the guard and going on; a panic in its \<open>drop\<close> would end the task.\<close>

definition drop_pending :: "phase \<Rightarrow> session \<Rightarrow> app_state \<Rightarrow> session \<times> app_state" where
  "drop_pending p s st =
     (case ss_pending s of
        None \<Rightarrow> (goto p s, st)
      | Some g \<Rightarrow>
          (case pending_drop g (st_admission st) of
             None \<Rightarrow> (goto Panicked s, st)
           | Some adm \<Rightarrow> (goto p (s\<lparr>ss_pending := None\<rparr>), st\<lparr>st_admission := adm\<rparr>)))"

text \<open>A failed authentication: counted, then the failure is to be sent.\<close>

definition reject :: "outgoing_message \<Rightarrow> session \<Rightarrow> app_state \<Rightarrow> session \<times> app_state" where
  "reject m s st = (goto (Rejecting m) s, st\<lparr>st_admission := count_rejected (st_admission st)\<rparr>)"

section \<open>Authentication\<close>

text \<open>The request for a password, with which \<open>authenticate\<close> begins.\<close>

definition authenticate_start :: "step_env \<Rightarrow> session \<Rightarrow> app_state \<Rightarrow> session \<times> app_state" where
  [simp]: "authenticate_start env s st =
     (if env_send env 0 then (goto AuthWait (send_json True (AuthRequired 2) s), st)
      else reject AuthFailed s st)"

definition on_opening :: "step_env \<Rightarrow> ws_input \<Rightarrow> session \<Rightarrow> app_state \<Rightarrow> session \<times> app_state" where
  "on_opening env i s st =
     (case i of
        UpgradeFailed \<Rightarrow> drop_pending Done s st
      | Proceed \<Rightarrow>
          (case ss_room s of
             None \<Rightarrow> drop_pending Done s st
           | Some None \<Rightarrow> drop_pending Attaching s st
           | Some (Some _) \<Rightarrow> authenticate_start env s st)
      | _ \<Rightarrow> (s, st))"

definition on_auth_wait :: "web_lib \<Rightarrow> step_env \<Rightarrow> ws_input \<Rightarrow> session \<Rightarrow> app_state \<Rightarrow> session \<times> app_state" where
  "on_auth_wait lib env i s st =
     (case i of
        Recv (NextMsg (MText text)) \<Rightarrow>
          if \<not> length text \<le> 4096 then reject AuthFailed s st
          else (case Option.bind (web_json lib text) decode_authentication of
             None \<Rightarrow> reject AuthFailed s st
           | Some password \<Rightarrow>
               (case check_at (RoomBudget (ss_room_id s)) (env_now env) (st_admission st) of
                  (Inl (Limited retry_after_secs), adm) \<Rightarrow>
                    reject (AuthRateLimited retry_after_secs) s (st\<lparr>st_admission := adm\<rparr>)
                | (Inl Unavailable, adm) \<Rightarrow> reject AuthUnavailable s (st\<lparr>st_admission := adm\<rparr>)
                | (Inr _, adm) \<Rightarrow> (goto (VerifyReady password) s, st\<lparr>st_admission := adm\<rparr>)))
      | Recv (NextMsg (MPing data)) \<Rightarrow>
          if env_send env 0 then (send_frame True (FPong data) s, st) else reject AuthFailed s st
      | Recv (NextMsg (MPong _)) \<Rightarrow> (s, st)
      | Recv _ \<Rightarrow> reject AuthFailed s st
      | Deadline \<Rightarrow> reject AuthFailed s st
      | _ \<Rightarrow> (s, st))"

text \<open>The outcome of \<open>verify\<close>, mapped as at the end of the \<open>timeout\<close> block.\<close>

definition auth_result :: "(password_error + bool) \<Rightarrow> session \<Rightarrow> app_state \<Rightarrow> session \<times> app_state" where
  "auth_result r s st =
     (case r of
        Inr True \<Rightarrow> drop_pending Attaching s st
      | Inr False \<Rightarrow> reject AuthFailed s (st\<lparr>st_admission := count_verification_failed (st_admission st)\<rparr>)
      | Inl PwInvalid \<Rightarrow> reject AuthFailed s (st\<lparr>st_admission := count_verification_failed (st_admission st)\<rparr>)
      | Inl _ \<Rightarrow> reject AuthUnavailable s (st\<lparr>st_admission := count_unavailable (st_admission st)\<rparr>))"

text \<open>The \<open>select!\<close> before the verification has been polled: it may still lose to a second frame.\<close>

definition on_verify_ready ::
  "web_lib \<Rightarrow> string \<Rightarrow> ws_input \<Rightarrow> session \<Rightarrow> app_state \<Rightarrow> session \<times> app_state" where
  "on_verify_ready lib password i s st =
     (case i of
        Proceed \<Rightarrow>
          (case verify_begin (web_crypto lib) password (st_passwords st) of
             (Inl e, svc) \<Rightarrow> auth_result (Inl e) s (st\<lparr>st_passwords := svc\<rparr>)
           | (Inr pw, svc) \<Rightarrow> (goto (VerifyJob pw) s, st\<lparr>st_passwords := svc\<rparr>))
      | Recv _ \<Rightarrow> reject AuthFailed s st
      | Deadline \<Rightarrow> reject AuthFailed s st
      | _ \<Rightarrow> (s, st))"

text \<open>
  The blocking job runs. Its end returns the permit and gives the result; a second frame, a disconnect
  or the deadline ends the wait and leaves the job, with its permit, behind.
\<close>

definition on_verify_job ::
  "web_lib \<Rightarrow> string \<Rightarrow> ws_input \<Rightarrow> session \<Rightarrow> app_state \<Rightarrow> session \<times> app_state" where
  "on_verify_job lib pw i s st =
     (case i of
        JobDone panics \<Rightarrow>
          auth_result (join_result (if panics then None
              else Some (verify_job (web_crypto lib) pw (the (the (ss_room s))))))
            s (st\<lparr>st_passwords := compute_end (st_passwords st)\<rparr>)
      | Recv _ \<Rightarrow> reject AuthFailed s st
      | Deadline \<Rightarrow> reject AuthFailed s st
      | _ \<Rightarrow> (s, st))"

text \<open>The failure and a close frame, within a second; then \<open>handle_socket\<close> returns.\<close>

definition on_rejecting ::
  "outgoing_message \<Rightarrow> step_env \<Rightarrow> ws_input \<Rightarrow> session \<Rightarrow> app_state \<Rightarrow> session \<times> app_state" where
  "on_rejecting m env i s st =
     (case i of
        Proceed \<Rightarrow> drop_pending Done (send_frame (env_send env 1) FClose (send_json (env_send env 0) m s)) st
      | _ \<Rightarrow> (s, st))"

section \<open>Attaching and the key exchange\<close>

definition on_attaching :: "step_env \<Rightarrow> ws_input \<Rightarrow> session \<Rightarrow> app_state \<Rightarrow> session \<times> app_state" where
  "on_attaching env i s st =
     (case i of
        Proceed \<Rightarrow>
          let s1 = s\<lparr>ss_conn_id := env_uuid env\<rparr> in
          (case attach (env_call env) (ss_room_id s1) (ss_conn_id s1) st of
             (Inr (Some (tx, is_creator, creator_id)), st') \<Rightarrow>
               (goto (Welcoming is_creator creator_id) (s1\<lparr>ss_tx := tx\<rparr>), st')
           | (_, st') \<Rightarrow> (goto Unattached s1, st'))
      | _ \<Rightarrow> (s, st))"

definition on_unattached :: "step_env \<Rightarrow> ws_input \<Rightarrow> session \<Rightarrow> app_state \<Rightarrow> session \<times> app_state" where
  "on_unattached env i s st =
     (case i of
        Proceed \<Rightarrow> (goto Done (send_json (env_send env 0) AuthUnavailable s), st)
      | _ \<Rightarrow> (s, st))"

definition is_protected :: "session \<Rightarrow> bool" where
  "is_protected s \<longleftrightarrow> (case ss_room s of Some (Some _) \<Rightarrow> True | _ \<Rightarrow> False)"

definition on_welcoming ::
  "bool \<Rightarrow> string option \<Rightarrow> step_env \<Rightarrow> ws_input \<Rightarrow> session \<Rightarrow> app_state \<Rightarrow> session \<times> app_state" where
  "on_welcoming is_creator creator_id env i s st =
     (case i of
        Proceed \<Rightarrow>
          if env_send env 0
          then (goto Handshaking (send_json True
                  (Welcome (if is_protected s then 2 else protocol_version) (ss_conn_id s) is_creator creator_id) s), st)
          else (goto Detaching s, st)
      | _ \<Rightarrow> (s, st))"

text \<open>The keys of a valid announcement; everything else ends the session.\<close>

definition announced_keys :: "web_lib \<Rightarrow> string \<Rightarrow> (string \<times> string \<times> string option) option" where
  "announced_keys lib text =
     (case Option.bind (web_json lib text) decode_incoming of
        Some (InKeyAnnounce (Some key) pq_public_key sig) \<Rightarrow>
          if \<not> is_valid_mldsa65_public_key lib key then None
          else (case pq_public_key of
                  Some pq_key \<Rightarrow> if is_valid_mlkem768_public_key lib pq_key then Some (key, pq_key, sig) else None
                | None \<Rightarrow> None)
      | _ \<Rightarrow> None)"

definition on_handshaking :: "web_lib \<Rightarrow> ws_input \<Rightarrow> session \<Rightarrow> app_state \<Rightarrow> session \<times> app_state" where
  "on_handshaking lib i s st =
     (case i of
        Recv (NextMsg (MText text)) \<Rightarrow>
          (case announced_keys lib text of
             Some (key, pq_key, sig) \<Rightarrow> (goto (Joining key pq_key sig) s, st)
           | None \<Rightarrow> (goto Detaching s, st))
      | Recv (NextMsg (MPing _)) \<Rightarrow> (s, st)
      | Recv (NextMsg (MPong _)) \<Rightarrow> (s, st)
      | Recv _ \<Rightarrow> (goto Detaching s, st)
      | Deadline \<Rightarrow> (goto Detaching s, st)
      | _ \<Rightarrow> (s, st))"

definition peer_key_message :: "string \<times> string \<times> string \<times> string option \<Rightarrow> outgoing_message" where
  "peer_key_message p = (case p of (peer_id, pk, pq, sig) \<Rightarrow> PeerKey peer_id pk pq sig)"

definition on_joining ::
  "string \<Rightarrow> string \<Rightarrow> string option \<Rightarrow> ws_input \<Rightarrow> session \<Rightarrow> app_state \<Rightarrow> session \<times> app_state" where
  "on_joining key pq_key sig i s st =
     (case i of
        Proceed \<Rightarrow>
          (case join (ss_room_id s) (ss_conn_id s)
                  \<lparr>pt_public_key = key, pt_pq_public_key = pq_key, pt_sig = sig\<rparr> max_participants st of
             (Joined rx peers, st') \<Rightarrow>
               (goto (Announcing ((if is_protected s then [OutJoined] else []) @ map peer_key_message peers))
                  (s\<lparr>ss_rx := rx\<rparr>), st')
           | (Full, st') \<Rightarrow> (goto RejectFull s, st')
           | (RoomGone, st') \<Rightarrow> (goto Detaching s, st'))
      | _ \<Rightarrow> (s, st))"

definition on_reject_full :: "step_env \<Rightarrow> ws_input \<Rightarrow> session \<Rightarrow> app_state \<Rightarrow> session \<times> app_state" where
  "on_reject_full env i s st =
     (case i of
        Proceed \<Rightarrow> (goto Detaching (send_json (env_send env 0) RoomFull s), st)
      | _ \<Rightarrow> (s, st))"

text \<open>One frame at a time: the confirmation, then a key per member; then the relay loop begins.\<close>

definition on_announcing ::
  "outgoing_message list \<Rightarrow> step_env \<Rightarrow> ws_input \<Rightarrow> session \<Rightarrow> app_state \<Rightarrow> session \<times> app_state" where
  "on_announcing ms env i s st =
     (case i of
        Proceed \<Rightarrow>
          (case ms of
             [] \<Rightarrow> (goto Relaying (s\<lparr>ss_last_pong := env_now env, ss_waiting_for_pong := False,
                     ss_limiter := rate_limiter_new msg_rate_capacity msg_rate_refill_per_sec (env_now env)\<rparr>), st)
           | m # ms' \<Rightarrow>
               if env_send env 0 then (goto (Announcing ms') (send_json True m s), st)
               else (goto Detaching s, st))
      | _ \<Rightarrow> (s, st))"

section \<open>The relay loop\<close>

definition relay_ping :: "step_env \<Rightarrow> session \<Rightarrow> session" where
  "relay_ping env s =
     (if ss_waiting_for_pong s \<and> pong_timeout < saturating_duration_since (env_now env) (ss_last_pong s)
      then goto Detaching s
      else if env_send env 0 then send_frame True FPing s\<lparr>ss_waiting_for_pong := True\<rparr>
      else goto Detaching s)"

text \<open>An event of the room: not one's own, not one for another target; an expiry ends the session.\<close>

definition relay_event :: "step_env \<Rightarrow> room_event \<Rightarrow> session \<Rightarrow> session" where
  "relay_event env ev s =
     (if event_sender ev = Some (ss_conn_id s) then s
      else if (case event_target ev of Some target \<Rightarrow> target \<noteq> ss_conn_id s | None \<Rightarrow> False) then s
      else
        let is_expiry = (ev = RoomExpired) in
        if \<not> env_send env 0 then goto Detaching s
        else
          let s1 = send_json True (outgoing_of_event ev) s in
          if is_expiry then goto Detaching (send_frame (env_send env 1) FClose s1) else s1)"

definition relay_recv :: "step_env \<Rightarrow> session \<Rightarrow> app_state \<Rightarrow> session" where
  "relay_recv env s st =
     (case channel_recv (env_buffered env) (ss_rx s) (st_channels st) of
        (Received ev, rx) \<Rightarrow> relay_event env ev (s\<lparr>ss_rx := rx\<rparr>)
      | (Lagged, rx) \<Rightarrow> goto Detaching (s\<lparr>ss_rx := rx\<rparr>)
      | (Pending, _) \<Rightarrow> s)"

text \<open>What a well-formed message of the client causes.\<close>

definition relay_incoming :: "step_env \<Rightarrow> incoming_message \<Rightarrow> session \<Rightarrow> app_state \<Rightarrow> app_state" where
  "relay_incoming env m s st =
     (case m of
        InMessage (Some payload) epoch counter \<Rightarrow>
          send_event (ss_tx s) (Chat (ss_conn_id s) payload epoch counter)
            (st\<lparr>st_db := snd (update_activity (env_call env) (ss_room_id s) (st_db st))\<rparr>)
      | InTreeCommit (Some tree_commit) \<Rightarrow> send_event (ss_tx s) (TreeCommit (ss_conn_id s) tree_commit) st
      | InTreeWelcome (Some tree_welcome) (Some target_peer_id) \<Rightarrow>
          send_event (ss_tx s) (TreeWelcome (ss_conn_id s) target_peer_id tree_welcome) st
      | InTyping \<Rightarrow> send_event (ss_tx s) (Typing (ss_conn_id s)) st
      | _ \<Rightarrow> st)"

definition relay_text :: "web_lib \<Rightarrow> step_env \<Rightarrow> string \<Rightarrow> session \<Rightarrow> app_state \<Rightarrow> session \<times> app_state" where
  "relay_text lib env text s st =
     (case rate_limiter_check (env_now env) (ss_limiter s) of
        (ok, rl) \<Rightarrow>
          let s1 = s\<lparr>ss_limiter := rl\<rparr> in
          if \<not> ok then (s1, st)
          else (case Option.bind (web_json lib text) decode_incoming of
             None \<Rightarrow> (s1, st)
           | Some incoming \<Rightarrow> (s1, relay_incoming env incoming s1 st)))"

definition on_relaying :: "web_lib \<Rightarrow> step_env \<Rightarrow> ws_input \<Rightarrow> session \<Rightarrow> app_state \<Rightarrow> session \<times> app_state" where
  "on_relaying lib env i s st =
     (case i of
        PingTick \<Rightarrow> (relay_ping env s, st)
      | RoomEvent \<Rightarrow> (relay_recv env s st, st)
      | Recv (NextMsg (MText text)) \<Rightarrow> relay_text lib env text s st
      | Recv (NextMsg (MPong _)) \<Rightarrow> (s\<lparr>ss_last_pong := env_now env, ss_waiting_for_pong := False\<rparr>, st)
      | Recv (NextMsg (MPing data)) \<Rightarrow>
          if env_send env 0 then (send_frame True (FPong data) s, st) else (goto Detaching s, st)
      | Recv (NextMsg MClose) \<Rightarrow> (goto Detaching s, st)
      | Recv (NextMsg (MBinary _)) \<Rightarrow> (s, st)
      | Recv NextErr \<Rightarrow> (goto Detaching s, st)
      | Recv NextNone \<Rightarrow> (goto Detaching s, st)
      | _ \<Rightarrow> (s, st))"

definition on_detaching :: "ws_input \<Rightarrow> session \<Rightarrow> app_state \<Rightarrow> session \<times> app_state" where
  "on_detaching i s st =
     (case i of
        Proceed \<Rightarrow> (goto Done s, detach (ss_room_id s) (ss_conn_id s) st)
      | _ \<Rightarrow> (s, st))"

section \<open>The session\<close>

fun session_step :: "web_lib \<Rightarrow> step_env \<Rightarrow> ws_input \<Rightarrow> session \<Rightarrow> app_state \<Rightarrow> session \<times> app_state" where
  "session_step lib env i s st =
     (case ss_phase s of
        Opening \<Rightarrow> on_opening env i s st
      | AuthWait \<Rightarrow> on_auth_wait lib env i s st
      | VerifyReady password \<Rightarrow> on_verify_ready lib password i s st
      | VerifyJob pw \<Rightarrow> on_verify_job lib pw i s st
      | Rejecting m \<Rightarrow> on_rejecting m env i s st
      | Attaching \<Rightarrow> on_attaching env i s st
      | Unattached \<Rightarrow> on_unattached env i s st
      | Welcoming is_creator creator_id \<Rightarrow> on_welcoming is_creator creator_id env i s st
      | Handshaking \<Rightarrow> on_handshaking lib i s st
      | Joining key pq_key sig \<Rightarrow> on_joining key pq_key sig i s st
      | RejectFull \<Rightarrow> on_reject_full env i s st
      | Announcing ms \<Rightarrow> on_announcing ms env i s st
      | Relaying \<Rightarrow> on_relaying lib env i s st
      | Detaching \<Rightarrow> on_detaching i s st
      | Done \<Rightarrow> (s, st)
      | Panicked \<Rightarrow> (s, st))"

declare session_step.simps [simp del]

end
