(* ===== verification/WsAuth.thy ===== *)
theory WsAuth
imports Ws AdmissionSlots
begin

text \<open>
  Admission of connections: the upgrade handler, and authentication in protected rooms. A run of a
  session is a list of steps, each with its environment, its input and the shared state it finds, which
  may be anything: the properties hold whatever all other connections do in between.
\<close>

section \<open>The upgrade handler\<close>

text \<open>The origin gate: exactly one \<open>Origin\<close> header, whose value is an allowed origin.\<close>

lemma origin_allowed_iff:
  "origin_allowed lib headers allowed \<longleftrightarrow>
     (\<exists>h origin. header_get_all headers ''origin'' = [h] \<and> lib_header_to_str (web_http lib) h = Some origin \<and> origin \<in> set allowed)"
  by (auto simp: origin_allowed_def list_ex_iff split: list.splits option.splits)

text \<open>What a slot of an address costs: one of 100 in all and of 10 for the address.\<close>

definition slot_free :: "limits \<Rightarrow> ip_addr \<Rightarrow> bool" where
  "slot_free lm ip \<longleftrightarrow> lim_pending_total lm < 100 \<and> pending_count lm ip < 10"

definition slot_taken :: "ip_addr \<Rightarrow> limits \<Rightarrow> limits \<Rightarrow> bool" where
  "slot_taken ip lm lm' \<longleftrightarrow> lim_pending_total lm' = lim_pending_total lm + 1
     \<and> (\<forall>a. pending_count lm' a = pending_count lm a + (if a = ip then 1 else 0))"

definition same_slots :: "limits \<Rightarrow> limits \<Rightarrow> bool" where
  "same_slots lm lm' \<longleftrightarrow> lim_pending_total lm' = lim_pending_total lm \<and> lim_pending lm' = lim_pending lm"

lemma same_slots_simps [simp]: "same_slots lm lm"
  "same_slots (adm_limits adm) (adm_limits (adm\<lparr>adm_limits := lm\<rparr>)) = same_slots (adm_limits adm) lm"
  by (simp_all add: same_slots_def)

lemma pending_slot:
  assumes "pending ip adm = (r, adm')"
  shows "(\<exists>g. r = Inr g) \<longleftrightarrow> slot_free (adm_limits adm) ip"
    and "case r of Inr g \<Rightarrow> g = ip \<and> slot_taken ip (adm_limits adm) (adm_limits adm')
      | Inl e \<Rightarrow> e = Unavailable \<and> same_slots (adm_limits adm) (adm_limits adm')"
    and "lim_buckets (adm_limits adm') = lim_buckets (adm_limits adm)"
  using assms
  by (auto simp: pending_def Let_def slot_free_def slot_taken_def same_slots_def pending_count_def update_conv'
      split: if_splits option.splits)

lemma check_at_slots:
  "check_at key now adm = (r, adm') \<Longrightarrow> same_slots (adm_limits adm) (adm_limits adm')
     \<and> slot_free (adm_limits adm') ip = slot_free (adm_limits adm) ip
     \<and> slot_taken ip (adm_limits adm') lm = slot_taken ip (adm_limits adm) lm
     \<and> same_slots (adm_limits adm') lm = same_slots (adm_limits adm) lm"
  using check_at_pending [of key now adm]
  by (simp add: same_slots_def slot_free_def slot_taken_def pending_count_def)

text \<open>
  C32. The gates of the WebSocket handler. A connection is upgraded exactly when its origin is allowed, its
  client address is valid, the connection budget of that address has a token, the database answers and,
  for a protected room, a slot is free; the session then starts in the room asked for with the stored hash
  that was read, and holds the one slot taken exactly when the room is protected. A refusal says which
  gate failed first (403 for the origin, 400 for the address, 429 for the budget, 503 for the rest) and
  takes no slot. In every case a token is spent only past the first two gates, and the rooms, the
  channels and the database are as before.
\<close>

theorem ws_handler_gates:
  assumes "ws_handler lib env peer headers rid st = (r, st')"
  defines "origin_fine \<equiv> \<exists>h origin. header_get_all headers ''origin'' = [h]
      \<and> lib_header_to_str (web_http lib) h = Some origin \<and> origin \<in> set (cfg_allowed_origins (st_config st))"
    and "address \<equiv> client_ip (web_http lib) peer headers (cfg_trusted_proxies (st_config st))"
    and "budget \<equiv> \<lambda>ip. check_at (Connection ip) (env_now env) (st_admission st)"
    and "lm \<equiv> adm_limits (st_admission st)" and "lm' \<equiv> adm_limits (st_admission st')"
  shows "((\<exists>s. r = Inr s) \<longleftrightarrow> origin_fine \<and> (\<exists>ip stored. address = Inr ip \<and> fst (budget ip) = Inr ()
        \<and> room_password (env_call env) rid (st_db st) = Inr stored
        \<and> ((\<exists>hash. stored = Some (Some hash)) \<longrightarrow> slot_free lm ip)))
    \<and> (\<forall>s. r = Inr s \<longrightarrow> (\<exists>ip stored. address = Inr ip \<and> room_password (env_call env) rid (st_db st) = Inr stored
        \<and> (if \<exists>hash. stored = Some (Some hash) then s = session_new rid stored (Some ip) \<and> slot_taken ip lm lm'
            else s = session_new rid stored None \<and> same_slots lm lm')))
    \<and> (\<forall>e. r = Inl e \<longrightarrow> same_slots lm lm' \<and> rsp_status e = (if \<not> origin_fine then 403 else
        (case address of Inl _ \<Rightarrow> 400
         | Inr ip \<Rightarrow> (case fst (budget ip) of Inl (Limited _) \<Rightarrow> 429 | _ \<Rightarrow> 503))))
    \<and> lim_buckets lm' = (if origin_fine then (case address of Inl _ \<Rightarrow> lim_buckets lm
        | Inr ip \<Rightarrow> lim_buckets (adm_limits (snd (budget ip)))) else lim_buckets lm)
    \<and> st_db st' = st_db st \<and> st_rooms st' = st_rooms st \<and> st_channels st' = st_channels st"
proof (cases "origin_fine")
  case False
  then show ?thesis
    using assms(1) by (auto simp: ws_handler_def origin_allowed_iff origin_fine_def lm_def lm'_def)
next
  case True
  then have o: "origin_allowed lib headers (cfg_allowed_origins (st_config st))"
    by (simp add: origin_fine_def origin_allowed_iff)
  show ?thesis
  proof (cases address)
    case (Inl e)
    then show ?thesis
      using assms(1) True o client_ip_error by (auto simp: ws_handler_def address_def lm_def lm'_def)
  next
    case (Inr ip)
    note ip = this
    obtain ra adm where chk: "budget ip = (ra, adm)" by fastforce
    note slots = check_at_slots [OF chk [unfolded budget_def]]
    note pre = True o ip ip [unfolded address_def] chk chk [unfolded budget_def]
    show ?thesis
    proof (cases ra)
      case (Inl e)
      then show ?thesis
        using assms(1) pre slots by (cases e) (auto simp: ws_handler_def lm_def lm'_def Let_def)
    next
      case (Inr u)
      note ok = this
      show ?thesis
      proof (cases "room_password (env_call env) rid (st_db st)")
        case (Inl e)
        then show ?thesis using assms(1) pre ok slots by (auto simp: ws_handler_def lm_def lm'_def)
      next
        case (Inr stored)
        obtain rp adm' where p: "pending ip adm = (rp, adm')" by fastforce
        note slot = pending_slot [OF p]
        show ?thesis
        proof (cases "\<exists>hash. stored = Some (Some hash)")
          case True
          then show ?thesis
            using assms(1) pre ok slots Inr p slot
            by (cases rp) (auto simp: ws_handler_def lm_def lm'_def Let_def)
        next
          case False
          then show ?thesis
            using assms(1) pre ok slots Inr
            by (cases stored; cases "the stored") (auto simp: ws_handler_def lm_def lm'_def Let_def)
        qed
      qed
    qed
  qed
qed

section \<open>Runs\<close>

type_synonym ws_step = "step_env \<times> ws_input \<times> app_state"

definition session_run :: "web_lib \<Rightarrow> ws_step list \<Rightarrow> session \<Rightarrow> session" where
  "session_run lib xs s = fold (\<lambda>(env, i, st) s. fst (session_step lib env i s st)) xs s"

lemma session_run_snoc [simp]:
  "session_run lib (xs @ [(env, i, st)]) s = fst (session_step lib env i (session_run lib xs s) st)"
  by (simp add: session_run_def)

lemma session_run_Nil [simp]: "session_run lib [] s = s"
  by (simp add: session_run_def)

text \<open>A step in which the client presents a password for which the room's budget had a token.\<close>

definition presents :: "web_lib \<Rightarrow> string \<Rightarrow> ws_step \<Rightarrow> string \<Rightarrow> bool" where
  "presents lib rid x password \<longleftrightarrow>
     (case x of (env, i, st) \<Rightarrow> \<exists>text. i = Recv (NextMsg (MText text)) \<and> length text \<le> 4096
        \<and> Option.bind (web_json lib text) decode_authentication = Some password
        \<and> fst (check_at (RoomBudget rid) (env_now env) (st_admission st)) = Inr ())"

text \<open>The client has presented a password that the policy admits and the stored hash accepts.\<close>

definition authenticated :: "web_lib \<Rightarrow> string \<Rightarrow> string \<Rightarrow> ws_step list \<Rightarrow> bool" where
  "authenticated lib rid hash xs \<longleftrightarrow>
     (\<exists>x \<in> set xs. \<exists>password. presents lib rid x password \<and> acceptable (web_crypto lib) password
        \<and> verify_job (web_crypto lib) (lib_nfc (web_crypto lib) password) hash = Inr True)"

text \<open>The phases from the attachment on, and those of the authentication.\<close>

fun attached_phase :: "phase \<Rightarrow> bool" where
  "attached_phase Opening \<longleftrightarrow> False"
| "attached_phase AuthWait \<longleftrightarrow> False"
| "attached_phase (VerifyReady _) \<longleftrightarrow> False"
| "attached_phase (VerifyJob _) \<longleftrightarrow> False"
| "attached_phase (Rejecting _) \<longleftrightarrow> False"
| "attached_phase Done \<longleftrightarrow> False"
| "attached_phase Panicked \<longleftrightarrow> False"
| "attached_phase _ \<longleftrightarrow> True"

fun auth_message :: "outgoing_message \<Rightarrow> bool" where
  "auth_message (AuthRequired _) \<longleftrightarrow> True"
| "auth_message AuthFailed \<longleftrightarrow> True"
| "auth_message (AuthRateLimited _) \<longleftrightarrow> True"
| "auth_message AuthUnavailable \<longleftrightarrow> True"
| "auth_message _ \<longleftrightarrow> False"

text \<open>Frames that say nothing about the room: those of the authentication, pongs and close.\<close>

definition auth_frame :: "frame \<Rightarrow> bool" where
  "auth_frame f \<longleftrightarrow> (case f of FText j \<Rightarrow> \<exists>m. auth_message m \<and> j = outgoing_json m
     | FPong _ \<Rightarrow> True | FClose \<Rightarrow> True | FPing \<Rightarrow> False)"

text \<open>What the phase of a session in a protected room says about its run.\<close>

fun phase_ok :: "web_lib \<Rightarrow> string \<Rightarrow> string \<Rightarrow> ws_step list \<Rightarrow> phase \<Rightarrow> bool" where
  "phase_ok lib rid hash xs (VerifyReady password) \<longleftrightarrow> (\<exists>x \<in> set xs. presents lib rid x password)"
| "phase_ok lib rid hash xs (VerifyJob pw) \<longleftrightarrow>
     (\<exists>x \<in> set xs. \<exists>password. presents lib rid x password
        \<and> acceptable (web_crypto lib) password \<and> pw = lib_nfc (web_crypto lib) password)"
| "phase_ok lib rid hash xs (Rejecting m) \<longleftrightarrow> auth_message m"
| "phase_ok lib rid hash xs p \<longleftrightarrow> (attached_phase p \<longrightarrow> authenticated lib rid hash xs)"

definition auth_inv :: "web_lib \<Rightarrow> string \<Rightarrow> string \<Rightarrow> ws_step list \<Rightarrow> session \<Rightarrow> bool" where
  "auth_inv lib rid hash xs s \<longleftrightarrow>
     ss_room s = Some (Some hash) \<and> ss_room_id s = rid \<and> phase_ok lib rid hash xs (ss_phase s)
     \<and> (authenticated lib rid hash xs \<or> list_all auth_frame (ss_sent s))"

lemma authenticated_mono: "authenticated lib rid hash xs \<Longrightarrow> authenticated lib rid hash (xs @ ys)"
  by (auto simp: authenticated_def)

lemma drop_pending_session:
  "ss_room (fst (drop_pending p s st)) = ss_room s" "ss_room_id (fst (drop_pending p s st)) = ss_room_id s"
  "ss_sent (fst (drop_pending p s st)) = ss_sent s"
  "ss_phase (fst (drop_pending p s st)) = p \<or> ss_phase (fst (drop_pending p s st)) = Panicked"
  by (auto simp: drop_pending_def goto_def split: option.splits)

lemma reject_session [simp]:
  "ss_room (fst (reject m s st)) = ss_room s" "ss_room_id (fst (reject m s st)) = ss_room_id s"
  "ss_sent (fst (reject m s st)) = ss_sent s" "ss_phase (fst (reject m s st)) = Rejecting m"
  by (simp_all add: reject_def goto_def)

lemma goto_session [simp]:
  "ss_room (goto p s) = ss_room s" "ss_room_id (goto p s) = ss_room_id s"
  "ss_sent (goto p s) = ss_sent s" "ss_phase (goto p s) = p" "ss_conn_id (goto p s) = ss_conn_id s"
  "ss_tx (goto p s) = ss_tx s" "ss_rx (goto p s) = ss_rx s" "ss_pending (goto p s) = ss_pending s"
  "ss_limiter (goto p s) = ss_limiter s"
  by (simp_all add: goto_def)

lemma send_session [simp]:
  "ss_room (send_frame ok f s) = ss_room s" "ss_room_id (send_frame ok f s) = ss_room_id s"
  "ss_phase (send_frame ok f s) = ss_phase s" "ss_conn_id (send_frame ok f s) = ss_conn_id s"
  "ss_tx (send_frame ok f s) = ss_tx s" "ss_rx (send_frame ok f s) = ss_rx s"
  "ss_pending (send_frame ok f s) = ss_pending s" "ss_limiter (send_frame ok f s) = ss_limiter s"
  "ss_sent (send_frame ok f s) = ss_sent s @ (if ok then [f] else [])"
  by (simp_all add: send_frame_def)

lemma auth_frame_simps [simp]: "auth_frame (FPong d)" "auth_frame FClose"
    "auth_message m \<Longrightarrow> auth_frame (FText (outgoing_json m))"
  by (auto simp: auth_frame_def)

section \<open>Authentication\<close>

lemmas phase_defs = on_opening_def on_auth_wait_def on_verify_ready_def on_verify_job_def on_rejecting_def
  on_attaching_def on_unattached_def on_welcoming_def on_handshaking_def on_joining_def on_reject_full_def
  on_announcing_def on_relaying_def on_detaching_def

lemmas input_splits = ws_input.splits ws_next.splits ws_message.splits option.splits prod.splits sum.splits
  if_splits admission_error.splits bool.splits password_error.splits join_outcome.splits list.splits

lemma relay_session [simp]:
  "ss_room (relay_ping env s) = ss_room s" "ss_room_id (relay_ping env s) = ss_room_id s"
  "ss_room (relay_recv env s st) = ss_room s" "ss_room_id (relay_recv env s st) = ss_room_id s"
  "ss_room (fst (relay_text lib env t s st)) = ss_room s" "ss_room_id (fst (relay_text lib env t s st)) = ss_room_id s"
  by (auto simp: relay_ping_def relay_recv_def relay_event_def relay_text_def send_json_def Let_def
      split: prod.splits recv_result.splits option.splits)

lemma relay_phase:
  "ss_phase s = Relaying \<Longrightarrow> ss_phase (relay_ping env s) \<in> {Relaying, Detaching}"
  "ss_phase s = Relaying \<Longrightarrow> ss_phase (relay_recv env s st) \<in> {Relaying, Detaching}"
  "ss_phase (fst (relay_text lib env t s st)) = ss_phase s"
  by (auto simp: relay_ping_def relay_recv_def relay_event_def relay_text_def send_json_def Let_def
      split: prod.splits recv_result.splits option.splits)

lemma auth_result_session [simp]:
  "ss_room (fst (auth_result r s st)) = ss_room s" "ss_room_id (fst (auth_result r s st)) = ss_room_id s"
  "ss_sent (fst (auth_result r s st)) = ss_sent s"
  by (auto simp: auth_result_def drop_pending_session split: sum.splits bool.splits password_error.splits)

lemma auth_result_phase:
  "(r = Inr True \<and> ss_phase (fst (auth_result r s st)) \<in> {Attaching, Panicked})
   \<or> (\<exists>m. auth_message m \<and> ss_phase (fst (auth_result r s st)) = Rejecting m)"
  using drop_pending_session(4) [of Attaching s st]
  by (auto simp: auth_result_def split: sum.splits bool.splits password_error.splits)

lemma session_step_static [simp]:
  "ss_room (fst (session_step lib env i s st)) = ss_room s"
  "ss_room_id (fst (session_step lib env i s st)) = ss_room_id s"
  by (cases "ss_phase s"; cases i;
      simp add: session_step.simps phase_defs drop_pending_session send_json_def Let_def split: input_splits)+

lemma attached_step:
  assumes "attached_phase (ss_phase s)"
  shows "attached_phase (ss_phase (fst (session_step lib env i s st)))
    \<or> ss_phase (fst (session_step lib env i s st)) = Done"
  using assms relay_phase(1) [of s env] relay_phase(2) [of s env st] relay_phase(3) [of lib env _ s st]
  by (cases "ss_phase s"; cases i;
      simp add: session_step.simps phase_defs send_json_def Let_def split: input_splits; fastforce?)

lemma phase_ok_attached:
  "attached_phase p \<Longrightarrow> phase_ok lib rid hash xs p \<longleftrightarrow> authenticated lib rid hash xs"
  by (cases p) simp_all

lemma auth_inv_mono: "auth_inv lib rid hash xs s \<Longrightarrow> auth_inv lib rid hash (xs @ ys) s"
  by (cases "ss_phase s") (auto simp: auth_inv_def dest: authenticated_mono)

lemma auth_inv_goto:
  "auth_inv lib rid hash xs s \<Longrightarrow> phase_ok lib rid hash xs p \<Longrightarrow> auth_inv lib rid hash xs (goto p s)"
  by (simp add: auth_inv_def)

lemma auth_inv_reject:
  "auth_inv lib rid hash xs s \<Longrightarrow> auth_message m \<Longrightarrow> auth_inv lib rid hash xs (fst (reject m s st))"
  by (simp add: auth_inv_def)

lemma auth_inv_drop:
  "auth_inv lib rid hash xs s \<Longrightarrow> phase_ok lib rid hash xs p \<Longrightarrow> auth_inv lib rid hash xs (fst (drop_pending p s st))"
  by (auto simp: auth_inv_def drop_pending_def goto_def split: option.splits)

lemma auth_inv_send:
  "auth_inv lib rid hash xs s \<Longrightarrow> auth_frame f \<Longrightarrow> auth_inv lib rid hash xs (send_frame ok f s)"
  by (auto simp: auth_inv_def)

lemma auth_inv_send_json:
  "auth_inv lib rid hash xs s \<Longrightarrow> auth_message m \<Longrightarrow> auth_inv lib rid hash xs (send_json ok m s)"
  by (simp add: auth_inv_send send_json_def)

lemmas auth_inv_steps = auth_inv_goto auth_inv_reject auth_inv_drop auth_inv_send auth_inv_send_json

lemma auth_inv_attached:
  assumes "auth_inv lib rid hash xs s" "attached_phase (ss_phase s)"
  shows "auth_inv lib rid hash (xs @ [(env, i, st)]) (fst (session_step lib env i s st))"
proof -
  have "authenticated lib rid hash (xs @ [(env, i, st)])"
    using assms authenticated_mono by (auto simp: auth_inv_def phase_ok_attached)
  moreover from this attached_step [OF assms(2), of lib env i st]
  have "phase_ok lib rid hash (xs @ [(env, i, st)]) (ss_phase (fst (session_step lib env i s st)))"
    by (auto simp: phase_ok_attached)
  ultimately show ?thesis using assms(1) by (simp add: auth_inv_def)
qed

lemma presents_step:
  assumes "ss_room_id s = rid" "length text \<le> 4096"
    "Option.bind (web_json lib text) decode_authentication = Some password"
    "check_at (RoomBudget (ss_room_id s)) (env_now env) (st_admission st) = (Inr u, adm)"
  shows "presents lib rid (env, Recv (NextMsg (MText text)), st) password"
  using assms by (auto simp: presents_def)

lemma auth_inv_auth_wait:
  assumes "auth_inv lib rid hash (xs @ [(env, i, st)]) s"
  shows "auth_inv lib rid hash (xs @ [(env, i, st)]) (fst (on_auth_wait lib env i s st))"
proof -
  have rid: "ss_room_id s = rid" using assms by (simp add: auth_inv_def)
  note pres = presents_step [OF rid]
  show ?thesis
    using assms
    by (cases i)
      (auto simp: on_auth_wait_def intro!: auth_inv_steps pres split: ws_next.splits ws_message.splits option.splits
        prod.splits sum.splits admission_error.splits)
qed

lemma auth_inv_verify_ready:
  assumes "auth_inv lib rid hash xs s" "ss_phase s = VerifyReady password"
  shows "auth_inv lib rid hash xs (fst (on_verify_ready lib password i s st))"
proof -
  have p: "\<exists>x \<in> set xs. presents lib rid x password" using assms by (simp add: auth_inv_def)
  have r: "auth_inv lib rid hash xs (fst (auth_result (Inl e) s st'))" for e st'
    using assms(1) by (cases e) (auto simp: auth_result_def intro: auth_inv_reject)
  show ?thesis
    using assms(1) p r
    by (cases i)
      (auto simp: on_verify_ready_def verify_begin_def normalize_eq intro!: auth_inv_goto auth_inv_reject
        split: sum.splits prod.splits if_splits, blast)
qed

lemma auth_inv_verify_job:
  assumes "auth_inv lib rid hash xs s" "ss_phase s = VerifyJob pw"
  shows "auth_inv lib rid hash xs (fst (on_verify_job lib pw i s st))"
proof -
  have "authenticated lib rid hash xs" if "verify_job (web_crypto lib) pw hash = Inr True"
    using assms that by (auto simp: auth_inv_def authenticated_def)
  then have r: "auth_inv lib rid hash xs (fst (auth_result r s st'))"
    if "r = Inr True \<longrightarrow> verify_job (web_crypto lib) pw hash = Inr True" for r st'
    using assms(1) that
    by (auto simp: auth_result_def intro!: auth_inv_reject auth_inv_drop
        split: sum.splits bool.splits password_error.splits)
  have "the (the (ss_room s)) = hash" using assms(1) by (simp add: auth_inv_def)
  then show ?thesis
    using assms(1) by (cases i) (simp_all add: on_verify_job_def join_result_def auth_inv_reject r)
qed

lemma auth_inv_step:
  assumes inv: "auth_inv lib rid hash xs s"
  shows "auth_inv lib rid hash (xs @ [(env, i, st)]) (fst (session_step lib env i s st))"
proof (cases "attached_phase (ss_phase s)")
  case True
  then show ?thesis by (rule auth_inv_attached [OF inv])
next
  case False
  note inv' = auth_inv_mono [OF inv, of "[(env, i, st)]"]
  have room: "ss_room s = Some (Some hash)" using inv by (simp add: auth_inv_def)
  show ?thesis
  proof (cases "ss_phase s")
    case Opening
    then show ?thesis
      using inv' room
      by (cases i) (auto simp: session_step.simps on_opening_def intro!: auth_inv_steps)
  next
    case AuthWait
    then show ?thesis using auth_inv_auth_wait [OF inv'] by (simp add: session_step.simps)
  next
    case (VerifyReady password)
    then show ?thesis using auth_inv_verify_ready [OF inv' VerifyReady] by (simp add: session_step.simps)
  next
    case (VerifyJob pw)
    then show ?thesis using auth_inv_verify_job [OF inv' VerifyJob] by (simp add: session_step.simps)
  next
    case (Rejecting m)
    then show ?thesis
      using inv'
      by (cases i) (auto simp: session_step.simps on_rejecting_def auth_inv_def [of _ _ _ _ s] intro!: auth_inv_steps)
  qed (use False inv' in \<open>simp_all add: session_step.simps\<close>)
qed

lemma auth_inv_run: "auth_inv lib rid hash xs (session_run lib xs (session_new rid (Some (Some hash)) guard))"
proof (induction xs rule: rev_induct)
  case Nil
  show ?case by (simp add: auth_inv_def session_new_def)
next
  case (snoc x xs)
  then show ?case using auth_inv_step by (cases x) simp
qed

text \<open>
  C2. No one enters a protected room without its password: in any run of a session on a room with a
  stored hash, whatever all other connections do to the shared state between its steps, if the session
  gets as far as attaching to the room (or any later phase), then an earlier step of the run received
  one well-formed authentication frame of at most 4096 bytes, at a moment when the room's budget had a
  token, whose password the policy admits and the stored hash accepts.
\<close>

theorem auth_before_attach:
  assumes "attached_phase (ss_phase (session_run lib xs (session_new rid (Some (Some hash)) guard)))"
  shows "\<exists>env text st password. (env, Recv (NextMsg (MText text)), st) \<in> set xs
    \<and> length text \<le> 4096 \<and> Option.bind (web_json lib text) decode_authentication = Some password
    \<and> fst (check_at (RoomBudget rid) (env_now env) (st_admission st)) = Inr ()
    \<and> acceptable (web_crypto lib) password
    \<and> verify_job (web_crypto lib) (lib_nfc (web_crypto lib) password) hash = Inr True"
proof -
  have "authenticated lib rid hash xs"
    using auth_inv_run [of lib rid hash xs guard] assms by (simp add: auth_inv_def phase_ok_attached)
  then show ?thesis unfolding authenticated_def presents_def by fast
qed

text \<open>The parts of the shared state that other connections of a room can see.\<close>

definition same_rooms :: "app_state \<Rightarrow> app_state \<Rightarrow> bool" where
  "same_rooms st st' \<longleftrightarrow>
     st_db st' = st_db st \<and> st_rooms st' = st_rooms st \<and> st_channels st' = st_channels st"

lemma drop_pending_rooms [simp]: "same_rooms st (snd (drop_pending p s st))"
  by (auto simp: drop_pending_def same_rooms_def split: option.splits)

lemma reject_rooms [simp]: "same_rooms st (snd (reject m s st))"
  by (simp add: reject_def same_rooms_def)

lemma same_rooms_simps [simp]:
  "same_rooms st st" "same_rooms st (st'\<lparr>st_admission := adm\<rparr>) = same_rooms st st'"
  "same_rooms st (st'\<lparr>st_passwords := svc\<rparr>) = same_rooms st st'"
  "same_rooms (st\<lparr>st_admission := adm\<rparr>) st' = same_rooms st st'"
  "same_rooms (st\<lparr>st_passwords := svc\<rparr>) st' = same_rooms st st'"
  by (simp_all add: same_rooms_def)

lemma reject_rooms' [simp]:
  "same_rooms st (snd (reject m s (st\<lparr>st_admission := adm\<rparr>)))"
  "same_rooms st (snd (reject m s (st\<lparr>st_passwords := svc\<rparr>)))"
  "same_rooms st (snd (reject m s (st\<lparr>st_passwords := svc, st_admission := adm\<rparr>)))"
  by (simp_all add: reject_def)

lemma auth_result_rooms: "same_rooms st (snd (auth_result r s st))"
  by (auto simp: auth_result_def split: sum.splits bool.splits password_error.splits)

lemma unattached_step_rooms:
  assumes "\<not> attached_phase (ss_phase s)"
  shows "same_rooms st (snd (session_step lib env i s st))"
proof -
  have r: "same_rooms st (snd (auth_result r s (st\<lparr>st_passwords := svc\<rparr>)))" for r svc
    using auth_result_rooms [of "st\<lparr>st_passwords := svc\<rparr>" r s] by simp
  show ?thesis
    using assms
    by (cases "ss_phase s"; cases i;
        simp add: session_step.simps on_opening_def on_auth_wait_def on_verify_ready_def on_verify_job_def
          on_rejecting_def r split: input_splits)
qed

text \<open>
  C3. A session that has not authenticated learns nothing about a protected room and changes nothing in
  it: in any run, as long as no accepted password was presented, every frame it was sent is one of the
  authentication protocol, and none of its steps changes the database, the rooms or the channels.
\<close>

theorem unauthenticated_harmless:
  assumes "\<not> authenticated lib rid hash xs"
  shows "list_all auth_frame (ss_sent (session_run lib xs (session_new rid (Some (Some hash)) guard)))
    \<and> same_rooms st (snd (session_step lib env i (session_run lib xs (session_new rid (Some (Some hash)) guard)) st))"
proof -
  let ?s = "session_run lib xs (session_new rid (Some (Some hash)) guard)"
  have inv: "auth_inv lib rid hash xs ?s" by (rule auth_inv_run)
  then have "\<not> attached_phase (ss_phase ?s)"
    using assms by (auto simp: auth_inv_def phase_ok_attached)
  then show ?thesis
    using inv assms unattached_step_rooms by (simp add: auth_inv_def)
qed

text \<open>
  C27. An authentication cannot hold its slot longer than the deadline: from any phase of the
  authentication, the deadline and the end of the write of the failure bring the session to its end,
  with its slot given back.
\<close>

theorem auth_deadline_frees_slot:
  assumes "adm_reach (st_admission st) G" "ip \<in># G"
    and "ss_pending s = Some ip" "ss_phase s = AuthWait \<or> (\<exists>p. ss_phase s = VerifyReady p \<or> ss_phase s = VerifyJob p)"
    and "session_step lib env Deadline s st = (s1, st1)" "session_step lib env' Proceed s1 st1 = (s2, st2)"
  shows "ss_phase s1 = Rejecting AuthFailed \<and> ss_phase s2 = Done \<and> ss_pending s2 = None
    \<and> adm_reach (st_admission st2) (G - {#ip#})"
proof -
  have step: "(s1, st1) = reject AuthFailed s st"
    using assms(4,5)
    by (auto simp: session_step.simps on_auth_wait_def on_verify_ready_def on_verify_job_def)
  then have s1: "ss_phase s1 = Rejecting AuthFailed" "ss_pending s1 = Some ip"
      "st_admission st1 = count_rejected (st_admission st)"
    using assms(3) by (simp_all add: reject_def)
  have r1: "adm_reach (st_admission st1) G" unfolding s1(3) by (rule adm_reach.rejected [OF assms(1)])
  obtain adm where d: "pending_drop ip (st_admission st1) = Some adm"
    using slots.release_held [of "st_admission st1" ip] adm_reach_slots [OF r1] assms(2) by blast
  have "adm_reach adm (G - {#ip#})" by (rule adm_reach.drop [OF r1 assms(2) d])
  then show ?thesis
    using assms(6) s1 d
    by (auto simp: session_step.simps on_rejecting_def drop_pending_def send_json_def goto_def)
qed

section \<open>A concrete authentication\<close>

definition auth_web :: web_lib where
  "auth_web = \<lparr>web_http = ascii_lib, web_crypto = toy_lib,
     web_json = (\<lambda>s. if s = ''auth''
       then Some (JObj [(''type'', JStr ''authenticate''), (''password'', JStr toy_password)]) else None),
     web_base64 = Some\<rparr>"

definition quiet_env :: step_env where
  "quiet_env = \<lparr>env_now = 0, env_send = (\<lambda>_. True), env_call = sample_call 1, env_uuid = ''u'', env_buffered = 128\<rparr>"

definition auth_run :: "ws_step list" where
  "auth_run = [(quiet_env, Proceed, sample_state), (quiet_env, Recv (NextMsg (MText ''auth'')), sample_state),
     (quiet_env, Proceed, sample_state), (quiet_env, JobDone False, sample_state)]"

lemma auth_web_simps:
  "web_crypto auth_web = toy_lib"
  "Option.bind (web_json auth_web ''auth'') decode_authentication = Some toy_password"
  by (simp_all add: auth_web_def decode_authentication_def take_tag_def struct_entries_def required_field_def)

lemma room_budget_free: "\<exists>adm. check_at (RoomBudget ''r'') 0 admission_default = (Inr (), adm)"
  by (rule exI [of _ "snd (check_at (RoomBudget ''r'') 0 admission_default)"], rule prod_eqI) (code_simp, simp)

lemma toy_verify: "verify_job toy_lib (lib_nfc toy_lib toy_password) toy_stored = Inr True"
proof -
  have "verify_password toy_lib False toy_password toy_stored password_service_default
      = (Inr True, password_service_default)"
    by (rule hash_verifies [OF toy_documented _ toy_hash [folded toy_stored_def]])
      (simp_all add: toy_salt_def toy_password_def password_service_default_def)
  then show ?thesis
    using toy_acceptable(1) by (simp add: verify_password_cases password_service_default_def)
qed

lemma auth_run_phase:
  "ss_phase (session_run auth_web auth_run (session_new ''r'' (Some (Some toy_stored)) None)) = Attaching"
proof -
  obtain adm where adm: "check_at (RoomBudget ''r'') 0 admission_default = (Inr (), adm)"
    using room_budget_free by blast
  have st: "st_admission sample_state = admission_default" "st_passwords sample_state = password_service_default"
    by (simp_all add: sample_state_def app_state_new_def)
  show ?thesis
    using toy_acceptable(1) toy_verify
    by (simp add: auth_run_def session_run_def session_new_def session_step.simps on_opening_def quiet_env_def
        send_json_def send_frame_def goto_def on_auth_wait_def auth_web_simps st adm on_verify_ready_def
        verify_begin_def normalize_eq compute_begin_def password_service_default_def on_verify_job_def
        join_result_def auth_result_def drop_pending_def)
qed

theorem auth_before_attach_witness:
  "\<exists>password. acceptable toy_lib password \<and> verify_job toy_lib (lib_nfc toy_lib password) toy_stored = Inr True"
proof -
  have "attached_phase (ss_phase (session_run auth_web auth_run (session_new ''r'' (Some (Some toy_stored)) None)))"
    by (simp add: auth_run_phase)
  from auth_before_attach [OF this] show ?thesis by (auto simp: auth_web_simps)
qed

theorem unauthenticated_harmless_witness:
  "list_all auth_frame (ss_sent (session_run auth_web [(quiet_env, Proceed, sample_state)]
      (session_new ''r'' (Some (Some toy_stored)) None)))"
proof -
  have "\<not> authenticated auth_web ''r'' toy_stored [(quiet_env, Proceed, sample_state)]"
    by (simp add: authenticated_def presents_def)
  from unauthenticated_harmless [OF this, of None sample_state quiet_env Proceed] show ?thesis by blast
qed

theorem auth_deadline_frees_slot_witness:
  "\<exists>s1 st1 s2 st2. session_step auth_web quiet_env Deadline
      ((session_new ''r'' (Some (Some toy_stored)) (Some (V4 7)))\<lparr>ss_phase := AuthWait\<rparr>)
      (sample_state\<lparr>st_admission := snd (pending (V4 7) (snd (pending (V4 7) admission_default)))\<rparr>) = (s1, st1)
    \<and> session_step auth_web quiet_env Proceed s1 st1 = (s2, st2)
    \<and> ss_phase s2 = Done \<and> ss_pending s2 = None \<and> adm_reach (st_admission st2) {#V4 7#}"
proof -
  let ?s = "(session_new ''r'' (Some (Some toy_stored)) (Some (V4 7)))\<lparr>ss_phase := AuthWait\<rparr>"
  let ?st = "sample_state\<lparr>st_admission := snd (pending (V4 7) (snd (pending (V4 7) admission_default)))\<rparr>"
  obtain s1 st1 where 1: "session_step auth_web quiet_env Deadline ?s ?st = (s1, st1)" by fastforce
  obtain s2 st2 where 2: "session_step auth_web quiet_env Proceed s1 st1 = (s2, st2)" by fastforce
  have "adm_reach (st_admission ?st) {#V4 7, V4 7#}" using adm_reach_example by simp
  from auth_deadline_frees_slot [OF this _ _ _ 1 2, of "V4 7"] show ?thesis
    using 1 2 by (auto simp: session_new_def)
qed

end
