(* ===== verification/WsRelay.thy ===== *)
theory WsRelay
imports WsAuth
begin

text \<open>
  The session past authentication: what it may put on a channel, what its client gets to see, how much
  it can have relayed, and when it ends for lack of a pong.
\<close>

section \<open>No spoofing\<close>

lemma channel_log_send:
  "channel_log (channel_send c e chs) d =
     (if d = c then map_option (\<lambda>l. l @ [e]) (channel_log chs d) else channel_log chs d)"
  by (rule chan.send_log)

text \<open>A change of the channels by at most one event, which is from the given connection.\<close>

definition sends_as :: "string \<Rightarrow> room_event channels \<Rightarrow> room_event channels \<Rightarrow> bool" where
  "sends_as cid chs chs' \<longleftrightarrow>
     chs' = chs \<or> chs' = chs @ [[]] \<or> (\<exists>tx ev. chs' = channel_send tx ev chs \<and> event_sender ev = Some cid)"

lemma sends_as_refl [simp]: "sends_as cid chs chs"
  by (simp add: sends_as_def)

lemma sends_as_send [simp]: "event_sender ev = Some cid \<Longrightarrow> sends_as cid chs (channel_send tx ev chs)"
  by (auto simp: sends_as_def)

lemma attach_channels: "sends_as cid (st_channels st) (st_channels (snd (attach c rid k st)))"
  by (auto simp: attach_def room_entry_def room_new_def channel_new_def put_room_def sends_as_def Let_def
      split: sum.splits bool.splits option.splits)

lemma join_channels: "sends_as cid (st_channels st) (st_channels (snd (join rid cid p n st)))"
  by (auto simp: join_def put_room_def send_event_def Let_def split: option.splits)

lemma detach_channels: "sends_as cid (st_channels st) (st_channels (detach rid cid st))"
  by (auto simp: detach_def put_room_def send_event_def Let_def split: option.splits)

lemma relay_incoming_channels: "sends_as (ss_conn_id s) (st_channels st) (st_channels (relay_incoming env m s st))"
  by (auto simp: relay_incoming_def send_event_def split: incoming_message.splits option.splits)

text \<open>What a step of an attached session does to the shared state.\<close>

lemma snd_on_attaching [simp]:
  "snd (on_attaching env i s st) =
     (if i = Proceed then snd (attach (env_call env) (ss_room_id s) (env_uuid env) st) else st)"
  by (simp add: on_attaching_def Let_def split: ws_input.splits prod.splits sum.splits option.splits)

lemma snd_on_joining [simp]:
  "snd (on_joining key pq_key sig i s st) =
     (if i = Proceed then snd (join (ss_room_id s) (ss_conn_id s)
        \<lparr>pt_public_key = key, pt_pq_public_key = pq_key, pt_sig = sig\<rparr> max_participants st) else st)"
  by (simp add: on_joining_def split: ws_input.splits prod.splits join_outcome.splits)

lemma snd_on_relaying:
  "snd (on_relaying lib env i s st) = st
   \<or> (\<exists>m rl. snd (on_relaying lib env i s st) = relay_incoming env m (s\<lparr>ss_limiter := rl\<rparr>) st)"
  by (auto simp: on_relaying_def relay_text_def Let_def
      split: ws_input.splits ws_next.splits ws_message.splits prod.splits option.splits)

lemma relay_incoming_limiter [simp]: "relay_incoming env m (s\<lparr>ss_limiter := rl\<rparr>) st = relay_incoming env m s st"
  by (simp add: relay_incoming_def split: incoming_message.splits option.splits)

text \<open>The operation of the shared state that a step of an attached session performs.\<close>

lemma attached_step_state:
  assumes "attached_phase (ss_phase s)"
  shows "snd (session_step lib env i s st) \<in> {st, snd (attach (env_call env) (ss_room_id s) (env_uuid env) st),
      detach (ss_room_id s) (ss_conn_id s) st}
    \<or> (\<exists>p. snd (session_step lib env i s st) = snd (join (ss_room_id s) (ss_conn_id s) p max_participants st))
    \<or> (\<exists>m. ss_phase s = Relaying \<and> snd (session_step lib env i s st) = relay_incoming env m s st)"
proof (cases "ss_phase s = Relaying")
  case True
  then show ?thesis using snd_on_relaying [of lib env i s st] by (auto simp: session_step.simps)
next
  case False
  then show ?thesis
    using assms
    by (cases "ss_phase s"; cases i)
      (auto simp: session_step.simps on_unattached_def on_welcoming_def on_handshaking_def on_reject_full_def
        on_announcing_def on_detaching_def split: ws_next.splits ws_message.splits option.splits list.splits)
qed

lemma step_channels:
  "sends_as (ss_conn_id s) (st_channels st) (st_channels (snd (session_step lib env i s st)))"
proof (cases "attached_phase (ss_phase s)")
  case False
  then show ?thesis using unattached_step_rooms [OF False, of st lib env i] by (simp add: same_rooms_def)
next
  case True
  then show ?thesis
    using attached_step_state [OF True, of lib env i st] attach_channels join_channels detach_channels
      relay_incoming_channels
    by auto
qed

text \<open>The log of each channel after such a change: at most one event more, on one channel.\<close>

definition grows_by :: "room_event list \<Rightarrow> nat \<Rightarrow> room_event channels \<Rightarrow> room_event channels \<Rightarrow> bool" where
  "grows_by new c0 chs chs' \<longleftrightarrow>
     (\<forall>c. channel_log chs' c =
        (case channel_log chs c of
           None \<Rightarrow> if c < length chs' then Some [] else None
         | Some l \<Rightarrow> Some (if c = c0 then l @ new else l)))"

lemma sends_as_grows:
  assumes "sends_as cid chs chs'"
  shows "\<exists>new c0. length new \<le> 1 \<and> list_all (\<lambda>ev. event_sender ev = Some cid) new \<and> grows_by new c0 chs chs'"
proof -
  consider "chs' = chs" | "chs' = chs @ [[]]" | tx ev where "chs' = channel_send tx ev chs" "event_sender ev = Some cid"
    using assms by (auto simp: sends_as_def)
  then show ?thesis
  proof cases
    case 1
    then have "grows_by [] 0 chs chs'" by (simp add: grows_by_def channel_log_def)
    then show ?thesis by (intro exI [of _ "[]"] exI [of _ 0]) simp
  next
    case 2
    then have "grows_by [] 0 chs chs'" by (simp add: grows_by_def channel_log_def nth_append)
    then show ?thesis by (intro exI [of _ "[]"] exI [of _ 0]) simp
  next
    case 3
    then have "grows_by [ev] tx chs chs'" by (auto simp: grows_by_def channel_log_def channel_send_def)
    with 3(2) show ?thesis by (intro exI [of _ "[ev]"] exI [of _ tx]) simp
  qed
qed

text \<open>
  C11. No one can speak as someone else: a step of a session puts at most one event on the channels of
  the backend, on one channel, nothing is ever taken off them, and the event names as its sender the
  connection id that the server gave the session, whatever the client wrote in its frames.
\<close>

theorem no_spoofing:
  "\<exists>new c. length new \<le> 1 \<and> list_all (\<lambda>ev. event_sender ev = Some (ss_conn_id s)) new
    \<and> grows_by new c (st_channels st) (st_channels (snd (session_step lib env i s st)))"
  by (rule sends_as_grows [OF step_channels])

section \<open>What a member is sent\<close>

definition for_me :: "string \<Rightarrow> room_event \<Rightarrow> bool" where
  "for_me cid ev \<longleftrightarrow> event_sender ev \<noteq> Some cid
     \<and> (case event_target ev of Some target \<Rightarrow> target = cid | None \<Rightarrow> True)"

definition message_frame :: "outgoing_message \<Rightarrow> frame" where
  "message_frame m = FText (outgoing_json m)"

fun is_text :: "frame \<Rightarrow> bool" where
  "is_text (FText _) \<longleftrightarrow> True"
| "is_text _ \<longleftrightarrow> False"

text \<open>The messages for a member, in order: those of its join, then the events that concern it.\<close>

definition member_events :: "string \<Rightarrow> room_event list \<Rightarrow> outgoing_message list" where
  "member_events cid evs = map outgoing_of_event (filter (for_me cid) evs)"

lemma member_events_append [simp]: "member_events cid (xs @ ys) = member_events cid xs @ member_events cid ys"
  by (simp add: member_events_def)

text \<open>
  The invariant of a member: \<open>ms\<close> are the messages of its join, \<open>l\<close> is what the channel \<open>c\<close> of its
  room comes to hold, \<open>p\<close> is where its receiver starts. Every text frame since then is accounted for.
\<close>

fun sent_ok ::
  "outgoing_message list \<Rightarrow> room_event list \<Rightarrow> nat \<Rightarrow> nat \<Rightarrow> string \<Rightarrow> phase \<Rightarrow> receiver \<Rightarrow> frame list \<Rightarrow> bool" where
  "sent_ok ms l c p cid (Announcing rest) rx fs \<longleftrightarrow>
     rx = (c, p) \<and> (\<exists>sent. ms = sent @ rest \<and> fs = map message_frame sent)"
| "sent_ok ms l c p cid Relaying rx fs \<longleftrightarrow>
     (\<exists>n. rx = (c, p + n) \<and> p + n \<le> length l
        \<and> fs = map message_frame (ms @ member_events cid (take n (drop p l))))"
| "sent_ok ms l c p cid Detaching rx fs \<longleftrightarrow>
     prefix fs (map message_frame (ms @ member_events cid (drop p l)))"
| "sent_ok ms l c p cid Done rx fs \<longleftrightarrow>
     prefix fs (map message_frame (ms @ member_events cid (drop p l)))"
| "sent_ok ms l c p cid _ rx fs \<longleftrightarrow> False"

definition member_inv ::
  "outgoing_message list \<Rightarrow> room_event list \<Rightarrow> nat \<Rightarrow> nat \<Rightarrow> string \<Rightarrow> frame list \<Rightarrow> session \<Rightarrow> bool" where
  "member_inv ms l c p cid base s \<longleftrightarrow>
     ss_conn_id s = cid
     \<and> (\<exists>new. ss_sent s = base @ new \<and> sent_ok ms l c p cid (ss_phase s) (ss_rx s) (filter is_text new))"

lemma sent_ok_prefix:
  assumes "sent_ok ms l c p cid q rx fs"
  shows "prefix fs (map message_frame (ms @ member_events cid (drop p l)))"
proof -
  have "prefix (map message_frame (ms @ member_events cid (take n (drop p l))))
      (map message_frame (ms @ member_events cid (drop p l)))" for n
    by (metis append_take_drop_id map_mono_prefix member_events_append prefixI append.assoc)
  then show ?thesis using assms by (cases q) (auto intro: prefix_prefix)
qed

lemma member_inv_leave:
  assumes "member_inv ms l c p cid base s" "q = Detaching \<or> q = Done"
  shows "member_inv ms l c p cid base (goto q s)"
  using assms by (auto simp: member_inv_def dest: sent_ok_prefix)

lemma member_inv_send:
  "member_inv ms l c p cid base s \<Longrightarrow> \<not> is_text f \<Longrightarrow> member_inv ms l c p cid base (send_frame ok f s)"
  by (fastforce simp: member_inv_def)

lemma member_inv_fields [simp]:
  "member_inv ms l c p cid base (s\<lparr>ss_limiter := rl\<rparr>) = member_inv ms l c p cid base s"
  "member_inv ms l c p cid base (s\<lparr>ss_last_pong := t\<rparr>) = member_inv ms l c p cid base s"
  "member_inv ms l c p cid base (s\<lparr>ss_waiting_for_pong := w\<rparr>) = member_inv ms l c p cid base s"
  by (simp_all add: member_inv_def)

lemma member_events_for_me:
  "member_events cid [ev] = (if for_me cid ev then [outgoing_of_event ev] else [])"
  by (simp add: member_events_def)

lemma relay_event_cases:
  "relay_event env ev s =
     (if \<not> for_me (ss_conn_id s) ev then s
      else if \<not> env_send env 0 then goto Detaching s
      else if ev = RoomExpired
      then goto Detaching (send_frame (env_send env 1) FClose (send_json True (outgoing_of_event ev) s))
      else send_json True (outgoing_of_event ev) s)"
  by (auto simp: relay_event_def for_me_def Let_def split: option.splits)

lemma member_inv_event:
  assumes inv: "member_inv ms l c p cid base s" "ss_phase s = Relaying" "ss_rx s = (c, q)" "q < length l"
  shows "member_inv ms l c p cid base (relay_event env (l ! q) (s\<lparr>ss_rx := (c, q + 1)\<rparr>))"
proof -
  obtain new n where s: "ss_conn_id s = cid" "ss_sent s = base @ new" "q = p + n"
      "filter is_text new = map message_frame (ms @ member_events cid (take n (drop p l)))"
    using inv by (auto simp: member_inv_def)
  have next_ev: "take (Suc n) (drop p l) = take n (drop p l) @ [l ! q]"
    using inv(4) by (simp add: s(3) take_Suc_conv_app_nth)
  let ?s = "s\<lparr>ss_rx := (c, q + 1)\<rparr>"
  have skip: "member_inv ms l c p cid base ?s" if "\<not> for_me cid (l ! q)"
    using that s inv(2,4) next_ev by (auto simp: member_inv_def member_events_for_me intro!: exI [of _ "Suc n"])
  have stop: "member_inv ms l c p cid base (goto Detaching ?s)"
    using member_inv_leave [OF inv(1), of Detaching] by (simp add: member_inv_def goto_def)
  have sent: "member_inv ms l c p cid base (send_json True (outgoing_of_event (l ! q)) ?s)" if "for_me cid (l ! q)"
  proof -
    have "filter is_text (new @ [message_frame (outgoing_of_event (l ! q))])
        = map message_frame (ms @ member_events cid (take (Suc n) (drop p l)))"
      using that s(4) by (simp add: next_ev member_events_for_me message_frame_def)
    then have "sent_ok ms l c p cid Relaying (c, q + 1)
        (filter is_text (new @ [message_frame (outgoing_of_event (l ! q))]))"
      using inv(4) s(3) by (auto intro!: exI [of _ "Suc n"] simp del: filter_append)
    then show ?thesis
      unfolding member_inv_def using s(1,2) inv(2)
      by (intro conjI exI [of _ "new @ [message_frame (outgoing_of_event (l ! q))]"])
        (simp_all add: send_json_def message_frame_def)
  qed
  show ?thesis
    using skip stop sent s(1) by (auto simp: relay_event_cases intro!: member_inv_leave member_inv_send)
qed

lemma member_inv_announcing:
  assumes "member_inv ms l c p cid base s" "ss_phase s = Announcing rest" "p \<le> length l"
  shows "member_inv ms l c p cid base (fst (on_announcing rest env i s st))"
proof (cases "i = Proceed")
  case False
  then show ?thesis using assms by (cases i) (simp_all add: on_announcing_def)
next
  case True
  obtain new sent where s: "ss_conn_id s = cid" "ss_sent s = base @ new" "ss_rx s = (c, p)"
      "ms = sent @ rest" "filter is_text new = map message_frame sent"
    using assms(1,2) by (auto simp: member_inv_def)
  show ?thesis
  proof (cases rest)
    case Nil
    then show ?thesis
      using True s assms(3)
      by (auto simp: on_announcing_def member_inv_def member_events_def intro!: exI [of _ "0 :: nat"])
  next
    case (Cons m ms')
    have "sent_ok ms l c p cid (Announcing ms') (c, p) (filter is_text (new @ [message_frame m]))"
      using s(4,5) Cons by (auto simp: message_frame_def intro!: exI [of _ "sent @ [m]"])
    then have "member_inv ms l c p cid base (goto (Announcing ms') (send_json True m s))"
      unfolding member_inv_def using s(1-3)
      by (intro conjI exI [of _ "new @ [message_frame m]"]) (simp_all add: send_json_def message_frame_def)
    then show ?thesis
      using True Cons member_inv_leave [OF assms(1), of Detaching] by (simp add: on_announcing_def)
  qed
qed

lemma channel_recv_prefix:
  assumes "channel_log chs c = Some l0" "prefix l0 l" "channel_recv b (c, q) chs = (Received ev, rx)"
  shows "q < length l \<and> ev = l ! q \<and> rx = (c, q + 1)"
  using assms by (auto simp: channel_recv_def channel_log_def prefix_def nth_append split: if_splits)

lemma member_inv_relaying:
  assumes inv: "member_inv ms l c p cid base s" "ss_phase s = Relaying"
    and log: "channel_log (st_channels st) c = Some l0" "prefix l0 l"
  shows "member_inv ms l c p cid base (fst (on_relaying lib env i s st))"
proof -
  note leave = member_inv_leave [OF inv(1)] and send = member_inv_send [OF inv(1)]
  obtain q where rx: "ss_rx s = (c, q)" using inv by (auto simp: member_inv_def)
  have recv: "member_inv ms l c p cid base (relay_recv env s st)"
  proof -
    obtain r rx' where Pair: "channel_recv (env_buffered env) (c, q) (st_channels st) = (r, rx')"
      by (rule prod.exhaust)
    show ?thesis
    proof (cases r)
      case (Received ev)
      then show ?thesis
        using channel_recv_prefix [OF log, of "env_buffered env" q ev rx'] member_inv_event [OF inv rx] rx Pair
        by (auto simp: relay_recv_def)
    next
      case Lagged
      have "member_inv ms l c p cid base (goto Detaching (s\<lparr>ss_rx := rx'\<rparr>))"
        using leave [of Detaching] by (simp add: member_inv_def goto_def)
      then show ?thesis using rx Pair Lagged by (simp add: relay_recv_def)
    qed (use rx Pair inv in \<open>simp add: relay_recv_def\<close>)
  qed
  have ping: "member_inv ms l c p cid base (relay_ping env s)"
    using leave [of Detaching] inv(1) by (auto simp: relay_ping_def intro!: member_inv_send)
  have rtext: "member_inv ms l c p cid base (fst (relay_text lib env t s st))" for t
    using inv(1) by (auto simp: relay_text_def Let_def split: prod.splits option.splits)
  show ?thesis
    using recv ping rtext leave send inv(1)
    by (auto simp: on_relaying_def split: ws_input.splits ws_next.splits ws_message.splits)
qed

lemma member_inv_step:
  assumes "member_inv ms l c p cid base s" "channel_log (st_channels st) c = Some l0" "prefix l0 l" "p \<le> length l"
  shows "member_inv ms l c p cid base (fst (session_step lib env i s st))"
proof (cases "ss_phase s")
  case (Announcing rest)
  then show ?thesis using member_inv_announcing [OF assms(1) Announcing assms(4)] by (simp add: session_step.simps)
next
  case Relaying
  then show ?thesis using member_inv_relaying [OF assms(1) Relaying assms(2,3)] by (simp add: session_step.simps)
next
  case Detaching
  then show ?thesis
    using assms(1) member_inv_leave [OF assms(1), of Done]
    by (cases i) (simp_all add: session_step.simps on_detaching_def)
next
  case Done
  then show ?thesis using assms(1) by (simp add: session_step.simps)
qed (use assms(1) in \<open>simp_all add: member_inv_def\<close>)

lemma member_inv_run:
  assumes "member_inv ms l c p cid base s" "p \<le> length l"
    and "\<And>env i st. (env, i, st) \<in> set xs \<Longrightarrow> \<exists>l0. channel_log (st_channels st) c = Some l0 \<and> prefix l0 l"
  shows "member_inv ms l c p cid base (session_run lib xs s)"
  using assms(3)
proof (induction xs rule: rev_induct)
  case Nil
  then show ?case using assms(1) by simp
next
  case (snoc x xs)
  obtain env i st where x: "x = (env, i, st)" by (cases x)
  obtain l0 where "channel_log (st_channels st) c = Some l0" "prefix l0 l"
    using snoc.prems [of env i st] by (auto simp: x)
  moreover have "member_inv ms l c p cid base (session_run lib xs s)"
    by (rule snoc.IH) (use snoc.prems in auto)
  ultimately show ?case by (simp add: x member_inv_step [OF _ _ _ assms(2)])
qed

section \<open>The view of a member\<close>

text \<open>What a client makes of the messages about members.\<close>

fun view_message :: "outgoing_message \<Rightarrow> (string \<Rightarrow> participant option) \<Rightarrow> string \<Rightarrow> participant option" where
  "view_message (PeerKey peer pk pq sig) m =
     m(peer \<mapsto> \<lparr>pt_public_key = pk, pt_pq_public_key = pq, pt_sig = sig\<rparr>)"
| "view_message (OutPeerJoined peer pk pq sig) m =
     m(peer \<mapsto> \<lparr>pt_public_key = pk, pt_pq_public_key = pq, pt_sig = sig\<rparr>)"
| "view_message (OutPeerLeft peer) m = m(peer := None)"
| "view_message _ m = m"

definition client_view :: "outgoing_message list \<Rightarrow> string \<Rightarrow> participant option" where
  "client_view ms = fold view_message ms Map.empty"

lemma view_event [simp]: "view_message (outgoing_of_event ev) = apply_event ev"
  by (cases ev) (auto simp: fun_eq_iff)

lemma apply_not_for_me: "\<not> for_me cid ev \<Longrightarrow> (apply_event ev m)(cid := None) = m(cid := None)"
  by (cases ev) (auto simp: for_me_def)

lemma apply_event_cong:
  assumes "m1(cid := None) = m2(cid := None)"
  shows "(apply_event ev m1)(cid := None) = (apply_event ev m2)(cid := None)"
proof
  fix x
  show "((apply_event ev m1)(cid := None)) x = ((apply_event ev m2)(cid := None)) x"
    using fun_cong [OF assms, of x] by (cases ev) (simp_all split: if_splits)
qed

lemma replay_cong:
  "m1(cid := None) = m2(cid := None) \<Longrightarrow> (replay evs m1)(cid := None) = (replay evs m2)(cid := None)"
  by (induction evs arbitrary: m1 m2) (simp, metis apply_event_cong replay_Cons)

lemma fold_member_events:
  "(fold view_message (member_events cid evs) m)(cid := None) = (replay evs m)(cid := None)"
proof (induction evs arbitrary: m)
  case (Cons ev evs)
  show ?case
  proof (cases "for_me cid ev")
    case True
    then show ?thesis using Cons.IH by (simp add: member_events_def)
  next
    case False
    then show ?thesis
      using Cons.IH [of m] replay_cong [OF apply_not_for_me [OF False], of evs m] by (simp add: member_events_def)
  qed
qed (simp add: member_events_def)

lemma participant_eta [simp]:
  "\<lparr>pt_public_key = pt_public_key p, pt_pq_public_key = pt_pq_public_key p, pt_sig = pt_sig p\<rparr> = p"
  by (cases p) simp

lemma view_peer_keys:
  "distinct (keys ps) \<Longrightarrow> fold view_message (map peer_key_message (snapshot ps)) m = m ++ map_of ps"
proof (induction ps arbitrary: m)
  case (Cons kp ps)
  obtain k p where kp: "kp = (k, p)" by (cases kp)
  have "map_of ps k = None" using Cons.prems by (auto simp: kp map_of_eq_None_iff)
  then have "m(k \<mapsto> p) ++ map_of ps = m ++ map_of (kp # ps)"
    by (intro ext) (auto simp: kp map_add_def simp del: map_of_eq_Some_iff split: option.splits)
  moreover have "fold view_message (map peer_key_message (snapshot (kp # ps))) m
      = fold view_message (map peer_key_message (snapshot ps)) (m(k \<mapsto> p))"
    by (simp add: kp snapshot_def peer_key_message_def)
  moreover have "distinct (keys ps)" using Cons.prems by simp
  ultimately show ?case by (metis Cons.IH)
qed (simp add: snapshot_def)

text \<open>A run of the session among steps of the backend: every state it finds lies between two states.\<close>

definition run_between :: "app_state \<Rightarrow> app_state \<Rightarrow> ws_step list \<Rightarrow> bool" where
  "run_between st st' xs \<longleftrightarrow>
     list_all (\<lambda>(env, i, stx). state_step\<^sup>*\<^sup>* st stx \<and> state_step\<^sup>*\<^sup>* stx st') xs \<and> state_step\<^sup>*\<^sup>* st st'"

lemma joining_step:
  assumes "ss_phase s = Joining key pq sig" "session_step lib env Proceed s st = (s1, st1)" "ss_phase s1 = Announcing ms"
  obtains room where "map_of (st_rooms st) (ss_room_id s) = Some room"
    "ms = (if is_protected s then [OutJoined] else []) @ map peer_key_message (snapshot (rm_participants room))"
    "ss_rx s1 = (rm_tx room, length (st_channels st ! rm_tx room))" "ss_conn_id s1 = ss_conn_id s"
    "st_channels st1 = channel_send (rm_tx room) (PeerJoined (ss_conn_id s) key pq sig) (st_channels st)"
    "state_step st st1"
proof -
  let ?p = "\<lparr>pt_public_key = key, pt_pq_public_key = pq, pt_sig = sig\<rparr>"
  obtain out st' where j: "join (ss_room_id s) (ss_conn_id s) ?p max_participants st = (out, st')" by fastforce
  then obtain ch pos peers where out: "out = Joined (ch, pos) peers"
    using assms by (cases out) (auto simp: session_step.simps on_joining_def)
  from join_Joined [OF j [unfolded out]] obtain room where room: "map_of (st_rooms st) (ss_room_id s) = Some room"
      "ch = rm_tx room" "pos = length (st_channels st ! ch)" "peers = snapshot (rm_participants room)"
      "st_channels st' = channel_send ch (PeerJoined (ss_conn_id s) key pq sig) (st_channels st)"
    by auto
  have "state_step st st'" using state_step.join [of st "ss_room_id s" "ss_conn_id s" ?p] j by simp
  moreover have "s1 = goto (Announcing ((if is_protected s then [OutJoined] else []) @ map peer_key_message peers))
      (s\<lparr>ss_rx := (ch, pos)\<rparr>)" "st1 = st'"
    using assms(1,2) j out by (simp_all add: session_step.simps on_joining_def)
  ultimately show thesis
    using that [OF room(1)] assms(3) room by simp
qed

lemma member_inv_joined:
  assumes "rooms_inv st" "ss_phase s = Joining key pq sig" "session_step lib env Proceed s st = (s1, st1)"
    and "ss_phase s1 = Announcing ms" "ss_rx s1 = (ch, pos)" "run_between st1 st2 xs"
  shows "member_inv ms (st_channels st2 ! ch) ch pos (ss_conn_id s) (ss_sent s1) (session_run lib xs s1)"
proof -
  obtain room where room: "map_of (st_rooms st) (ss_room_id s) = Some room" "ch = rm_tx room"
      "pos = length (st_channels st ! ch)" "ss_conn_id s1 = ss_conn_id s"
      "st_channels st1 = channel_send ch (PeerJoined (ss_conn_id s) key pq sig) (st_channels st)"
    using joining_step [OF assms(2-4)] assms(5) by (metis prod.inject)
  have ch: "ch < length (st_channels st1)" using rooms_invD(1) [OF assms(1) room(1)] room by simp
  have ext: "chan.extends (st_channels st1) (st_channels st2)"
    using assms(6) state_steps_extend by (auto simp: run_between_def)
  have "pos \<le> length (st_channels st2 ! ch)"
    using extends_nth [OF ext ch] room(3,5) ch by (auto dest!: prefix_length_le)
  moreover have "\<exists>l0. channel_log (st_channels stx) ch = Some l0 \<and> prefix l0 (st_channels st2 ! ch)"
    if "(e, i, stx) \<in> set xs" for e i stx
  proof -
    have "state_step\<^sup>*\<^sup>* st1 stx" "state_step\<^sup>*\<^sup>* stx st2"
      using assms(6) that by (auto simp: run_between_def list_all_iff)
    then have "ch < length (st_channels stx)" "prefix (st_channels stx ! ch) (st_channels st2 ! ch)"
      using extends_nth [OF state_steps_extend] ch by blast+
    then show ?thesis by (simp add: channel_log_def)
  qed
  moreover have "member_inv ms (st_channels st2 ! ch) ch pos (ss_conn_id s) (ss_sent s1) s1"
    using assms(4,5) room(4) by (simp add: member_inv_def)
  ultimately show ?thesis by (intro member_inv_run) blast+
qed

text \<open>
  C8. A member receives, in order and each once, the messages of its join and then the events of its
  room that concern it: all but its own, and of the tree welcomes only those addressed to it. Whatever
  the other connections do between the steps of its session, the text frames it has been sent are a
  beginning of that sequence, and exactly the part up to the receiver's position while it relays:
  nothing is skipped, repeated or reordered; a member that cannot keep up is cut off instead.
\<close>

theorem member_receives_in_order:
  assumes "state_reachable st" "ss_phase s = Joining key pq sig" "session_step lib env Proceed s st = (s1, st1)"
    and "ss_phase s1 = Announcing ms" "ss_rx s1 = (ch, pos)" "run_between st1 st2 xs"
  shows "\<exists>new. ss_sent (session_run lib xs s1) = ss_sent s1 @ new
    \<and> prefix (filter is_text new) (map message_frame (ms @ member_events (ss_conn_id s) (drop pos (st_channels st2 ! ch))))
    \<and> (ss_phase (session_run lib xs s1) = Relaying \<longrightarrow> (\<exists>n. ss_rx (session_run lib xs s1) = (ch, pos + n)
         \<and> filter is_text new
           = map message_frame (ms @ member_events (ss_conn_id s) (take n (drop pos (st_channels st2 ! ch))))))"
proof -
  have inv: "member_inv ms (st_channels st2 ! ch) ch pos (ss_conn_id s) (ss_sent s1) (session_run lib xs s1)"
    by (rule member_inv_joined [OF reachable_inv [OF assms(1)] assms(2-6)])
  then obtain new where new: "ss_sent (session_run lib xs s1) = ss_sent s1 @ new"
      "sent_ok ms (st_channels st2 ! ch) ch pos (ss_conn_id s) (ss_phase (session_run lib xs s1))
         (ss_rx (session_run lib xs s1)) (filter is_text new)"
    by (auto simp: member_inv_def)
  then show ?thesis
    using sent_ok_prefix [OF new(2)] by (intro exI [of _ new]) auto
qed

text \<open>
  C9. What a member sees is the membership: once a relaying member has taken every event of its channel,
  the members it knows from the frames it was sent since its join are exactly the other participants
  of the room, with their keys.
\<close>

theorem member_view_exact:
  assumes "state_reachable st" "ss_phase s = Joining key pq sig" "session_step lib env Proceed s st = (s1, st1)"
    and "ss_phase s1 = Announcing ms" "run_between st1 st2 xs"
    and "session_run lib xs s1 = s2" "ss_phase s2 = Relaying"
    and "map_of (st_rooms st2) rid = Some room" "ss_rx s2 = (rm_tx room, length (st_channels st2 ! rm_tx room))"
  shows "\<exists>new ms'. ss_sent s2 = ss_sent s1 @ new \<and> filter is_text new = map message_frame ms'
    \<and> (client_view ms')(ss_conn_id s := None) = (map_of (rm_participants room))(ss_conn_id s := None)"
proof -
  let ?cid = "ss_conn_id s"
  have inv: "rooms_inv st" by (rule reachable_inv [OF assms(1)])
  obtain room0 where r0: "map_of (st_rooms st) (ss_room_id s) = Some room0"
      "ms = (if is_protected s then [OutJoined] else []) @ map peer_key_message (snapshot (rm_participants room0))"
      "ss_rx s1 = (rm_tx room0, length (st_channels st ! rm_tx room0))"
      "st_channels st1 = channel_send (rm_tx room0) (PeerJoined ?cid key pq sig) (st_channels st)" "state_step st st1"
    using joining_step [OF assms(2-4)] by metis
  let ?ch = "rm_tx room0" and ?pos = "length (st_channels st ! rm_tx room0)"
  let ?l = "st_channels st2 ! ?ch"
  have "member_inv ms ?l ?ch ?pos ?cid (ss_sent s1) s2"
    using member_inv_joined [OF inv assms(2-4) r0(3) assms(5)] assms(6) by simp
  then obtain new n where new: "ss_sent s2 = ss_sent s1 @ new" "ss_rx s2 = (?ch, ?pos + n)"
      "filter is_text new = map message_frame (ms @ member_events ?cid (take n (drop ?pos ?l)))"
    using assms(7) by (auto simp: member_inv_def)
  have room: "rm_tx room = ?ch" "?pos + n = length ?l" using new(2) assms(9) by auto
  have steps: "state_step\<^sup>*\<^sup>* st1 st2" using assms(5) by (simp add: run_between_def)
  have ch: "?ch < length (st_channels st1)" using rooms_invD(1) [OF inv r0(1)] r0(4) by simp
  then have log: "take ?pos ?l = st_channels st ! ?ch"
    using extends_nth [OF state_steps_extend [OF steps] ch] r0(4) by (auto simp: prefix_def)
  have "rooms_inv st2" using state_steps_inv [OF steps] state_step_inv [OF r0(5) inv] by blast
  then have "map_of (rm_participants room) = replay (take ?pos ?l @ drop ?pos ?l) Map.empty"
    using rooms_invD(3) [OF _ assms(8)] room(1) by simp
  also have "\<dots> = replay (drop ?pos ?l) (map_of (rm_participants room0))"
    using rooms_invD(3) [OF inv r0(1)] by (simp only: replay_append log)
  finally have parts: "map_of (rm_participants room) = replay (drop ?pos ?l) (map_of (rm_participants room0))" .
  have "client_view (ms @ member_events ?cid (drop ?pos ?l))
      = fold view_message (member_events ?cid (drop ?pos ?l)) (map_of (rm_participants room0))"
    using view_peer_keys [OF rooms_invD(2) [OF inv r0(1)], of Map.empty] by (simp add: client_view_def r0(2))
  then have "(client_view (ms @ member_events ?cid (drop ?pos ?l)))(?cid := None)
      = (map_of (rm_participants room))(?cid := None)"
    by (simp add: fold_member_events parts)
  moreover have "take n (drop ?pos ?l) = drop ?pos ?l" using room(2) by simp
  ultimately show ?thesis using new(1,3) by (intro exI conjI) simp_all
qed

text \<open>
  A member to try this on: \<open>y\<close> joins the room \<open>a\<close>, where \<open>x\<close> is, is sent the key of \<open>x\<close>, passes over its
  own join and is relayed a message of \<open>x\<close>.
\<close>

definition relay_env :: step_env where
  "relay_env = \<lparr>env_now = 0, env_send = (\<lambda>_. True), env_call = sample_call 1, env_uuid = ''u'', env_buffered = 128\<rparr>"

definition joining_session :: session where
  "joining_session = (session_new ''a'' (Some None) None)\<lparr>ss_phase := Joining ''k'' ''q'' None, ss_conn_id := ''y''\<rparr>"

definition announcing_session :: session where
  "announcing_session = joining_session\<lparr>ss_phase := Announcing [PeerKey ''x'' ''k'' ''q'' None], ss_rx := (0, 1)\<rparr>"

definition both_joined :: app_state where
  "both_joined = snd (join ''a'' ''y'' \<lparr>pt_public_key = ''k'', pt_pq_public_key = ''q'', pt_sig = None\<rparr> max_participants sample_joined)"

definition chatted :: app_state where
  "chatted = send_event 0 (Chat ''x'' ''hi'' None None) both_joined"

definition relay_run :: "ws_step list" where
  "relay_run = [(relay_env, Proceed, both_joined), (relay_env, Proceed, both_joined),
     (relay_env, RoomEvent, chatted), (relay_env, RoomEvent, chatted)]"

lemma joining_example: "session_step auth_web relay_env Proceed joining_session sample_joined = (announcing_session, both_joined)"
proof -
  have "join ''a'' ''y'' \<lparr>pt_public_key = ''k'', pt_pq_public_key = ''q'', pt_sig = None\<rparr> max_participants sample_joined
      = (Joined (0, 1) [(''x'', ''k'', ''q'', None)], both_joined)"
    unfolding both_joined_def by code_simp
  then show ?thesis
    by (simp add: session_step.simps on_joining_def joining_session_def session_new_def is_protected_def
        announcing_session_def goto_def peer_key_message_def)
qed

lemma relay_run_between: "run_between both_joined chatted relay_run"
proof -
  have "state_step both_joined chatted" unfolding chatted_def by (rule state_step.relay) simp
  then show ?thesis by (simp add: run_between_def relay_run_def r_into_rtranclp)
qed

lemma relay_run_result:
  "ss_phase (session_run auth_web relay_run announcing_session) = Relaying"
  "ss_rx (session_run auth_web relay_run announcing_session) = (0, 3)"
proof -
  have "channel_recv 128 (0, 1) (st_channels chatted) = (Received (PeerJoined ''y'' ''k'' ''q'' None), (0, 2))"
    "channel_recv 128 (0, 2) (st_channels chatted) = (Received (Chat ''x'' ''hi'' None None), (0, 3))"
    by code_simp+
  then show "ss_phase (session_run auth_web relay_run announcing_session) = Relaying"
    "ss_rx (session_run auth_web relay_run announcing_session) = (0, 3)"
    by (simp_all add: session_run_def relay_run_def announcing_session_def joining_session_def session_new_def
        session_step.simps on_announcing_def relay_env_def on_relaying_def relay_recv_def relay_event_def goto_def
        send_json_def send_frame_def)
qed

theorem member_receives_in_order_witness:
  "\<exists>new. ss_sent (session_run auth_web relay_run announcing_session) = new
    \<and> filter is_text new = map message_frame [PeerKey ''x'' ''k'' ''q'' None, OutMessage ''x'' ''hi'' None None]"
proof -
  have pre: "ss_phase joining_session = Joining ''k'' ''q'' None" "ss_conn_id joining_session = ''y''"
    "ss_phase announcing_session = Announcing [PeerKey ''x'' ''k'' ''q'' None]" "ss_rx announcing_session = (0, 1)"
    "ss_sent announcing_session = []"
    by (simp_all add: joining_session_def announcing_session_def session_new_def)
  have log: "st_channels chatted ! 0 = [PeerJoined ''x'' ''k'' ''q'' None, PeerJoined ''y'' ''k'' ''q'' None, Chat ''x'' ''hi'' None None]"
    by code_simp
  show ?thesis
    using member_receives_in_order [OF sample_reachable(3) pre(1) joining_example pre(3,4) relay_run_between]
      relay_run_result
    by (auto simp: pre log member_events_def for_me_def numeral_eq_Suc)
qed

theorem member_view_exact_witness:
  "\<exists>ms'. (client_view ms')(''y'' := None) = [''x'' \<mapsto> sample_participant]"
proof -
  have pre: "ss_phase joining_session = Joining ''k'' ''q'' None" "ss_conn_id joining_session = ''y''"
    "ss_phase announcing_session = Announcing [PeerKey ''x'' ''k'' ''q'' None]"
    by (simp_all add: joining_session_def announcing_session_def session_new_def)
  have room: "map_of (st_rooms chatted) ''a'' = Some \<lparr>rm_tx = 0, rm_creator_id = Some ''x'',
      rm_participants = [(''x'', sample_participant), (''y'', sample_participant)]\<rparr>"
    by code_simp
  have len: "length (st_channels chatted ! 0) = 3" by code_simp
  have "\<exists>new ms'. ss_sent (session_run auth_web relay_run announcing_session) = ss_sent announcing_session @ new
      \<and> filter is_text new = map message_frame ms'
      \<and> (client_view ms')(''y'' := None) = (map_of [(''x'', sample_participant), (''y'', sample_participant)])(''y'' := None)"
    using member_view_exact [OF sample_reachable(3) pre(1) joining_example pre(3) relay_run_between refl
        relay_run_result(1) room] relay_run_result(2) len
    by (simp add: pre)
  then show ?thesis by auto
qed

end
