(* ===== verification/WsLimits.thy ===== *)
theory WsLimits
imports WsRelay
begin

text \<open>
  How much a session can do and how long it can stay: the relay budget of a connection, counted in
  changes of the shared state, and the keep-alive, which ends a session whose client is silent.
\<close>

section \<open>The relay budget\<close>

text \<open>The instants at which text frames arrive in a run, and the steps that change the shared state.\<close>

fun text_times :: "ws_step list \<Rightarrow> instant list" where
  "text_times [] = []"
| "text_times ((env, i, st) # xs) =
     (case i of Recv (NextMsg (MText _)) \<Rightarrow> env_now env # text_times xs | _ \<Rightarrow> text_times xs)"

fun relay_changes :: "web_lib \<Rightarrow> ws_step list \<Rightarrow> session \<Rightarrow> nat" where
  "relay_changes lib [] s = 0"
| "relay_changes lib ((env, i, st) # xs) s =
     (case session_step lib env i s st of (s', st') \<Rightarrow>
        of_bool (ss_phase s = Relaying \<and> st' \<noteq> st) + relay_changes lib xs s')"

lemma session_run_Cons:
  "session_run lib ((env, i, st) # xs) s = session_run lib xs (fst (session_step lib env i s st))"
  by (simp add: session_run_def)

lemma session_run_append: "session_run lib (xs @ ys) s = session_run lib ys (session_run lib xs s)"
  by (simp add: session_run_def)

lemma leaving_step:
  assumes "ss_phase s = Detaching \<or> ss_phase s = Done"
  shows "ss_phase (fst (session_step lib env i s st)) = Detaching \<or> ss_phase (fst (session_step lib env i s st)) = Done"
  using assms by (cases i) (auto simp: session_step.simps on_detaching_def)

lemma leaving_run:
  "ss_phase s = Detaching \<or> ss_phase s = Done \<Longrightarrow>
   ss_phase (session_run lib xs s) = Detaching \<or> ss_phase (session_run lib xs s) = Done"
proof (induction xs arbitrary: s)
  case (Cons x xs)
  then show ?case by (cases x) (simp add: session_run_Cons leaving_step)
qed simp

lemma leaving_changes:
  "ss_phase s = Detaching \<or> ss_phase s = Done \<Longrightarrow> relay_changes lib xs s = 0"
proof (induction xs arbitrary: s)
  case (Cons x xs)
  obtain env i st where x: "x = (env, i, st)" by (cases x)
  show ?case
    using Cons.IH [OF leaving_step [OF Cons.prems, of lib env i st]] Cons.prems by (auto simp: x split: prod.splits)
qed simp

text \<open>One step of the relay loop: it stays or leaves, and only a text frame can change the state.\<close>

lemma relay_event_phase:
  "ss_phase s = Relaying \<Longrightarrow> ss_phase (relay_event env ev s) \<in> {Relaying, Detaching}
     \<and> ss_limiter (relay_event env ev s) = ss_limiter s"
  by (auto simp: relay_event_def send_json_def Let_def split: option.splits)

lemma relaying_step:
  assumes "ss_phase s = Relaying" "session_step lib env i s st = (s', st')"
  shows "ss_phase s' \<in> {Relaying, Detaching}"
    and "\<exists>t. i = Recv (NextMsg (MText t)) \<and> ss_limiter s' = snd (rate_limiter_check (env_now env) (ss_limiter s))
           \<and> (st' \<noteq> st \<longrightarrow> fst (rate_limiter_check (env_now env) (ss_limiter s)))
         \<or> (\<forall>t. i \<noteq> Recv (NextMsg (MText t))) \<and> ss_limiter s' = ss_limiter s \<and> st' = st"
proof -
  have ev: "ss_phase (relay_event env e (s\<lparr>ss_rx := r\<rparr>)) \<in> {Relaying, Detaching}
      \<and> ss_limiter (relay_event env e (s\<lparr>ss_rx := r\<rparr>)) = ss_limiter s" for e r
    using relay_event_phase [of "s\<lparr>ss_rx := r\<rparr>" env e] assms(1) by simp
  have step: "(s', st') = on_relaying lib env i s st"
    using assms by (simp add: session_step.simps)
  show "ss_phase s' \<in> {Relaying, Detaching}"
    using step assms(1) ev
    by (auto simp: on_relaying_def relay_ping_def relay_recv_def relay_text_def Let_def
        split: input_splits prod.splits option.splits recv_result.splits if_splits)
  show "\<exists>t. i = Recv (NextMsg (MText t)) \<and> ss_limiter s' = snd (rate_limiter_check (env_now env) (ss_limiter s))
           \<and> (st' \<noteq> st \<longrightarrow> fst (rate_limiter_check (env_now env) (ss_limiter s)))
         \<or> (\<forall>t. i \<noteq> Recv (NextMsg (MText t))) \<and> ss_limiter s' = ss_limiter s \<and> st' = st"
    using step assms(1) ev
    by (auto simp: on_relaying_def relay_ping_def relay_recv_def relay_text_def Let_def
        split: input_splits prod.splits option.splits recv_result.splits if_splits)
qed

lemma relay_changes_accepted:
  "ss_phase s = Relaying \<Longrightarrow>
   relay_changes lib xs s \<le> accepted (fst (run_checks rate_limiter_check (ss_limiter s) (text_times xs)))"
proof (induction xs arbitrary: s)
  case (Cons x xs)
  obtain env i st where x: "x = (env, i, st)" by (cases x)
  obtain s' st' where step: "session_step lib env i s st = (s', st')" by fastforce
  note rs = relaying_step [OF Cons.prems step]
  have rest: "relay_changes lib xs s' \<le> accepted (fst (run_checks rate_limiter_check (ss_limiter s') (text_times xs)))"
    using rs(1) Cons.IH [of s'] leaving_changes [of s' lib xs] by auto
  show ?case
    using rs(2)
  proof (elim exE disjE conjE)
    fix t assume "i = Recv (NextMsg (MText t))"
      "ss_limiter s' = snd (rate_limiter_check (env_now env) (ss_limiter s))"
      "st' \<noteq> st \<longrightarrow> fst (rate_limiter_check (env_now env) (ss_limiter s))"
    then show ?thesis using rest step by (auto simp: x split: prod.splits)
  next
    assume "\<forall>t. i \<noteq> Recv (NextMsg (MText t))" "ss_limiter s' = ss_limiter s" "st' = st"
    then show ?thesis using rest step by (auto simp: x split: ws_input.splits ws_next.splits ws_message.splits)
  qed
qed simp

text \<open>
  C24. What one connection can cause is bounded: from the start of its relay loop, whatever frames its
  client sends and whatever the other connections do, the number of its steps that change anything in
  the shared state (an event on the channel, an update of the room's activity) is at most 60, plus 30
  per second up to its last frame, up to a rounding error of \<open>2 ^ -37\<close> per frame received.
\<close>

theorem relay_budget:
  assumes "ss_phase s = Announcing []" "session_step lib env Proceed s st = (s1, st1)"
  shows "of_nat (relay_changes lib xs s1)
    \<le> 60 + secs (elapsed_along (env_now env) (text_times xs)) * 30 + of_nat (length (text_times xs)) * (1 / 2 ^ 37)"
proof -
  have s1: "ss_phase s1 = Relaying"
    "ss_limiter s1 = rate_limiter_new msg_rate_capacity msg_rate_refill_per_sec (env_now env)"
    using assms by (auto simp: session_step.simps on_announcing_def)
  have "of_nat (relay_changes lib xs s1)
      \<le> (of_nat (accepted (fst (run_checks rate_limiter_check (ss_limiter s1) (text_times xs)))) :: rat)"
    using relay_changes_accepted [OF s1(1)] by (simp only: of_nat_le_iff)
  also have "\<dots> \<le> 60 + secs (elapsed_along (env_now env) (text_times xs)) * 30
      + of_nat (length (text_times xs)) * (1 / 2 ^ 37)"
    using rate_limiter_bound [of "env_now env" "text_times xs"] by (simp only: s1(2))
  finally show ?thesis .
qed

theorem relay_budget_witness:
  "of_nat (relay_changes auth_web [(relay_env, Recv (NextMsg (MText ''x'')), chatted)]
      (fst (session_step auth_web relay_env Proceed (announcing_session\<lparr>ss_phase := Announcing []\<rparr>) chatted)))
    \<le> (61 :: rat)"
proof -
  have "ss_phase (announcing_session\<lparr>ss_phase := Announcing []\<rparr>) = Announcing []" by simp
  from relay_budget [OF this surjective_pairing,
      of auth_web "[(relay_env, Recv (NextMsg (MText ''x'')), chatted)]" relay_env chatted]
  show ?thesis by (simp add: relay_env_def secs_def saturating_duration_since_def)
qed

section \<open>Keep-alive\<close>

definition has_pong :: "ws_step list \<Rightarrow> bool" where
  "has_pong xs \<longleftrightarrow> list_ex (\<lambda>(env, i, st). case i of Recv (NextMsg (MPong _)) \<Rightarrow> True | _ \<Rightarrow> False) xs"

text \<open>A session that is leaving, or has not heard a pong since \<open>t\<close> (and waits for one, if \<open>w\<close>).\<close>

definition silent_since :: "instant \<Rightarrow> bool \<Rightarrow> session \<Rightarrow> bool" where
  "silent_since t w s \<longleftrightarrow> ss_phase s = Detaching \<or> ss_phase s = Done
     \<or> ss_phase s = Relaying \<and> ss_last_pong s = t \<and> (w \<longrightarrow> ss_waiting_for_pong s)"

lemma silent_simps [simp]:
  "silent_since t w (s\<lparr>ss_limiter := rl\<rparr>) = silent_since t w s"
  "silent_since t w (s\<lparr>ss_rx := rx\<rparr>) = silent_since t w s"
  "silent_since t w (send_frame ok f s) = silent_since t w s"
  "silent_since t w (send_json ok m s) = silent_since t w s"
  "silent_since t w (goto Detaching s)"
  by (simp_all add: silent_since_def send_json_def send_frame_def goto_def)

lemma silent_relay_event [simp]: "silent_since t w s \<Longrightarrow> silent_since t w (relay_event env ev s)"
  by (simp add: relay_event_def Let_def split: option.splits)

lemma silent_relay_ping: "silent_since t w s \<Longrightarrow> silent_since t True (relay_ping env s)"
  by (auto simp: relay_ping_def send_frame_def silent_since_def [of _ _ "_\<lparr>ss_waiting_for_pong := _\<rparr>"]
      silent_since_def [of _ _ s])

lemma silent_weaken: "silent_since t True s \<Longrightarrow> silent_since t w s"
  by (auto simp: silent_since_def)

lemma silent_step:
  assumes "silent_since t w s" "\<not> has_pong [(env, i, st)]"
  shows "silent_since t w (fst (session_step lib env i s st))"
proof (cases "ss_phase s = Relaying")
  case False
  then show ?thesis using leaving_step [of s lib env i st] assms(1) by (auto simp: silent_since_def)
next
  case True
  have "silent_since t w (fst (on_relaying lib env i s st))"
    using assms silent_weaken [OF silent_relay_ping [OF assms(1)]]
    by (simp add: on_relaying_def relay_recv_def relay_text_def Let_def has_pong_def
        split: input_splits recv_result.splits)
  then show ?thesis using True by (simp add: session_step.simps)
qed

lemma silent_run: "silent_since t w s \<Longrightarrow> \<not> has_pong xs \<Longrightarrow> silent_since t w (session_run lib xs s)"
proof (induction xs arbitrary: s)
  case (Cons x xs)
  obtain env i st where x: "x = (env, i, st)" by (cases x)
  have "\<not> has_pong [(env, i, st)]" "\<not> has_pong xs" using Cons.prems(2) by (auto simp: x has_pong_def)
  then show ?case using Cons.IH [OF silent_step [OF Cons.prems(1)]] by (simp add: x session_run_Cons)
qed simp

lemma silent_ping:
  "silent_since t w s \<Longrightarrow> silent_since t True (fst (session_step lib env PingTick s st))"
  using silent_relay_ping [of t w s env]
  by (cases "ss_phase s = Relaying") (auto simp: session_step.simps on_relaying_def silent_since_def on_detaching_def)

lemma silent_timeout:
  assumes "silent_since t True s" "pong_timeout < saturating_duration_since (env_now env) t"
  shows "ss_phase (fst (session_step lib env PingTick s st)) \<in> {Detaching, Done}"
  using assms by (auto simp: silent_since_def session_step.simps on_relaying_def relay_ping_def on_detaching_def)

text \<open>
  C25. A silent client is cut off: if the client of a relaying session sends no pong over a run in which
  the ping interval ticks twice, and the second tick comes more than the pong timeout of ten seconds
  after the last pong (or the start of the loop), then the session has left its relay loop by the end
  of the run, whatever else it received or was sent.
\<close>

theorem silent_client_cut_off:
  assumes "ss_phase s = Relaying" "\<not> has_pong (xs @ (e1, PingTick, st1) # ys @ (e2, PingTick, st2) # zs)"
    and "10 * nanos_per_sec < saturating_duration_since (env_now e2) (ss_last_pong s)"
  shows "ss_phase (session_run lib (xs @ (e1, PingTick, st1) # ys @ (e2, PingTick, st2) # zs) s) \<in> {Detaching, Done}"
proof -
  have p: "\<not> has_pong xs" "\<not> has_pong ys" using assms(2) by (auto simp: has_pong_def)
  let ?t = "ss_last_pong s" and ?s1 = "session_run lib xs s"
  let ?s2 = "session_run lib ys (fst (session_step lib e1 PingTick ?s1 st1))"
  have "silent_since ?t False s" using assms(1) by (simp add: silent_since_def)
  then have "silent_since ?t True ?s2" by (intro silent_run [OF silent_ping] p) (rule silent_run [OF _ p(1)])
  then have "ss_phase (fst (session_step lib e2 PingTick ?s2 st2)) \<in> {Detaching, Done}"
    by (rule silent_timeout) (use assms(3) in \<open>simp add: pong_timeout_def\<close>)
  then show ?thesis
    using leaving_run [of "fst (session_step lib e2 PingTick ?s2 st2)" lib zs]
    by (simp add: session_run_append session_run_Cons)
qed

theorem silent_client_cut_off_witness:
  "ss_phase (session_run auth_web
      ([] @ (relay_env\<lparr>env_now := 30 * nanos_per_sec\<rparr>, PingTick, chatted) # []
        @ (relay_env\<lparr>env_now := 60 * nanos_per_sec\<rparr>, PingTick, chatted) # [])
      (announcing_session\<lparr>ss_phase := Relaying\<rparr>)) \<in> {Detaching, Done}"
  by (rule silent_client_cut_off)
    (simp_all add: has_pong_def announcing_session_def joining_session_def session_new_def relay_env_def
      saturating_duration_since_def nanos_per_sec_def)

end
