(* ===== verification/System.thy ===== *)
theory System
imports WsLimits AdmissionSlots
begin

text \<open>
  The whole backend as a transition system: the shared state, every session, the room creations whose
  hash is being computed, and the blocking jobs nobody waits for any more. A step is one of: a
  connection, one reaction of one session, a part of an HTTP request, the end of an abandoned job, a
  tick of a background task. Fresh ids (\<open>Uuid::new_v4\<close>) are new; nothing else is assumed of the
  environment. The theory has the account of the slots and of the permits.
\<close>

section \<open>A room creation in two parts\<close>

text \<open>
  \<open>create_room\<close> awaits the hash of the password; other requests run in between. The handler up to the
  spawned job, and from the end of the job.
\<close>

definition create_start ::
  "web_lib \<Rightarrow> ip_addr \<Rightarrow> header_map \<Rightarrow> string \<Rightarrow> instant \<Rightarrow> string \<Rightarrow> db_call
   \<Rightarrow> app_state \<Rightarrow> (json response + string) \<times> app_state" where
  "create_start lib peer headers body now room_id c st =
     (case client_ip (web_http lib) peer headers (cfg_trusted_proxies (st_config st)) of
        Inl status \<Rightarrow> (Inl (error_response status ''Invalid client address''), st)
      | Inr ip \<Rightarrow>
          (case check_at (Creation ip) now (st_admission st) of
             (Inl e, adm) \<Rightarrow> (Inl (admission_error_response e), st\<lparr>st_admission := adm\<rparr>)
           | (Inr _, adm) \<Rightarrow>
               let st1 = st\<lparr>st_admission := adm\<rparr> in
               (case create_room_request lib headers body of
                  Inl r \<Rightarrow> (Inl r, st1)
                | Inr None \<Rightarrow> (case store_room c room_id None st1 of (r, st2) \<Rightarrow> (Inl r, st2))
                | Inr (Some password) \<Rightarrow>
                    (case hash_begin (web_crypto lib) password (st_passwords st1) of
                       (Inl e, svc) \<Rightarrow>
                         (case hash_error_response e (st1\<lparr>st_passwords := svc\<rparr>) of (r, st2) \<Rightarrow> (Inl r, st2))
                     | (Inr pw, svc) \<Rightarrow> (Inr pw, st1\<lparr>st_passwords := svc\<rparr>)))))"

definition create_finish ::
  "web_lib \<Rightarrow> string \<Rightarrow> bool \<Rightarrow> string \<Rightarrow> string \<Rightarrow> db_call \<Rightarrow> app_state \<Rightarrow> json response \<times> app_state" where
  "create_finish lib salt panics pw room_id c st =
     (let st1 = st\<lparr>st_passwords := compute_end (st_passwords st)\<rparr> in
      case join_result (if panics then None else Some (hash_job (web_crypto lib) salt pw)) of
        Inl e \<Rightarrow> hash_error_response e st1
      | Inr h \<Rightarrow> store_room c room_id (Some h) st1)"

lemma create_parts:
  "create_room_handler lib peer headers body now salt panics rid c st =
     (case create_start lib peer headers body now rid c st of
        (Inl r, st1) \<Rightarrow> (r, st1)
      | (Inr pw, st1) \<Rightarrow> create_finish lib salt panics pw rid c st1)"
  by (auto simp: create_room_handler_def create_start_def create_finish_def hash_password_def Let_def
      split: sum.splits prod.splits option.splits)

section \<open>The system\<close>

record system =
  sys_app :: app_state
  sys_sessions :: "session list"
  sys_hashing :: "string list"
  sys_orphans :: nat

definition sys_new :: "database \<Rightarrow> config \<Rightarrow> system" where
  "sys_new db cfg = \<lparr>sys_app = app_state_new db cfg, sys_sessions = [], sys_hashing = [], sys_orphans = 0\<rparr>"

definition verifying :: "session \<Rightarrow> bool" where
  "verifying s \<longleftrightarrow> (case ss_phase s of VerifyJob _ \<Rightarrow> True | _ \<Rightarrow> False)"

text \<open>The session stops waiting for its job, which runs on.\<close>

definition abandons :: "ws_input \<Rightarrow> session \<Rightarrow> session \<Rightarrow> bool" where
  "abandons i s s' \<longleftrightarrow> verifying s \<and> \<not> verifying s' \<and> (case i of JobDone _ \<Rightarrow> False | _ \<Rightarrow> True)"

definition known_ids :: "system \<Rightarrow> string set" where
  "known_ids w = insert [] (ss_conn_id ` set (sys_sessions w))"

text \<open>The ids of the rooms that sessions have found.\<close>

definition known_rooms :: "system \<Rightarrow> string set" where
  "known_rooms w = ss_room_id ` {s \<in> set (sys_sessions w). ss_room s \<noteq> None}"

inductive sys_step :: "web_lib \<Rightarrow> system \<Rightarrow> system \<Rightarrow> bool" for lib where
  connect: "ws_handler lib env peer headers rid (sys_app w) = (Inr s, st)
     \<Longrightarrow> sys_step lib w (w\<lparr>sys_app := st, sys_sessions := sys_sessions w @ [s]\<rparr>)"
| refuse: "ws_handler lib env peer headers rid (sys_app w) = (Inl r, st) \<Longrightarrow> sys_step lib w (w\<lparr>sys_app := st\<rparr>)"
| session: "n < length (sys_sessions w) \<Longrightarrow> env_uuid env \<notin> known_ids w
     \<Longrightarrow> session_step lib env i (sys_sessions w ! n) (sys_app w) = (s, st)
     \<Longrightarrow> sys_step lib w (w\<lparr>sys_app := st, sys_sessions := (sys_sessions w)[n := s],
           sys_orphans := sys_orphans w + of_bool (abandons i (sys_sessions w ! n) s)\<rparr>)"
| create: "rid \<notin> known_rooms w \<Longrightarrow> create_start lib peer headers body now rid c (sys_app w) = (Inl r, st)
     \<Longrightarrow> sys_step lib w (w\<lparr>sys_app := st\<rparr>)"
| hash: "rid \<notin> known_rooms w \<Longrightarrow> create_start lib peer headers body now rid c (sys_app w) = (Inr pw, st)
     \<Longrightarrow> sys_step lib w (w\<lparr>sys_app := st, sys_hashing := pw # sys_hashing w\<rparr>)"
| hashed: "rid \<notin> known_rooms w \<Longrightarrow> sys_hashing w = ps @ pw # qs
     \<Longrightarrow> create_finish lib salt panics pw rid c (sys_app w) = (r, st)
     \<Longrightarrow> sys_step lib w (w\<lparr>sys_app := st, sys_hashing := ps @ qs\<rparr>)"
| cancel: "sys_hashing w = ps @ pw # qs
     \<Longrightarrow> sys_step lib w (w\<lparr>sys_hashing := ps @ qs, sys_orphans := Suc (sys_orphans w)\<rparr>)"
| orphan: "sys_orphans w = Suc n
     \<Longrightarrow> sys_step lib w (w\<lparr>sys_app := (sys_app w)\<lparr>st_passwords := compute_end (st_passwords (sys_app w))\<rparr>,
           sys_orphans := n\<rparr>)"
| cleanup: "sys_step lib w (w\<lparr>sys_app := snd (cleanup_tick t c (sys_app w))\<rparr>)"
| maintain: "sys_step lib w (w\<lparr>sys_app := maintenance_tick now (sys_app w)\<rparr>)"

inductive sys_reach :: "web_lib \<Rightarrow> system \<Rightarrow> bool" for lib where
  start: "db_inv db \<Longrightarrow> sys_reach lib (sys_new db cfg)"
| step: "sys_reach lib w \<Longrightarrow> sys_step lib w w' \<Longrightarrow> sys_reach lib w'"

lemma sys_new_simps [simp]:
  "sys_app (sys_new db cfg) = app_state_new db cfg" "sys_sessions (sys_new db cfg) = []"
  "sys_hashing (sys_new db cfg) = []" "sys_orphans (sys_new db cfg) = 0"
  by (simp_all add: sys_new_def)

section \<open>The steps as steps on the shared state\<close>

lemma ws_handler_state:
  "ws_handler lib env peer headers rid st = (r, st') \<Longrightarrow> st' = st\<lparr>st_admission := st_admission st'\<rparr>"
  by (auto simp: ws_handler_def Let_def split: if_splits sum.splits prod.splits option.splits)

lemma ws_handler_session:
  "ws_handler lib env peer headers rid st = (Inr s, st') \<Longrightarrow>
   \<exists>stored g. s = session_new rid stored g \<and> room_password (env_call env) rid (st_db st) = Inr stored"
  by (auto simp: ws_handler_def Let_def split: if_splits sum.splits prod.splits option.splits)

lemma session_step_config: "st_config (snd (session_step lib env i s st)) = st_config st"
proof -
  have "st_config (snd (drop_pending p s st)) = st_config st" for p s st
    by (auto simp: drop_pending_def split: option.splits)
  moreover have "st_config (snd (reject m s st)) = st_config st" for m s st
    by (simp add: reject_def)
  ultimately have a: "st_config (snd (auth_result r s st)) = st_config st"
      "st_config (snd (drop_pending p s st)) = st_config st" "st_config (snd (reject m s st)) = st_config st"
    for r p m s st
    by (auto simp: auth_result_def split: sum.splits bool.splits password_error.splits)
  have b: "st_config (snd (attach c k j st)) = st_config st" "st_config (snd (join k j p l st)) = st_config st"
      "st_config (detach k j st) = st_config st" "st_config (relay_incoming env m s st) = st_config st" for c k j p l m
    by (auto simp: attach_def room_entry_def join_def detach_def put_room_def send_event_def relay_incoming_def Let_def
        split: sum.splits bool.splits option.splits prod.splits incoming_message.splits)
  show ?thesis
  proof (cases "attached_phase (ss_phase s)")
    case True
    then show ?thesis using attached_step_state [OF True, of lib env i st] b by auto
  next
    case False
    then show ?thesis
      by (cases "ss_phase s"; cases i;
          simp add: session_step.simps on_opening_def on_auth_wait_def on_verify_ready_def on_verify_job_def
            on_rejecting_def a split: input_splits)
  qed
qed

lemma same_rooms_steps:
  assumes "same_rooms st st'" "st_config st' = st_config st"
  shows "state_step\<^sup>*\<^sup>* st st'"
proof -
  have "st' = st\<lparr>st_admission := st_admission st', st_passwords := st_passwords st'\<rparr>"
    using assms by (simp add: same_rooms_def)
  then show ?thesis
    using state_step.admission [of st "st_admission st'"]
      state_step.passwords [of "st\<lparr>st_admission := st_admission st'\<rparr>" "st_passwords st'"]
    by (metis converse_rtranclp_into_rtranclp r_into_rtranclp)
qed

lemma relay_incoming_steps: "state_step\<^sup>*\<^sup>* st (relay_incoming env m s st)"
proof (cases "\<exists>payload epoch counter. m = InMessage (Some payload) epoch counter")
  case True
  then obtain payload epoch counter where m: "m = InMessage (Some payload) epoch counter" by blast
  show ?thesis
    unfolding relay_incoming_def m incoming_message.case option.case
    by (rule rtranclp.rtrancl_into_rtrancl [OF r_into_rtranclp [where r = state_step, OF state_step.touch]])
      (rule state_step.relay, simp)
next
  case False
  then have "relay_incoming env m s st = st \<or> (\<exists>tx ev. relayed ev \<and> relay_incoming env m s st = send_event tx ev st)"
    by (cases m) (auto simp: relay_incoming_def split: option.splits intro!: exI)
  then show ?thesis using state_step.relay by auto
qed

lemma session_step_state: "state_step\<^sup>*\<^sup>* st (snd (session_step lib env i s st))"
proof (cases "attached_phase (ss_phase s)")
  case False
  then show ?thesis using same_rooms_steps [OF unattached_step_rooms session_step_config] by blast
next
  case True
  have "state_step\<^sup>*\<^sup>* st st'" if "state_step st st'" for st' using that by (rule r_into_rtranclp)
  then show ?thesis
    using attached_step_state [OF True, of lib env i st] relay_incoming_steps state_step.attach
      state_step.join state_step.detach
    by auto
qed

lemma hash_error_state: "state_step\<^sup>*\<^sup>* st (snd (hash_error_response e st))"
  by (auto simp: hash_error_response_def intro: state_step.admission r_into_rtranclp split: password_error.splits)

lemma store_room_state: "state_step\<^sup>*\<^sup>* st (snd (store_room c rid h st))"
proof -
  have "snd (store_room c rid h st) = st\<lparr>st_db := snd (create_room_with_password c rid h (st_db st))\<rparr>"
    by (simp add: store_room_def split: prod.splits sum.splits)
  then show ?thesis using state_step.create by (simp add: r_into_rtranclp)
qed

lemma create_finish_state: "state_step\<^sup>*\<^sup>* st (snd (create_finish lib salt panics pw rid c st))"
proof -
  have "state_step\<^sup>*\<^sup>* st (st\<lparr>st_passwords := compute_end (st_passwords st)\<rparr>)"
    by (rule r_into_rtranclp [where r = state_step, OF state_step.passwords])
  then show ?thesis
    using rtranclp_trans [of state_step st, OF _ hash_error_state] rtranclp_trans [of state_step st, OF _ store_room_state]
    by (auto simp: create_finish_def Let_def split: sum.splits)
qed

lemma create_start_state: "state_step\<^sup>*\<^sup>* st (snd (create_start lib peer headers body now rid c st))"
proof -
  have adm: "state_step\<^sup>*\<^sup>* st (st\<lparr>st_admission := adm\<rparr>)" for adm
    by (rule r_into_rtranclp [where r = state_step, OF state_step.admission])
  have pw: "state_step\<^sup>*\<^sup>* st (st\<lparr>st_admission := adm, st_passwords := svc\<rparr>)" for adm svc
    using rtranclp.rtrancl_into_rtrancl [OF adm [of adm] state_step.passwords [of _ svc]] by simp
  show ?thesis
    unfolding create_start_def Let_def
    using adm pw rtranclp_trans [OF adm store_room_state] rtranclp_trans [OF pw hash_error_state]
    by (auto split: sum.splits prod.splits option.splits) (metis snd_conv)+
qed

lemma sys_step_state: "sys_step lib w w' \<Longrightarrow> state_step\<^sup>*\<^sup>* (sys_app w) (sys_app w')"
proof (induction rule: sys_step.induct)
  case (connect env peer headers rid w s st)
  then show ?case
    using ws_handler_state [OF connect] state_step.admission [of "sys_app w" "st_admission st"]
    by (auto intro: r_into_rtranclp)
next
  case (refuse env peer headers rid w r st)
  then show ?case
    using ws_handler_state [OF refuse] state_step.admission [of "sys_app w" "st_admission st"]
    by (auto intro: r_into_rtranclp)
next
  case (session n w env i s st)
  then show ?case using session_step_state [of "sys_app w" lib env i "sys_sessions w ! n"] by simp
next
  case (create rid w peer headers body now c r st)
  then show ?case using create_start_state [of "sys_app w" lib peer headers body now rid c] by simp
next
  case (hash rid w peer headers body now c pw st)
  then show ?case using create_start_state [of "sys_app w" lib peer headers body now rid c] by simp
next
  case (hashed rid w ps pw qs salt panics c r st)
  then show ?case using create_finish_state [of "sys_app w" lib salt panics pw rid c] by simp
next
  case (cleanup w t c)
  then show ?case using cleanup_tick_step [of "sys_app w" t c] by (simp add: r_into_rtranclp)
next
  case (maintain w now)
  then show ?case using maintenance_tick_step [of "sys_app w" now] by (simp add: r_into_rtranclp)
qed (auto intro: state_step.passwords r_into_rtranclp)

lemma sys_reach_state: "sys_reach lib w \<Longrightarrow> state_reachable (sys_app w)"
proof (induction rule: sys_reach.induct)
  case (start db cfg)
  then show ?case by (simp add: reachable_new)
next
  case (step w w')
  then show ?case using sys_step_state [of lib w w'] by (auto simp: state_reachable_def intro: rtranclp_trans)
qed

section \<open>The account of the slots\<close>

definition guard_of :: "session \<Rightarrow> ip_addr multiset" where
  "guard_of s = (case ss_pending s of None \<Rightarrow> {#} | Some ip \<Rightarrow> {#ip#})"

definition sys_guards :: "system \<Rightarrow> ip_addr multiset" where
  "sys_guards w = sum_list (map guard_of (sys_sessions w))"

lemma sum_list_update_one:
  assumes "n < length xs"
  obtains G where "sum_list (map f xs) = f (xs ! n) + G"
    "\<And>x. sum_list (map f (xs[n := x])) = f x + (G :: 'a :: comm_monoid_add)"
proof
  let ?G = "sum_list (map f (take n xs)) + sum_list (map f (drop (Suc n) xs))"
  show "sum_list (map f xs) = f (xs ! n) + ?G"
    by (subst id_take_nth_drop [OF assms]) (simp add: ac_simps)
  show "sum_list (map f (xs[n := x])) = f x + ?G" for x
    using assms by (simp add: upd_conv_take_nth_drop ac_simps)
qed

text \<open>
  One session and the guards \<open>G\<close> of all others: the limiter holds exactly their guards, the session has
  not panicked, and it holds a guard only while it authenticates.
\<close>

definition slot_ok :: "ip_addr multiset \<Rightarrow> session \<times> app_state \<Rightarrow> bool" where
  "slot_ok G x \<longleftrightarrow> adm_reach (st_admission (snd x)) (guard_of (fst x) + G) \<and> ss_phase (fst x) \<noteq> Panicked
     \<and> (attached_phase (ss_phase (fst x)) \<or> ss_phase (fst x) = Done \<longrightarrow> ss_pending (fst x) = None)"

lemma slot_ok_passwords [simp]: "slot_ok G (s, st\<lparr>st_passwords := svc\<rparr>) = slot_ok G (s, st)"
  by (simp add: slot_ok_def)

lemma slot_ok_check:
  "slot_ok G (s, st) \<Longrightarrow> check_at k now (st_admission st) = (r, adm) \<Longrightarrow> slot_ok G (s, st\<lparr>st_admission := adm\<rparr>)"
  using adm_reach.check [of "st_admission st" "guard_of s + G" k now] by (simp add: slot_ok_def)

lemma slot_ok_counts:
  "slot_ok G (s, st) \<Longrightarrow> slot_ok G (s, st\<lparr>st_admission := count_rejected (st_admission st)\<rparr>)"
  "slot_ok G (s, st) \<Longrightarrow> slot_ok G (s, st\<lparr>st_admission := count_verification_failed (st_admission st)\<rparr>)"
  "slot_ok G (s, st) \<Longrightarrow> slot_ok G (s, st\<lparr>st_admission := count_unavailable (st_admission st)\<rparr>)"
  by (simp_all add: slot_ok_def adm_reach.intros)

lemma slot_ok_goto:
  "slot_ok G (s, st) \<Longrightarrow> \<not> attached_phase p \<Longrightarrow> p \<noteq> Done \<Longrightarrow> p \<noteq> Panicked \<Longrightarrow> slot_ok G (goto p s, st)"
  by (simp add: slot_ok_def guard_of_def)

lemma slot_ok_send: "slot_ok G (s, st) \<Longrightarrow> slot_ok G (send_frame ok f s, st)"
  by (simp add: slot_ok_def guard_of_def send_frame_def)

lemma slot_ok_send_json: "slot_ok G (s, st) \<Longrightarrow> slot_ok G (send_json ok m s, st)"
  by (simp add: send_json_def slot_ok_send)

lemma slot_ok_reject: "slot_ok G (s, st) \<Longrightarrow> slot_ok G (reject m s st)"
  unfolding reject_def by (intro slot_ok_goto slot_ok_counts) simp_all

lemma slot_ok_drop:
  assumes "slot_ok G (s, st)" "p \<noteq> Panicked"
  shows "slot_ok G (drop_pending p s st)"
proof (cases "ss_pending s")
  case None
  then show ?thesis using assms by (simp add: drop_pending_def slot_ok_def guard_of_def)
next
  case (Some g)
  have r: "adm_reach (st_admission st) (add_mset g G)" using assms(1) Some by (simp add: slot_ok_def guard_of_def)
  then obtain adm where d: "pending_drop g (st_admission st) = Some adm"
    using slots.release_held [of "st_admission st" g] adm_reach_slots by fastforce
  have "adm_reach adm G" using adm_reach.drop [OF r _ d] by simp
  then show ?thesis
    using Some d assms(2) by (simp add: drop_pending_def slot_ok_def guard_of_def goto_def)
qed

lemma slot_ok_auth_result: "slot_ok G (s, st) \<Longrightarrow> slot_ok G (auth_result r s st)"
  unfolding auth_result_def
  by (auto intro!: slot_ok_reject slot_ok_drop slot_ok_counts split: sum.splits bool.splits password_error.splits)

lemmas slot_ok_steps = slot_ok_auth_result slot_ok_drop slot_ok_reject slot_ok_send_json slot_ok_send slot_ok_goto

lemma attached_step_pending:
  assumes "attached_phase (ss_phase s)"
  shows "ss_pending (fst (session_step lib env i s st)) = ss_pending s"
    "st_admission (snd (session_step lib env i s st)) = st_admission st"
proof -
  have b: "st_admission (snd (attach c k j st)) = st_admission st" "st_admission (snd (join k j p l st)) = st_admission st"
      "st_admission (detach k j st) = st_admission st" "st_admission (relay_incoming env m s st) = st_admission st"
    for c k j p l m
    by (auto simp: attach_def room_entry_def join_def detach_def put_room_def send_event_def relay_incoming_def Let_def
        split: sum.splits bool.splits option.splits prod.splits incoming_message.splits)
  show "st_admission (snd (session_step lib env i s st)) = st_admission st"
    using attached_step_state [OF assms, of lib env i st] b by auto
  have e: "ss_pending (relay_event env ev s) = ss_pending s" "ss_pending (send_frame ok f s) = ss_pending s"
    "ss_pending (send_json ok m s) = ss_pending s" for ev ok f m s
    by (simp_all add: relay_event_def send_json_def send_frame_def Let_def split: option.splits)
  show "ss_pending (fst (session_step lib env i s st)) = ss_pending s"
    using assms
    by (cases "ss_phase s"; cases i;
        simp add: session_step.simps phase_defs e relay_recv_def relay_ping_def relay_text_def Let_def
          split: input_splits recv_result.splits)
qed

lemma slot_ok_step:
  assumes "slot_ok G (s, st)"
  shows "slot_ok G (session_step lib env i s st)"
proof (cases "attached_phase (ss_phase s)")
  case True
  have "guard_of (fst (session_step lib env i s st)) = guard_of s"
    using attached_step_pending(1) [OF True] by (simp add: guard_of_def)
  then show ?thesis
    using assms True attached_step [OF True, of lib env i st] attached_step_pending [OF True, of lib env i st]
    by (auto simp: slot_ok_def)
next
  case False
  note steps = slot_ok_steps slot_ok_check slot_ok_counts assms
  show ?thesis
  proof (cases "ss_phase s")
    case AuthWait
    then show ?thesis
      using assms
      by (auto simp: session_step.simps on_auth_wait_def intro!: steps split: input_splits)
  next
    case VerifyReady
    then show ?thesis
      using assms
      by (auto simp: session_step.simps on_verify_ready_def intro!: steps split: input_splits)
  qed (use False assms in \<open>auto simp: session_step.simps on_opening_def on_verify_job_def on_rejecting_def
    intro!: steps split: input_splits\<close>)
qed

lemma ws_handler_slot:
  assumes "adm_reach (st_admission st) G" "ws_handler lib env peer headers rid st = (r, st')"
  shows "case r of Inr s \<Rightarrow> slot_ok G (s, st') | Inl _ \<Rightarrow> adm_reach (st_admission st') G"
proof -
  have chk: "adm_reach adm G" if "check_at k now (st_admission st) = (x, adm)" for k now x adm
    using adm_reach.check [OF assms(1), of k now] that by simp
  have "adm_reach adm' G" if "check_at k now (st_admission st) = (x, adm)" "pending ip adm = (Inl e, adm')" for k now x adm ip e adm'
    by (rule adm_reach.refuse [OF chk [OF that(1)] that(2)])
  moreover have "adm_reach adm' (add_mset g G)"
    if "check_at k now (st_admission st) = (x, adm)" "pending ip adm = (Inr g, adm')" for k now x adm ip g adm'
    by (rule adm_reach.grant [OF chk [OF that(1)] that(2)])
  ultimately show ?thesis
    using assms chk adm_reach.rejected [OF assms(1)]
    by (auto simp: ws_handler_def Let_def slot_ok_def session_new_def guard_of_def
        split: if_splits sum.splits prod.splits option.splits)
qed

lemma hash_error_adm:
  "adm_reach (st_admission st) G \<Longrightarrow> adm_reach (st_admission (snd (hash_error_response e st))) G"
  by (auto simp: hash_error_response_def intro: adm_reach.unavailable split: password_error.splits)

lemma store_room_adm [simp]: "st_admission (snd (store_room c rid h st)) = st_admission st"
  by (simp add: store_room_def split: prod.splits sum.splits)

lemma create_start_adm:
  assumes "adm_reach (st_admission st) G"
  shows "adm_reach (st_admission (snd (create_start lib peer headers body now rid c st))) G"
proof -
  have chk: "adm_reach adm G" if "check_at k now (st_admission st) = (x, adm)" for k now x adm
    using adm_reach.check [OF assms, of k now] that by simp
  have st: "adm_reach (st_admission st2) G" if "store_room c rid h st1 = (r, st2)" "adm_reach (st_admission st1) G" for h st1 r st2
    using store_room_adm [of c rid h st1] that by simp
  have er: "adm_reach (st_admission st2) G" if "hash_error_response e st1 = (r, st2)" "adm_reach (st_admission st1) G" for e st1 r st2
    using hash_error_adm [of st1 G e] that by simp
  show ?thesis
    unfolding create_start_def Let_def
    using chk by (auto simp: assms split: sum.splits prod.splits option.splits dest: st er)
qed

lemma create_finish_adm:
  "adm_reach (st_admission st) G \<Longrightarrow> adm_reach (st_admission (snd (create_finish lib salt panics pw rid c st))) G"
  by (auto simp: create_finish_def Let_def hash_error_adm split: sum.splits)

lemma expire_keeps [simp]:
  "st_admission (snd (expire_inactive_rooms c t st)) = st_admission st"
  "st_passwords (snd (expire_inactive_rooms c t st)) = st_passwords st"
proof -
  have "st_admission (remove_rooms ks st) = st_admission st \<and> st_passwords (remove_rooms ks st) = st_passwords st" for ks st
    by (induction ks arbitrary: st) (auto simp: send_event_def split: option.splits)
  then show "st_admission (snd (expire_inactive_rooms c t st)) = st_admission st"
    "st_passwords (snd (expire_inactive_rooms c t st)) = st_passwords st"
    by (auto simp: expire_inactive_rooms_def split: prod.splits sum.splits)
qed

definition sys_slots :: "system \<Rightarrow> bool" where
  "sys_slots w \<longleftrightarrow> adm_reach (st_admission (sys_app w)) (sys_guards w)
     \<and> (\<forall>s \<in> set (sys_sessions w). ss_phase s \<noteq> Panicked
          \<and> (attached_phase (ss_phase s) \<or> ss_phase s = Done \<longrightarrow> ss_pending s = None))"

lemma sys_slots_app:
  "sys_slots w \<Longrightarrow> adm_reach (st_admission st) (sys_guards w) \<Longrightarrow> sys_sessions w' = sys_sessions w
   \<Longrightarrow> sys_app w' = st \<Longrightarrow> sys_slots w'"
  by (simp add: sys_slots_def sys_guards_def)

lemma sys_slots_step:
  assumes "sys_step lib w w'" "sys_slots w"
  shows "sys_slots w'"
  using assms(1)
proof cases
  case (connect env peer headers rid s st)
  have "slot_ok (sys_guards w) (s, st)"
    using ws_handler_slot [of "sys_app w" "sys_guards w"] assms(2) connect(2) by (fastforce simp: sys_slots_def)
  then show ?thesis
    using assms(2) connect(1) by (auto simp: sys_slots_def sys_guards_def slot_ok_def ac_simps)
next
  case (refuse env peer headers rid r st)
  then show ?thesis
    using ws_handler_slot [of "sys_app w" "sys_guards w"] assms(2)
    by (intro sys_slots_app [OF assms(2)]) (fastforce simp: sys_slots_def)+
next
  case (session n env i s st)
  let ?s = "sys_sessions w ! n"
  obtain G where G: "sys_guards w = guard_of ?s + G"
    "\<And>x. sum_list (map guard_of ((sys_sessions w)[n := x])) = guard_of x + G"
    unfolding sys_guards_def using sum_list_update_one [OF session(2), of guard_of] by metis
  have "slot_ok G (?s, sys_app w)"
    using assms(2) session(2) G(1) by (auto simp: sys_slots_def slot_ok_def)
  then have "slot_ok G (s, st)" using slot_ok_step [of G ?s "sys_app w" lib env i] session(4) by simp
  then show ?thesis
    using assms(2) G(2) session(1)
    by (auto simp: sys_slots_def sys_guards_def slot_ok_def dest!: set_update_subset_insert [THEN subsetD])
next
  case (create rid peer headers body now c r st)
  then show ?thesis
    using create_start_adm [of "sys_app w" "sys_guards w" lib peer headers body now rid c] assms(2)
    by (intro sys_slots_app [OF assms(2)]) (simp_all add: sys_slots_def)
next
  case (hash rid peer headers body now c pw st)
  then show ?thesis
    using create_start_adm [of "sys_app w" "sys_guards w" lib peer headers body now rid c] assms(2)
    by (intro sys_slots_app [OF assms(2)]) (simp_all add: sys_slots_def)
next
  case (hashed rid ps pw qs salt panics c r st)
  then show ?thesis
    using create_finish_adm [of "sys_app w" "sys_guards w" lib salt panics pw rid c] assms(2)
    by (intro sys_slots_app [OF assms(2)]) (simp_all add: sys_slots_def)
next
  case (maintain now)
  then show ?thesis
    using assms(2) by (auto simp: sys_slots_def sys_guards_def maintenance_tick_def intro: adm_reach.maintain)
qed (use assms(2) in \<open>auto simp: sys_slots_def sys_guards_def\<close>)

lemma sys_reach_slots: "sys_reach lib w \<Longrightarrow> sys_slots w"
proof (induction rule: sys_reach.induct)
  case (start db cfg)
  then show ?case by (simp add: sys_slots_def sys_guards_def app_state_new_def adm_reach.start)
qed (rule sys_slots_step)

text \<open>
  C13. The slots are accounted for: in every state the backend can reach, no session has panicked, the
  counters of the limiter are exactly the slots held by the sessions, in total and for each address,
  at most 100 and at most 10, and a session that has attached or ended holds none.
\<close>

theorem slots_accounted:
  assumes "sys_reach lib w"
  shows "lim_pending_total (adm_limits (st_admission (sys_app w))) = size (sys_guards w) \<and> size (sys_guards w) \<le> 100
    \<and> (\<forall>ip. pending_count (adm_limits (st_admission (sys_app w))) ip = count (sys_guards w) ip
          \<and> count (sys_guards w) ip \<le> 10)
    \<and> (\<forall>s \<in> set (sys_sessions w). ss_phase s \<noteq> Panicked
          \<and> (attached_phase (ss_phase s) \<or> ss_phase s = Done \<longrightarrow> ss_pending s = None))"
proof -
  have s: "sys_slots w" by (rule sys_reach_slots [OF assms])
  then have r: "adm_reach (st_admission (sys_app w)) (sys_guards w)" by (simp add: sys_slots_def)
  show ?thesis
    using s pending_slots_bounded [OF r] by (simp add: sys_slots_def)
qed

section \<open>The account of the permits\<close>

definition sys_jobs :: "system \<Rightarrow> nat" where
  "sys_jobs w = sum_list (map (of_bool \<circ> verifying) (sys_sessions w)) + length (sys_hashing w) + sys_orphans w"

lemma verifying_simps [simp]:
  "verifying (goto p s) \<longleftrightarrow> (\<exists>pw. p = VerifyJob pw)" "verifying (send_frame ok f s) = verifying s"
  "verifying (send_json ok m s) = verifying s" "\<not> verifying (fst (reject m s st))"
  "\<not> verifying (fst (auth_result r s st))"
  using auth_result_phase [of r s st]
  by (auto simp: verifying_def send_json_def split: phase.splits)

lemma drop_pending_verifying [simp]:
  "(\<And>pw. p \<noteq> VerifyJob pw) \<Longrightarrow> \<not> verifying (fst (drop_pending p s st))"
  using drop_pending_session(4) [of p s st] by (auto simp: verifying_def split: phase.splits)

lemma auth_passwords [simp]:
  "st_passwords (snd (drop_pending p s st)) = st_passwords st" "st_passwords (snd (reject m s st)) = st_passwords st"
  "st_passwords (snd (auth_result r s st)) = st_passwords st"
proof -
  show d: "st_passwords (snd (drop_pending p s st)) = st_passwords st" for p s st
    by (auto simp: drop_pending_def split: option.splits)
  show r: "st_passwords (snd (reject m s st)) = st_passwords st" for m s st
    by (simp add: reject_def)
  show "st_passwords (snd (auth_result r s st)) = st_passwords st"
    by (auto simp: auth_result_def d r split: sum.splits bool.splits password_error.splits)
qed

lemma verify_begin_jobs:
  assumes "service_reach svc n" "verify_begin lib password svc = (r, svc')"
  shows "service_reach svc' (n + (case r of Inl _ \<Rightarrow> 0 | Inr _ \<Rightarrow> 1))"
  using assms by (auto simp: verify_begin_def split: sum.splits prod.splits intro: service_reach.intros)

lemma attached_passwords:
  assumes "attached_phase (ss_phase s)"
  shows "st_passwords (snd (session_step lib env i s st)) = st_passwords st"
proof -
  have b: "st_passwords (snd (attach c k j st)) = st_passwords st" "st_passwords (snd (join k j p l st)) = st_passwords st"
      "st_passwords (detach k j st) = st_passwords st" "st_passwords (relay_incoming env m s st) = st_passwords st"
    for c k j p l m
    by (auto simp: attach_def room_entry_def join_def detach_def put_room_def send_event_def relay_incoming_def Let_def
        split: sum.splits bool.splits option.splits prod.splits incoming_message.splits)
  show ?thesis using attached_step_state [OF assms, of lib env i st] b by auto
qed

lemma session_step_jobs:
  assumes "service_reach (st_passwords st) (of_bool (verifying s) + k)" "session_step lib env i s st = (s', st')"
  shows "service_reach (st_passwords st') (of_bool (verifying s') + of_bool (abandons i s s') + k)"
proof -
  have pair: "s' = fst (session_step lib env i s st)" "st' = snd (session_step lib env i s st)"
    using assms(2) by simp_all
  consider (attached) "attached_phase (ss_phase s)" | (ready) password where "ss_phase s = VerifyReady password"
    | (job) pw where "ss_phase s = VerifyJob pw"
    | (other) "ss_phase s = Opening \<or> ss_phase s = AuthWait \<or> (\<exists>m. ss_phase s = Rejecting m) \<or> ss_phase s = Done
        \<or> ss_phase s = Panicked"
    by (cases "ss_phase s") auto
  then show ?thesis
  proof cases
    case attached
    then have "\<not> verifying s" "\<not> verifying s'"
      using attached_step [OF attached, of lib env i st] unfolding pair by (auto simp: verifying_def split: phase.splits)
    then show ?thesis using assms(1) attached_passwords [OF attached] by (simp add: pair abandons_def)
  next
    case ready
    then have n: "\<not> verifying s" by (simp add: verifying_def)
    obtain r svc where v: "verify_begin (web_crypto lib) password (st_passwords st) = (r, svc)" by fastforce
    show ?thesis
      using verify_begin_jobs [OF _ v, of k] assms(1) n v ready
      by (cases i; cases r) (simp_all add: pair session_step.simps on_verify_ready_def abandons_def)
  next
    case job
    then have "verifying s" by (simp add: verifying_def)
    then show ?thesis
      using assms(1) job service_reach.finish [of "st_passwords st" k]
      by (cases i) (simp_all add: pair session_step.simps on_verify_job_def abandons_def)
  next
    case other
    then have n: "\<not> verifying s" by (auto simp: verifying_def)
    have "\<not> verifying s' \<and> st_passwords st' = st_passwords st"
      using other n unfolding pair
      by (elim disjE exE; cases i; simp add: session_step.simps on_opening_def on_auth_wait_def on_rejecting_def
          split: input_splits)
    then show ?thesis using assms(1) n by (simp add: abandons_def)
  qed
qed

lemma hash_error_passwords [simp]: "st_passwords (snd (hash_error_response e st)) = st_passwords st"
  by (rule hash_error_effect(5))

lemma hash_begin_jobs:
  assumes "service_reach svc n" "hash_begin lib password svc = (r, svc')"
  shows "service_reach svc' (n + (case r of Inl _ \<Rightarrow> 0 | Inr _ \<Rightarrow> 1))"
  using assms by (auto simp: hash_begin_def split: sum.splits prod.splits if_splits intro: service_reach.intros)

lemma create_start_jobs:
  assumes "service_reach (st_passwords st) n" "create_start lib peer headers body now rid c st = (r, st')"
  shows "service_reach (st_passwords st') (n + (case r of Inl _ \<Rightarrow> 0 | Inr _ \<Rightarrow> 1))"
proof -
  have store: "st_passwords st2 = st_passwords st1" if "store_room c rid h st1 = (q, st2)" for h st1 q st2
    using store_room_effect(3) [of c rid h st1] that by simp
  have err: "st_passwords st2 = st_passwords st1" if "hash_error_response e st1 = (q, st2)" for e st1 q st2
    using hash_error_passwords [of e st1] that by simp
  have hb: "service_reach svc (n + (case q of Inl _ \<Rightarrow> 0 | Inr _ \<Rightarrow> 1))"
    if "hash_begin (web_crypto lib) password (st_passwords st) = (q, svc)" for password q svc
    by (rule hash_begin_jobs [OF assms(1) that])
  show ?thesis
    using assms hb
    by (fastforce simp: create_start_def Let_def split: sum.splits prod.splits option.splits dest: store err)
qed

lemma create_finish_jobs:
  "service_reach (st_passwords st) (Suc n) \<Longrightarrow> service_reach (st_passwords (snd (create_finish lib salt panics pw rid c st))) n"
  using store_room_effect(3) by (auto simp: create_finish_def Let_def intro: service_reach.finish split: sum.splits)

lemma ws_handler_passwords: "ws_handler lib env peer headers rid st = (r, st') \<Longrightarrow> st_passwords st' = st_passwords st"
  using ws_handler_state [of lib env peer headers rid st r st'] by (metis app_state.select_convs(5) app_state.update_convs(4) app_state.surjective)

lemma sys_jobs_step:
  assumes "sys_step lib w w'" "service_reach (st_passwords (sys_app w)) (sys_jobs w)"
  shows "service_reach (st_passwords (sys_app w')) (sys_jobs w')"
  using assms(1)
proof cases
  case (connect env peer headers rid s st)
  then have "\<not> verifying s" using ws_handler_session by (fastforce simp: session_new_def verifying_def)
  then show ?thesis
    using assms(2) connect(1) ws_handler_passwords [OF connect(2)] by (simp add: sys_jobs_def)
next
  case (refuse env peer headers rid r st)
  then show ?thesis using assms(2) ws_handler_passwords [OF refuse(2)] by (simp add: sys_jobs_def)
next
  case (session n env i s st)
  let ?s = "sys_sessions w ! n" and ?f = "of_bool \<circ> verifying :: session \<Rightarrow> nat"
  obtain G where G: "sum_list (map ?f (sys_sessions w)) = ?f ?s + G"
    "\<And>x. sum_list (map ?f ((sys_sessions w)[n := x])) = ?f x + G"
    using sum_list_update_one [OF session(2), of ?f] by metis
  show ?thesis
    using session_step_jobs [OF _ session(4), of "G + length (sys_hashing w) + sys_orphans w"] assms(2) G session(1)
    by (simp add: sys_jobs_def ac_simps)
next
  case (create rid peer headers body now c r st)
  then show ?thesis
    using create_start_jobs [OF assms(2) create(3)] by (simp add: sys_jobs_def)
next
  case (hash rid peer headers body now c pw st)
  then show ?thesis
    using create_start_jobs [OF assms(2) hash(3)] by (simp add: sys_jobs_def)
next
  case (hashed rid ps pw qs salt panics c r st)
  have "sys_jobs w = Suc (sys_jobs w')" using hashed by (simp add: sys_jobs_def)
  then show ?thesis
    using create_finish_jobs [of "sys_app w" "sys_jobs w'" lib salt panics pw rid c] assms(2) hashed by simp
next
  case (cancel ps pw qs)
  then show ?thesis using assms(2) by (simp add: sys_jobs_def)
next
  case (orphan n)
  then show ?thesis
    using assms(2) by (auto simp: sys_jobs_def intro: service_reach.finish)
qed (use assms(2) in \<open>simp_all add: sys_jobs_def maintenance_tick_def\<close>)

lemma sys_reach_jobs: "sys_reach lib w \<Longrightarrow> service_reach (st_passwords (sys_app w)) (sys_jobs w)"
proof (induction rule: sys_reach.induct)
  case (start db cfg)
  then show ?case by (simp add: sys_jobs_def app_state_new_def service_reach.start)
qed (rule sys_jobs_step)

text \<open>
  C14. The permits are accounted for: in every state the backend can reach, the free permits and the
  running computations (those a session waits for, those a room creation waits for, and those whose
  waiter is gone) are two together; so at most two run, none is ever lost, and when nothing runs both
  are free.
\<close>

theorem permits_accounted:
  assumes "sys_reach lib w"
  shows "ps_permits (st_passwords (sys_app w))
    + length (filter verifying (sys_sessions w)) + length (sys_hashing w) + sys_orphans w = 2"
proof -
  have "ps_permits (st_passwords (sys_app w)) + sys_jobs w = 2"
    using password_jobs_bounded [OF sys_reach_jobs [OF assms]] by simp
  moreover have "sum_list (map (of_bool \<circ> verifying) ss) = length (filter verifying ss)" for ss
    by (induction ss) auto
  ultimately show ?thesis by (simp add: sys_jobs_def)
qed

end
