(* ===== verification/SystemRooms.thy ===== *)
theory SystemRooms
imports System
begin

text \<open>
  What the steps of the system do to the rooms, seen through a view (creator and participants per room
  id): the effect of each operation, and the five effects a reaction of a session can have.
\<close>

section \<open>The view of the rooms\<close>

type_synonym room_state = "string option \<times> (string \<Rightarrow> participant option)"

definition room_view :: "app_state \<Rightarrow> string \<Rightarrow> room_state option" where
  "room_view st rid = map_option (\<lambda>r. (rm_creator_id r, map_of (rm_participants r))) (map_of (st_rooms st) rid)"

definition stored_hash :: "app_state \<Rightarrow> string \<Rightarrow> string option option" where
  "stored_hash st = store.password (st_db st)"

lemma room_view_rooms [simp]:
  "room_view (st\<lparr>st_db := db\<rparr>) = room_view st" "room_view (st\<lparr>st_admission := adm\<rparr>) = room_view st"
  "room_view (st\<lparr>st_passwords := svc\<rparr>) = room_view st" "room_view (st\<lparr>st_channels := chs\<rparr>) = room_view st"
  "room_view (send_event tx ev st) = room_view st"
  by (simp_all add: room_view_def fun_eq_iff send_event_def)

lemma room_view_put [simp]:
  "room_view (put_room rid room st) = (room_view st)(rid \<mapsto> (rm_creator_id room, map_of (rm_participants room)))"
  by (auto simp: room_view_def put_room_def update_conv' fun_eq_iff)

lemma stored_hash_simps [simp]:
  "stored_hash (st\<lparr>st_admission := adm\<rparr>) = stored_hash st" "stored_hash (st\<lparr>st_passwords := svc\<rparr>) = stored_hash st"
  "stored_hash (send_event tx ev st) = stored_hash st" "stored_hash (put_room rid room st) = stored_hash st"
  by (simp_all add: stored_hash_def send_event_def put_room_def)

definition attach_view :: "string \<Rightarrow> room_state option \<Rightarrow> room_state" where
  "attach_view cid v = (case v of None \<Rightarrow> (Some cid, Map.empty) | Some (None, ps) \<Rightarrow> (Some cid, ps) | Some x \<Rightarrow> x)"

definition detach_view :: "string \<Rightarrow> room_state \<Rightarrow> room_state" where
  "detach_view cid v = (case v of (cr, ps) \<Rightarrow> (if ps(cid := None) = Map.empty then None else cr, ps(cid := None)))"

lemma attach_effect:
  assumes "attach c rid cid st = (r, st')"
  shows "st_db st' = st_db st
    \<and> (case r of Inr (Some _) \<Rightarrow> stored_hash st rid \<noteq> None
           \<and> room_view st' = (room_view st)(rid \<mapsto> attach_view cid (room_view st rid))
       | _ \<Rightarrow> room_view st' = room_view st)"
proof (cases "room_exists c rid (st_db st) = Inr True")
  case False
  then show ?thesis using assms by (auto simp: attach_def split: sum.splits bool.splits)
next
  case True
  then have "stored_hash st rid \<noteq> None"
    using store.present_password [of c rid "st_db st" True] by (simp add: stored_hash_def)
  then show ?thesis
    using assms True
    by (cases "map_of (st_rooms st) rid")
      (auto simp: attach_def room_entry_def room_new_def channel_new_def attach_view_def Let_def put_room_def
        room_view_def update_conv' fun_eq_iff simp del: map_of_eq_Some_iff split: option.splits if_splits)
qed

lemma join_effect:
  assumes "join rid cid p n st = (r, st')"
  shows "st_db st' = st_db st
    \<and> (case r of Joined _ _ \<Rightarrow> \<exists>cr ps. room_view st rid = Some (cr, ps) \<and> room_view st' = (room_view st)(rid \<mapsto> (cr, ps(cid \<mapsto> p)))
       | _ \<Rightarrow> room_view st' = room_view st)"
  using assms
  by (cases "map_of (st_rooms st) rid")
    (auto simp: join_def Let_def send_event_def put_room_def room_view_def update_conv' fun_eq_iff
      simp del: map_of_eq_Some_iff split: if_splits)

lemma detach_effect:
  assumes "rooms_inv st"
  shows "st_db (detach rid cid st) = st_db st"
    "room_view (detach rid cid st) =
       (case room_view st rid of None \<Rightarrow> room_view st | Some v \<Rightarrow> (room_view st)(rid \<mapsto> detach_view cid v))"
proof -
  show "st_db (detach rid cid st) = st_db st"
    by (auto simp: detach_def Let_def send_event_def put_room_def split: option.splits)
  show "room_view (detach rid cid st) =
       (case room_view st rid of None \<Rightarrow> room_view st | Some v \<Rightarrow> (room_view st)(rid \<mapsto> detach_view cid v))"
  proof (cases "map_of (st_rooms st) rid")
    case None
    then show ?thesis by (simp add: detach_def room_view_def)
  next
    case (Some room)
    let ?ps = "AList.delete cid (rm_participants room)"
    have "map_of ?ps = (map_of (rm_participants room))(cid := None)" by (rule delete_conv')
    moreover have "?ps = [] \<longleftrightarrow> map_of ?ps = Map.empty" by simp
    ultimately have e: "?ps = [] \<longleftrightarrow> (map_of (rm_participants room))(cid := None) = Map.empty" by metis
    have "room_view (detach rid cid st) = (room_view st)(rid \<mapsto>
        (if ?ps = [] then None else rm_creator_id room, map_of ?ps))"
      using Some by (simp add: detach_def Let_def)
    then show ?thesis
      using Some by (simp add: room_view_def [of st rid] detach_view_def e delete_conv')
  qed
qed

lemma expire_effect:
  assumes "rooms_inv st" "expire_inactive_rooms c t st = (r, st')"
  obtains "st' = st"
  | ids where "room_view st' = room_view st |` (- set ids)" "stored_hash st' = stored_hash st |` (- set ids)"
proof (cases r)
  case (Inl e)
  then show ?thesis using expire_cases(3) [OF assms] that(1) by blast
next
  case (Inr ids)
  have d: "delete_inactive_rooms c t (st_db st) = (Inr ids, st_db st')"
    "map_of (st_rooms st') = map_of (st_rooms st) |` (- set ids)"
    using expire_cases(2) [OF assms Inr] by auto
  have "db_inv (st_db st)" using assms(1) by (simp add: rooms_inv_def)
  from store.purge_ok [OF this d(1)] have "stored_hash st' = stored_hash st |` (- set ids)"
    by (auto simp: stored_hash_def store.password_def restrict_map_def fun_eq_iff)
  moreover have "room_view st' = room_view st |` (- set ids)"
    using d(2) by (auto simp: room_view_def restrict_map_def fun_eq_iff)
  ultimately show ?thesis using that(2) by blast
qed

section \<open>The effects of a session\<close>

text \<open>Phases in which the session is a participant; may still be one; has a connection id that a room knows.\<close>

fun joined_phase :: "phase \<Rightarrow> bool" where
  "joined_phase (Announcing _) \<longleftrightarrow> True"
| "joined_phase Relaying \<longleftrightarrow> True"
| "joined_phase _ \<longleftrightarrow> False"

definition in_room :: "phase \<Rightarrow> bool" where
  "in_room p \<longleftrightarrow> joined_phase p \<or> p = Detaching"

definition has_id :: "phase \<Rightarrow> bool" where
  "has_id p \<longleftrightarrow> attached_phase p \<and> p \<noteq> Attaching \<and> p \<noteq> Unattached"

fun keys_ok :: "web_lib \<Rightarrow> phase \<Rightarrow> bool" where
  "keys_ok lib (Joining key pq_key _) \<longleftrightarrow> is_valid_mldsa65_public_key lib key \<and> is_valid_mlkem768_public_key lib pq_key"
| "keys_ok lib _ \<longleftrightarrow> True"

definition quiet_move :: "web_lib \<Rightarrow> phase \<Rightarrow> phase \<Rightarrow> bool" where
  "quiet_move lib p p' \<longleftrightarrow> (joined_phase p' \<longrightarrow> joined_phase p) \<and> (in_room p \<longrightarrow> in_room p')
     \<and> (has_id p' \<longleftrightarrow> has_id p) \<and> (keys_ok lib p \<longrightarrow> keys_ok lib p')"

lemma quiet_move_refl [simp]: "quiet_move lib p p"
  by (simp add: quiet_move_def)

lemma quiet_unattached:
  "\<not> attached_phase p \<Longrightarrow> \<not> attached_phase p' \<or> p' = Attaching \<Longrightarrow> quiet_move lib p p'"
  by (cases p; cases p') (simp_all add: quiet_move_def in_room_def has_id_def)

lemma unattached_step_phase:
  assumes "\<not> attached_phase (ss_phase s)"
  shows "\<not> attached_phase (ss_phase (fst (session_step lib env i s st)))
      \<or> ss_phase (fst (session_step lib env i s st)) = Attaching"
proof -
  have a: "\<not> attached_phase (ss_phase (fst (auth_result r s st))) \<or> ss_phase (fst (auth_result r s st)) = Attaching" for r st
    using auth_result_phase [of r s st] by auto
  have d: "\<not> attached_phase (ss_phase (fst (drop_pending p s st))) \<or> ss_phase (fst (drop_pending p s st)) = Attaching"
    if "p = Attaching \<or> p = Done" for p s st
    using drop_pending_session(4) [of p s st] that by auto
  show ?thesis
    using assms a d
    by (cases "ss_phase s"; cases i; simp add: session_step.simps on_opening_def on_auth_wait_def
        on_verify_ready_def on_verify_job_def on_rejecting_def split: input_splits)
qed

lemma session_step_conn_id:
  assumes "ss_phase s \<noteq> Attaching"
  shows "ss_conn_id (fst (session_step lib env i s st)) = ss_conn_id s"
proof -
  have d: "ss_conn_id (fst (drop_pending p s st)) = ss_conn_id s" for p s st
    by (auto simp: drop_pending_def split: option.splits)
  have r: "ss_conn_id (fst (reject m s st)) = ss_conn_id s" for m s st by (simp add: reject_def)
  have a: "ss_conn_id (fst (auth_result r s st)) = ss_conn_id s" for r st
    by (auto simp: auth_result_def d r split: sum.splits bool.splits password_error.splits)
  have e: "ss_conn_id (relay_event env ev s) = ss_conn_id s" "ss_conn_id (send_json ok m s) = ss_conn_id s" for ev ok m s
    by (simp_all add: relay_event_def send_json_def Let_def split: option.splits)
  show ?thesis
    using assms
    by (cases "ss_phase s"; cases i;
        simp add: session_step.simps phase_defs d r a e relay_recv_def relay_ping_def relay_text_def Let_def
          split: input_splits recv_result.splits)
qed

lemma stored_hash_relay:
  assumes "rooms_inv st"
  shows "stored_hash (relay_incoming env m s st) = stored_hash st"
    "room_view (relay_incoming env m s st) = room_view st"
proof -
  have "db_inv (st_db st)" using assms by (simp add: rooms_inv_def)
  from store.touch_keeps [OF this] show "stored_hash (relay_incoming env m s st) = stored_hash st"
    by (auto simp: relay_incoming_def stored_hash_def send_event_def split: incoming_message.splits option.splits)
  show "room_view (relay_incoming env m s st) = room_view st"
    by (simp add: relay_incoming_def split: incoming_message.splits option.splits)
qed

lemma announced_keys_ok:
  "announced_keys lib text = Some (key, pq_key, sig) \<Longrightarrow>
   is_valid_mldsa65_public_key lib key \<and> is_valid_mlkem768_public_key lib pq_key"
  by (auto simp: announced_keys_def split: option.splits incoming_message.splits if_splits)

lemma quiet_phase:
  assumes "attached_phase (ss_phase s)" "ss_phase s \<noteq> Attaching" "\<And>k q g. ss_phase s \<noteq> Joining k q g" "ss_phase s \<noteq> Detaching"
  shows "quiet_move lib (ss_phase s) (ss_phase (fst (session_step lib env i s st)))"
proof -
  have r: "quiet_move lib Relaying q" if "q \<in> {Relaying, Detaching}" for q
    using that by (auto simp: quiet_move_def in_room_def has_id_def)
  show ?thesis
    using assms announced_keys_ok [of lib]
      r [of "ss_phase (relay_ping env s)"] r [of "ss_phase (relay_recv env s st)"] relay_phase(1) [of s env]
      relay_phase(2) [of s env st] relay_phase(3) [of lib env _ s st] r [of Relaying] r [of Detaching]
    by (cases "ss_phase s"; cases i; simp add: session_step.simps on_unattached_def on_welcoming_def on_handshaking_def
          on_reject_full_def on_announcing_def on_relaying_def send_json_def quiet_move_def in_room_def has_id_def
        split: input_splits)
qed

text \<open>The five effects of a reaction on the view of the rooms, with the move of the session.\<close>

lemma session_effect:
  assumes inv: "rooms_inv st" and step: "session_step lib env i s st = (s', st')"
  obtains (quiet) "room_view st' = room_view st" "ss_conn_id s' = ss_conn_id s" "quiet_move lib (ss_phase s) (ss_phase s')"
  | (refused) "room_view st' = room_view st" "ss_phase s = Attaching" "ss_phase s' = Unattached"
      "ss_conn_id s' = env_uuid env"
  | (attached) "ss_phase s = Attaching" "has_id (ss_phase s')" "\<not> in_room (ss_phase s')" "keys_ok lib (ss_phase s')"
      "ss_conn_id s' = env_uuid env" "stored_hash st (ss_room_id s) \<noteq> None"
      "room_view st' = (room_view st)(ss_room_id s \<mapsto> attach_view (env_uuid env) (room_view st (ss_room_id s)))"
  | (joined) key pq_key sig cr ps where "ss_phase s = Joining key pq_key sig" "joined_phase (ss_phase s')"
      "ss_conn_id s' = ss_conn_id s" "room_view st (ss_room_id s) = Some (cr, ps)"
      "room_view st' = (room_view st)(ss_room_id s \<mapsto> (cr, ps(ss_conn_id s \<mapsto>
         \<lparr>pt_public_key = key, pt_pq_public_key = pq_key, pt_sig = sig\<rparr>)))"
  | (left) "ss_phase s = Detaching" "ss_phase s' = Done" "ss_conn_id s' = ss_conn_id s"
      "room_view st' = (case room_view st (ss_room_id s) of None \<Rightarrow> room_view st
         | Some v \<Rightarrow> (room_view st)(ss_room_id s \<mapsto> detach_view (ss_conn_id s) v))"
proof -
  have pair: "s' = fst (session_step lib env i s st)" "st' = snd (session_step lib env i s st)"
    using step by simp_all
  consider (attaching) "ss_phase s = Attaching" | (joining) key pq_key sig where "ss_phase s = Joining key pq_key sig"
    | (detaching) "ss_phase s = Detaching" | (unattached) "\<not> attached_phase (ss_phase s)"
    | (other) "attached_phase (ss_phase s)" "ss_phase s \<noteq> Attaching" "\<And>k q g. ss_phase s \<noteq> Joining k q g"
        "ss_phase s \<noteq> Detaching"
    by (cases "ss_phase s") auto
  then show thesis
  proof cases
    case attaching
    show ?thesis
    proof (cases "i = Proceed")
      case False
      then show ?thesis
        using step attaching by (intro quiet) (cases i; simp add: session_step.simps on_attaching_def)+
    next
      case True
      obtain r st1 where a: "attach (env_call env) (ss_room_id s) (env_uuid env) st = (r, st1)" by fastforce
      show ?thesis
      proof (cases "\<exists>x. r = Inr (Some x)")
        case True
        then obtain tx b cid where r: "r = Inr (Some (tx, b, cid))" by auto
        show ?thesis
          by (rule attached)
            (use step attaching \<open>i = Proceed\<close> a r attach_effect [OF a] in
              \<open>auto simp: session_step.simps on_attaching_def Let_def has_id_def in_room_def\<close>)
      next
        case False
        then have "r = Inr None \<or> (\<exists>e. r = Inl e)" by (cases r; cases "projr r") auto
        then show ?thesis
          using step attaching \<open>i = Proceed\<close> a attach_effect [OF a]
          by (intro refused) (auto simp: session_step.simps on_attaching_def Let_def)
      qed
    qed
  next
    case joining
    let ?p = "\<lparr>pt_public_key = key, pt_pq_public_key = pq_key, pt_sig = sig\<rparr>"
    obtain r st1 where j: "join (ss_room_id s) (ss_conn_id s) ?p max_participants st = (r, st1)" by fastforce
    show ?thesis
    proof (cases "i = Proceed \<and> (\<exists>rx peers. r = Joined rx peers)")
      case False
      then have "room_view st' = room_view st \<and> ss_conn_id s' = ss_conn_id s \<and> quiet_move lib (ss_phase s) (ss_phase s')"
        using step joining j join_effect [OF j]
        by (cases i; cases r) (auto simp: session_step.simps on_joining_def quiet_move_def in_room_def has_id_def)
      then show ?thesis using quiet by blast
    next
      case True
      then obtain rx peers cr ps where r: "r = Joined rx peers" "room_view st (ss_room_id s) = Some (cr, ps)"
          "room_view st1 = (room_view st)(ss_room_id s \<mapsto> (cr, ps(ss_conn_id s \<mapsto> ?p)))"
        using join_effect [OF j] by auto
      then show ?thesis
        using step joining j True by (intro joined [OF joining _ _ r(2)]) (auto simp: session_step.simps on_joining_def)
    qed
  next
    case detaching
    show ?thesis
    proof (cases "i = Proceed")
      case True
      then show ?thesis
        using step detaching detach_effect(2) [OF inv, of "ss_room_id s" "ss_conn_id s"]
        by (intro left) (auto simp: session_step.simps on_detaching_def)
    next
      case False
      then show ?thesis
        using step detaching by (intro quiet) (cases i; simp add: session_step.simps on_detaching_def)+
    qed
  next
    case unattached
    have "room_view st' = room_view st"
      using unattached_step_rooms [OF unattached, of st lib env i] by (simp add: pair same_rooms_def room_view_def fun_eq_iff)
    moreover have "ss_phase s \<noteq> Attaching" using unattached by auto
    ultimately show ?thesis
      using quiet session_step_conn_id quiet_unattached [OF unattached unattached_step_phase [OF unattached]]
      by (simp add: pair)
  next
    case other
    have "room_view st' = room_view st"
    proof (cases "ss_phase s = Relaying")
      case True
      then show ?thesis
        using snd_on_relaying [of lib env i s st] stored_hash_relay(2) [OF inv]
        by (auto simp: pair session_step.simps)
    next
      case False
      then show ?thesis
        using other
        by (cases "ss_phase s"; cases i; simp add: pair session_step.simps on_unattached_def on_welcoming_def
            on_handshaking_def on_reject_full_def on_announcing_def split: input_splits)
    qed
    then show ?thesis
      using quiet session_step_conn_id [OF other(2)] quiet_phase [OF other] by (simp add: pair)
  qed
qed

lemma session_stored_hash:
  assumes "rooms_inv st"
  shows "stored_hash (snd (session_step lib env i s st)) = stored_hash st"
proof (cases "attached_phase (ss_phase s)")
  case False
  then show ?thesis
    using unattached_step_rooms [OF False, of st lib env i] by (simp add: same_rooms_def stored_hash_def)
next
  case True
  have a: "stored_hash (snd (attach c k j st)) = stored_hash st" "stored_hash (snd (join k j p n st)) = stored_hash st" for c k j p n
    using attach_effect [OF surjective_pairing, of c k j st] join_effect [OF surjective_pairing, of k j p n st]
    by (simp_all add: stored_hash_def)
  show ?thesis
    using attached_step_state [OF True, of lib env i st] a stored_hash_relay(1) [OF assms]
      detach_effect(1) [OF assms, of "ss_room_id s" "ss_conn_id s"]
    by (auto simp: stored_hash_def)
qed

end
