(* ===== verification/SystemMembers.thy ===== *)
theory SystemMembers
imports SystemRooms
begin

text \<open>
  Rooms and sessions together: who is in a room, who created it, and with which keys and passwords, in
  every state the backend can reach.
\<close>

section \<open>The invariant\<close>

definition valid_keys :: "web_lib \<Rightarrow> participant \<Rightarrow> bool" where
  "valid_keys lib p \<longleftrightarrow>
     is_valid_mldsa65_public_key lib (pt_public_key p) \<and> is_valid_mlkem768_public_key lib (pt_pq_public_key p)"

type_synonym rooms_view = "string \<Rightarrow> room_state option"
type_synonym hashes = "string \<Rightarrow> string option option"

text \<open>A session: a participant is in its room, or its room is gone for good.\<close>

definition not_lost :: "rooms_view \<Rightarrow> hashes \<Rightarrow> string \<Rightarrow> bool" where
  "not_lost V H rid \<longleftrightarrow> (V rid = None \<longrightarrow> H rid = None)"

definition present :: "rooms_view \<Rightarrow> hashes \<Rightarrow> string \<Rightarrow> string \<Rightarrow> bool" where
  "present V H rid cid \<longleftrightarrow> (case V rid of None \<Rightarrow> H rid = None | Some (cr, ps) \<Rightarrow> ps cid \<noteq> None)"

definition session_ok :: "web_lib \<Rightarrow> rooms_view \<Rightarrow> hashes \<Rightarrow> session \<Rightarrow> bool" where
  "session_ok lib V H s \<longleftrightarrow>
     (joined_phase (ss_phase s) \<longrightarrow> present V H (ss_room_id s) (ss_conn_id s))
     \<and> keys_ok lib (ss_phase s) \<and> (has_id (ss_phase s) \<longrightarrow> ss_conn_id s \<noteq> [] \<and> not_lost V H (ss_room_id s))
     \<and> (ss_phase s \<in> {Opening, Done, Panicked} \<or> ss_room s \<noteq> None)
     \<and> (\<forall>stored. ss_room s = Some stored \<longrightarrow> H (ss_room_id s) \<in> {None, Some stored})"

text \<open>A room: its participants are sessions, with valid keys; if it has a creator, someone is attached.\<close>

definition room_good :: "web_lib \<Rightarrow> hashes \<Rightarrow> session list \<Rightarrow> string \<Rightarrow> room_state \<Rightarrow> bool" where
  "room_good lib H S rid v \<longleftrightarrow>
     (case v of (cr, ps) \<Rightarrow>
        (\<forall>cid p. ps cid = Some p \<longrightarrow> valid_keys lib p
           \<and> (\<exists>s \<in> set S. ss_room_id s = rid \<and> ss_conn_id s = cid \<and> in_room (ss_phase s)))
        \<and> (cr \<noteq> None \<longrightarrow> (\<exists>s \<in> set S. ss_room_id s = rid \<and> has_id (ss_phase s)))
        \<and> H rid \<noteq> None)"

definition ids_distinct :: "session list \<Rightarrow> bool" where
  "ids_distinct S \<longleftrightarrow> (\<forall>i < length S. \<forall>j < length S. ss_conn_id (S ! i) = ss_conn_id (S ! j) \<longrightarrow> ss_conn_id (S ! i) \<noteq> []
     \<longrightarrow> i = j)"

definition view_inv :: "web_lib \<Rightarrow> rooms_view \<Rightarrow> hashes \<Rightarrow> session list \<Rightarrow> bool" where
  "view_inv lib V H S \<longleftrightarrow> ids_distinct S \<and> (\<forall>s \<in> set S. session_ok lib V H s)
     \<and> (\<forall>rid v. V rid = Some v \<longrightarrow> room_good lib H S rid v)"

lemma in_room_has_id: "in_room p \<Longrightarrow> has_id p"
  by (cases p) (simp_all add: in_room_def has_id_def)

lemma update_witness:
  assumes "\<exists>s \<in> set S. P s" "n < length S" "P (S ! n) \<Longrightarrow> P s'"
  shows "\<exists>s \<in> set (S[n := s']). P s"
proof -
  obtain k where k: "k < length S" "P (S ! k)" using assms(1) by (auto simp: in_set_conv_nth)
  have "P (S[n := s'] ! k)" using k assms(2,3) by (cases "k = n") auto
  then show ?thesis using k(1) by (metis length_list_update nth_mem)
qed

lemma room_good_update:
  assumes "room_good lib H S rid v" "n < length S" "ss_room_id s' = ss_room_id (S ! n)"
    and "\<And>cid p. snd v cid = Some p \<Longrightarrow> ss_room_id (S ! n) = rid \<Longrightarrow> ss_conn_id (S ! n) = cid \<Longrightarrow> in_room (ss_phase (S ! n))
      \<Longrightarrow> ss_conn_id s' = cid \<and> in_room (ss_phase s')"
    and "ss_room_id (S ! n) = rid \<Longrightarrow> has_id (ss_phase (S ! n)) \<Longrightarrow> has_id (ss_phase s')"
  shows "room_good lib H (S[n := s']) rid v"
proof -
  obtain cr ps where v: "v = (cr, ps)" by (cases v)
  have "\<exists>s \<in> set (S[n := s']). ss_room_id s = rid \<and> ss_conn_id s = cid \<and> in_room (ss_phase s)" if "ps cid = Some p" for cid p
    by (rule update_witness) (use assms that in \<open>auto simp: room_good_def v\<close>)
  moreover have "\<exists>s \<in> set (S[n := s']). ss_room_id s = rid \<and> has_id (ss_phase s)" if "cr \<noteq> None"
    by (rule update_witness) (use assms that in \<open>auto simp: room_good_def v\<close>)
  ultimately show ?thesis using assms(1) by (auto simp: room_good_def v)
qed

lemma view_inv_update:
  assumes "view_inv lib V H S" "n < length S" "ids_distinct (S[n := s'])" "session_ok lib V' H s'"
    and "\<And>k. k < length S \<Longrightarrow> k \<noteq> n \<Longrightarrow> session_ok lib V' H (S ! k)"
    and "\<And>rid v. V' rid = Some v \<Longrightarrow> room_good lib H (S[n := s']) rid v"
  shows "view_inv lib V' H (S[n := s'])"
proof -
  have "session_ok lib V' H s" if "s \<in> set (S[n := s'])" for s
  proof -
    obtain k where "k < length S" "s = S[n := s'] ! k" using \<open>s \<in> set (S[n := s'])\<close> by (auto simp: in_set_conv_nth)
    then show ?thesis using assms(2,4,5) by (cases "k = n") auto
  qed
  then show ?thesis using assms(3,6) by (simp add: view_inv_def)
qed

lemma ids_distinct_update:
  assumes "ids_distinct S"
    and "\<And>k. k < length S \<Longrightarrow> k \<noteq> n \<Longrightarrow> ss_conn_id (S ! k) = ss_conn_id s' \<Longrightarrow> ss_conn_id s' = []"
  shows "ids_distinct (S[n := s'])"
  unfolding ids_distinct_def length_list_update
proof (intro allI impI)
  fix i j assume a: "i < length S" "j < length S" "ss_conn_id (S[n := s'] ! i) = ss_conn_id (S[n := s'] ! j)"
    "ss_conn_id (S[n := s'] ! i) \<noteq> []"
  show "i = j"
    using a assms(2) [of i] assms(2) [of j] assms(1)
    by (cases "i = n"; cases "j = n") (auto simp: ids_distinct_def)
qed

lemma ids_distinct_same:
  assumes "ids_distinct S" "n < length S" "ss_conn_id s' = ss_conn_id (S ! n)"
  shows "ids_distinct (S[n := s'])"
  using assms by (intro ids_distinct_update) (auto simp: ids_distinct_def)

lemma ids_distinct_fresh:
  assumes "ids_distinct S" "ss_conn_id s' \<notin> insert [] (ss_conn_id ` set S)"
  shows "ids_distinct (S[n := s'])"
  using assms by (intro ids_distinct_update) (metis imageI insertCI nth_mem)+

section \<open>A reaction of a session keeps it\<close>

lemma session_ok_transfer:
  assumes "session_ok lib V H s" "H' (ss_room_id s) \<in> {None, H (ss_room_id s)}"
    and "joined_phase (ss_phase s) \<Longrightarrow> present V H (ss_room_id s) (ss_conn_id s) \<Longrightarrow> present V' H' (ss_room_id s) (ss_conn_id s)"
    and "has_id (ss_phase s) \<Longrightarrow> not_lost V H (ss_room_id s) \<Longrightarrow> not_lost V' H' (ss_room_id s)"
  shows "session_ok lib V' H' s"
  using assms unfolding session_ok_def by auto

lemma missing_room_step:
  assumes "ss_room s = None" "ss_phase s \<in> {Opening, Done, Panicked}"
  shows "ss_phase (fst (session_step lib env i s st)) \<in> {Opening, Done, Panicked}"
  using assms drop_pending_session(4) [of Done s st]
  by (cases i) (auto simp: session_step.simps on_opening_def)

lemma session_step_ok:
  assumes "session_ok lib V H s" "session_step lib env i s st = (s', st')" "keys_ok lib (ss_phase s')"
    and "has_id (ss_phase s') \<longrightarrow> ss_conn_id s' \<noteq> [] \<and> not_lost V' H (ss_room_id s)"
    and "joined_phase (ss_phase s') \<Longrightarrow> present V' H (ss_room_id s) (ss_conn_id s')"
  shows "session_ok lib V' H s'"
proof -
  have "ss_room s' = ss_room s" "ss_room_id s' = ss_room_id s"
    using session_step_static [of lib env i s st] assms(2) by simp_all
  moreover have "ss_phase s' \<in> {Opening, Done, Panicked}" if "ss_room s = None"
    using missing_room_step [OF that, of lib env i st] assms(1,2) that by (auto simp: session_ok_def)
  ultimately show ?thesis using assms by (auto simp: session_ok_def)
qed

lemma view_inv_session:
  assumes inv: "view_inv lib (room_view st) H S" "rooms_inv st" "H = stored_hash st" and n: "n < length S"
    and fresh: "env_uuid env \<notin> insert [] (ss_conn_id ` set S)"
    and step: "session_step lib env i (S ! n) st = (s', st')"
  shows "view_inv lib (room_view st') H (S[n := s'])"
proof -
  let ?s = "S ! n" and ?V = "room_view st" and ?rid = "ss_room_id (S ! n)" and ?cid = "ss_conn_id (S ! n)"
  have ids: "ids_distinct S" and ok: "\<And>k. k < length S \<Longrightarrow> session_ok lib ?V H (S ! k)"
    and rooms: "\<And>rid v. ?V rid = Some v \<Longrightarrow> room_good lib H S rid v"
    using inv(1) by (auto simp: view_inv_def)
  have rid: "ss_room_id s' = ?rid" using session_step_static [of lib env i ?s st] step by simp
  have s: "session_ok lib ?V H ?s" by (rule ok [OF n])
  note step_ok = session_step_ok [OF s step]
  show ?thesis
    using inv(2) step
  proof (cases rule: session_effect)
    case quiet
    show ?thesis
    proof (rule view_inv_update [OF inv(1) n])
      show "ids_distinct (S[n := s'])" by (rule ids_distinct_same [OF ids n quiet(2)])
      show "session_ok lib (room_view st') H s'"
        using s quiet by (intro step_ok) (auto simp: session_ok_def quiet_move_def)
      show "session_ok lib (room_view st') H (S ! k)" if "k < length S" for k
        using ok [OF that] quiet(1) by simp
      show "room_good lib H (S[n := s']) rid' v" if "room_view st' rid' = Some v" for rid' v
        using that quiet by (intro room_good_update [OF rooms n rid]) (auto simp: quiet_move_def)
    qed
  next
    case refused
    show ?thesis
    proof (rule view_inv_update [OF inv(1) n])
      show "ids_distinct (S[n := s'])" using fresh refused(4) by (intro ids_distinct_fresh [OF ids]) simp
      show "session_ok lib (room_view st') H s'"
        using refused by (intro step_ok) (auto simp: has_id_def)
      show "session_ok lib (room_view st') H (S ! k)" if "k < length S" for k
        using ok [OF that] refused(1) by simp
      show "room_good lib H (S[n := s']) rid' v" if "room_view st' rid' = Some v" for rid' v
        using that refused by (intro room_good_update [OF rooms n rid]) (auto simp: in_room_def has_id_def)
    qed
  next
    case attached
    show ?thesis
    proof (rule view_inv_update [OF inv(1) n])
      show "ids_distinct (S[n := s'])" using fresh attached(5) by (intro ids_distinct_fresh [OF ids]) simp
      show "session_ok lib (room_view st') H s'"
        using attached fresh by (intro step_ok) (auto simp: in_room_def not_lost_def)
      show "session_ok lib (room_view st') H (S ! k)" if "k < length S" for k
        using ok [OF that] attached(6,7) inv(3)
        by (intro session_ok_transfer [OF ok [OF that]])
          (auto simp: present_def not_lost_def attach_view_def split: option.splits prod.splits)
      show "room_good lib H (S[n := s']) rid' v" if "room_view st' rid' = Some v" for rid' v
      proof (cases "rid' = ?rid")
        case False
        then show ?thesis
          using that attached by (intro room_good_update [OF rooms n rid]) auto
      next
        case True
        have mem: "s' \<in> set (S[n := s'])" using n by (rule set_update_memI)
        have v: "v = attach_view (env_uuid env) (?V ?rid)" using that True attached(7) by simp
        show ?thesis
        proof (cases "?V ?rid")
          case None
          then show ?thesis
            using v attached(2,6) mem rid inv(3) True by (auto simp: room_good_def attach_view_def)
        next
          case (Some v0)
          have "room_good lib H S rid' v0" using rooms Some True by blast
          then have "room_good lib H (S[n := s']) rid' v0"
            by (rule room_good_update [OF _ n rid]) (simp_all add: attached(1,2) in_room_def)
          then show ?thesis
            using v Some mem rid attached(2) True
            by (auto simp: room_good_def attach_view_def split: prod.splits option.splits)
        qed
      qed
    qed
  next
    case (joined key pq_key sig cr ps)
    let ?p = "\<lparr>pt_public_key = key, pt_pq_public_key = pq_key, pt_sig = sig\<rparr>"
    have keys: "valid_keys lib ?p" using s joined(1) by (simp add: session_ok_def valid_keys_def)
    show ?thesis
    proof (rule view_inv_update [OF inv(1) n])
      show "ids_distinct (S[n := s'])" by (rule ids_distinct_same [OF ids n joined(3)])
      have "keys_ok lib (ss_phase s')" using joined(2) by (cases "ss_phase s'") auto
      then show "session_ok lib (room_view st') H s'"
        using s joined by (intro step_ok) (auto simp: session_ok_def has_id_def present_def not_lost_def)
      show "session_ok lib (room_view st') H (S ! k)" if "k < length S" for k
        using ok [OF that] joined(4,5)
        by (intro session_ok_transfer [OF ok [OF that]]) (auto simp: present_def not_lost_def split: option.splits prod.splits)
      show "room_good lib H (S[n := s']) rid' v" if "room_view st' rid' = Some v" for rid' v
      proof (cases "rid' = ?rid")
        case False
        then show ?thesis
          using that joined by (intro room_good_update [OF rooms n rid]) auto
      next
        case True
        have mem: "s' \<in> set (S[n := s'])" using n by (rule set_update_memI)
        have id': "in_room (ss_phase s')" "has_id (ss_phase s')"
          using joined(2) in_room_has_id by (auto simp: in_room_def)
        have v: "v = (cr, ps(?cid \<mapsto> ?p))" using that True joined(5) by simp
        have "room_good lib H S rid' (cr, ps)" using rooms joined(4) True by blast
        then have "room_good lib H (S[n := s']) rid' (cr, ps)"
          by (rule room_good_update [OF _ n rid]) (simp_all add: id' joined(3))
        then show ?thesis
          using v mem rid id' joined(3) keys True by (auto simp: room_good_def)
      qed
    qed
  next
    case left
    show ?thesis
    proof (rule view_inv_update [OF inv(1) n])
      show "ids_distinct (S[n := s'])" by (rule ids_distinct_same [OF ids n left(3)])
      show "session_ok lib (room_view st') H s'"
        using left by (intro step_ok) (auto simp: has_id_def)
      have cid: "?cid \<noteq> []" using s left(1) by (simp add: session_ok_def has_id_def)
      show "session_ok lib (room_view st') H (S ! k)" if "k < length S" "k \<noteq> n" for k
      proof -
        have "ss_conn_id (S ! k) \<noteq> ?cid" using ids that n cid unfolding ids_distinct_def by metis
        then show ?thesis
          using left(4) by (intro session_ok_transfer [OF ok [OF that(1)]])
            (auto simp: present_def not_lost_def detach_view_def split: option.splits prod.splits)
      qed
      show "room_good lib H (S[n := s']) rid' v" if "room_view st' rid' = Some v" for rid' v
      proof (cases "rid' = ?rid \<and> ?V ?rid \<noteq> None")
        case False
        then show ?thesis
          using that left by (intro room_good_update [OF rooms n rid]) (auto split: option.splits)
      next
        case True
        then obtain cr ps where v0: "?V ?rid = Some (cr, ps)" by auto
        let ?ps = "ps(?cid := None)"
        have v: "v = (if ?ps = Map.empty then None else cr, ?ps)"
          using that True left(4) v0 by (simp add: detach_view_def)
        have g: "room_good lib H S ?rid (cr, ps)" by (rule rooms [OF v0])
        have wit: "\<exists>s \<in> set (S[n := s']). ss_room_id s = ?rid \<and> ss_conn_id s = cid \<and> in_room (ss_phase s)"
          if "?ps cid = Some p" for cid p
          by (rule update_witness [OF _ n]) (use g that in \<open>auto simp: room_good_def split: if_splits\<close>)
        have "\<exists>s \<in> set (S[n := s']). ss_room_id s = ?rid \<and> has_id (ss_phase s)" if nonempty: "?ps \<noteq> Map.empty"
        proof -
          obtain cid where "?ps cid \<noteq> None" using nonempty by (meson ext)
          then obtain p where "?ps cid = Some p" by blast
          from wit [OF this] show ?thesis using in_room_has_id by blast
        qed
        then show ?thesis
          using g wit True unfolding room_good_def v by (auto split: if_splits)
      qed
    qed
  qed
qed

section \<open>Every step of the system keeps it\<close>

lemma view_inv_hashes:
  assumes "view_inv lib V H S" "\<And>s. s \<in> set S \<Longrightarrow> ss_room s \<noteq> None \<Longrightarrow> H' (ss_room_id s) = H (ss_room_id s)"
    and "\<And>k. H k \<noteq> None \<Longrightarrow> H' k \<noteq> None"
  shows "view_inv lib V H' S"
proof -
  have "session_ok lib V H' s" if "s \<in> set S" for s
  proof (cases "ss_room s")
    case None
    then have "\<not> joined_phase (ss_phase s)" "\<not> has_id (ss_phase s)" "session_ok lib V H s"
      using assms(1) that by (auto simp: view_inv_def session_ok_def has_id_def)
    then show ?thesis using None by (simp add: session_ok_def)
  next
    case (Some x)
    then have "H' (ss_room_id s) = H (ss_room_id s)" using assms(2) that by simp
    moreover have "session_ok lib V H s" using assms(1) that by (simp add: view_inv_def)
    ultimately show ?thesis by (simp add: session_ok_def present_def not_lost_def split: option.splits prod.splits)
  qed
  then show ?thesis using assms(1,3) by (auto simp: view_inv_def room_good_def)
qed

lemma view_inv_expire:
  assumes "view_inv lib V H S"
  shows "view_inv lib (V |` A) (H |` A) S"
proof -
  have "session_ok lib (V |` A) (H |` A) s" if "s \<in> set S" for s
    by (rule session_ok_transfer [where V = V and H = H])
      (use assms that in \<open>auto simp: view_inv_def restrict_map_def present_def not_lost_def\<close>)
  then show ?thesis using assms by (auto simp: view_inv_def room_good_def restrict_map_def split: if_splits)
qed

lemma view_inv_connect:
  assumes "view_inv lib V H S" "s = session_new rid stored g" "H rid = stored"
  shows "view_inv lib V H (S @ [s])"
proof -
  have "ids_distinct (S @ [s])"
    using assms(1,2) by (auto simp: view_inv_def ids_distinct_def nth_append session_new_def)
  moreover have "session_ok lib V H s"
    using assms(2,3) by (simp add: session_ok_def session_new_def has_id_def)
  ultimately show ?thesis using assms(1) by (fastforce simp: view_inv_def room_good_def)
qed

text \<open>A creation can add the hash of its fresh room, and nothing else that the sessions see.\<close>

definition only_adds :: "string \<Rightarrow> app_state \<Rightarrow> app_state \<Rightarrow> bool" where
  "only_adds rid st st' \<longleftrightarrow> room_view st' = room_view st \<and> (\<forall>k. k \<noteq> rid \<longrightarrow> stored_hash st' k = stored_hash st k)
     \<and> (\<forall>k. stored_hash st k \<noteq> None \<longrightarrow> stored_hash st' k = stored_hash st k)"

lemma only_adds_simps [simp]:
  "only_adds rid st st" "only_adds rid st (st'\<lparr>st_admission := adm\<rparr>) = only_adds rid st st'"
  "only_adds rid st (st'\<lparr>st_passwords := svc\<rparr>) = only_adds rid st st'"
  "only_adds rid (st\<lparr>st_admission := adm\<rparr>) st' = only_adds rid st st'"
  "only_adds rid (st\<lparr>st_passwords := svc\<rparr>) st' = only_adds rid st st'"
  by (simp_all add: only_adds_def)

lemma only_adds_store:
  assumes "db_inv (st_db st)"
  shows "only_adds rid st (snd (store_room c rid h st))"
proof -
  let ?db = "snd (create_room_with_password c rid h (st_db st))"
  have eq: "snd (store_room c rid h st) = st\<lparr>st_db := ?db\<rparr>"
    by (simp add: store_room_def split: prod.splits sum.splits)
  have "?db = st_db st \<or> db_view (st_db st) rid = None \<and> db_view ?db = (db_view (st_db st))(rid \<mapsto> (now_timestamp c, h))"
    using store.create_ok [OF assms, of c rid h] store.create_err [of c rid h "st_db st"]
    by (cases "create_room_with_password c rid h (st_db st)"; cases "fst (create_room_with_password c rid h (st_db st))") auto
  then show ?thesis
    unfolding eq by (auto simp: only_adds_def stored_hash_def store.password_def)
qed

lemma only_adds_error: "only_adds rid st (snd (hash_error_response e st))"
  by (simp add: hash_error_response_def split: password_error.splits)

lemma create_start_adds:
  assumes "db_inv (st_db st)"
  shows "only_adds rid st (snd (create_start lib peer headers body now rid c st))"
proof -
  have s: "only_adds rid st st2" if "store_room c rid None (st\<lparr>st_admission := adm\<rparr>) = (q, st2)" for adm q st2
    using only_adds_store [of "st\<lparr>st_admission := adm\<rparr>" rid c None] assms that by simp
  have e: "only_adds rid st st2"
    if "hash_error_response e (st\<lparr>st_admission := adm, st_passwords := svc\<rparr>) = (q, st2)" for e adm svc q st2
    using only_adds_error [of rid "st\<lparr>st_admission := adm, st_passwords := svc\<rparr>" e] that by simp
  show ?thesis
    unfolding create_start_def Let_def
    by (auto split: sum.splits prod.splits option.splits dest: s e)
qed

lemma create_finish_adds:
  assumes "db_inv (st_db st)"
  shows "only_adds rid st (snd (create_finish lib salt panics pw rid c st))"
  using only_adds_store [of "st\<lparr>st_passwords := compute_end (st_passwords st)\<rparr>" rid c] assms
    only_adds_error [of rid "st\<lparr>st_passwords := compute_end (st_passwords st)\<rparr>"]
  by (simp add: create_finish_def Let_def split: sum.splits)

definition sys_view_inv :: "web_lib \<Rightarrow> system \<Rightarrow> bool" where
  "sys_view_inv lib w \<longleftrightarrow> view_inv lib (room_view (sys_app w)) (stored_hash (sys_app w)) (sys_sessions w)"

lemma sys_view_adds:
  assumes "sys_view_inv lib w" "rid \<notin> known_rooms w" "only_adds rid (sys_app w) st"
    and "sys_app w' = st" "sys_sessions w' = sys_sessions w"
  shows "sys_view_inv lib w'"
proof -
  have "view_inv lib (room_view (sys_app w)) (stored_hash st) (sys_sessions w)"
    using assms(1) unfolding sys_view_inv_def
    by (rule view_inv_hashes) (use assms(2,3) in \<open>auto simp: only_adds_def known_rooms_def\<close>)
  then show ?thesis using assms(3-5) by (simp add: sys_view_inv_def only_adds_def)
qed

lemma sys_view_inv_step:
  assumes "sys_step lib w w'" "sys_view_inv lib w" "rooms_inv (sys_app w)"
  shows "sys_view_inv lib w'"
  using assms(1)
proof cases
  case (connect env peer headers rid s st)
  obtain stored g where s: "s = session_new rid stored g" "room_password (env_call env) rid (st_db (sys_app w)) = Inr stored"
    using ws_handler_session [OF connect(2)] by blast
  then have "stored_hash (sys_app w) rid = stored"
    using store.lookup_password [OF s(2)] by (simp add: stored_hash_def)
  then have v: "view_inv lib (room_view (sys_app w)) (stored_hash (sys_app w)) (sys_sessions w @ [s])"
    using assms(2) s(1) view_inv_connect [where H = "stored_hash (sys_app w)"] by (simp add: sys_view_inv_def)
  obtain adm where "st = (sys_app w)\<lparr>st_admission := adm\<rparr>" using ws_handler_state [OF connect(2)] by blast
  with v show ?thesis using connect(1) by (simp add: sys_view_inv_def)
next
  case (session n env i s st)
  have "view_inv lib (room_view st) (stored_hash (sys_app w)) ((sys_sessions w)[n := s])"
    by (rule view_inv_session [OF _ assms(3) refl session(2) _ session(4)])
      (use assms(2) session(3) in \<open>auto simp: sys_view_inv_def known_ids_def\<close>)
  moreover have "stored_hash st = stored_hash (sys_app w)"
    using session_stored_hash [OF assms(3), of lib env i "sys_sessions w ! n"] session(4) by simp
  ultimately show ?thesis using session(1) by (simp add: sys_view_inv_def)
next
  case (create rid peer headers body now c r st)
  then show ?thesis
    using create_start_adds [of "sys_app w" rid lib peer headers body now c] assms(3)
    by (intro sys_view_adds [OF assms(2) create(2)]) (simp_all add: rooms_inv_def)
next
  case (hash rid peer headers body now c pw st)
  then show ?thesis
    using create_start_adds [of "sys_app w" rid lib peer headers body now c] assms(3)
    by (intro sys_view_adds [OF assms(2) hash(2)]) (simp_all add: rooms_inv_def)
next
  case (hashed rid ps pw qs salt panics c r st)
  then show ?thesis
    using create_finish_adds [of "sys_app w" rid lib salt panics pw c] assms(3)
    by (intro sys_view_adds [OF assms(2) hashed(2)]) (simp_all add: rooms_inv_def)
next
  case (cleanup t c)
  obtain r st where ex: "expire_inactive_rooms c t (sys_app w) = (r, st)" by fastforce
  show ?thesis
    using assms(3) ex
  proof (cases rule: expire_effect)
    case 1
    then show ?thesis using assms(2) cleanup ex by (simp add: sys_view_inv_def)
  next
    case (2 ids)
    then show ?thesis
      using view_inv_expire [of lib _ _ "sys_sessions w" "- set ids"] assms(2) cleanup ex by (simp add: sys_view_inv_def)
  qed
next
  case (refuse env peer headers rid r st)
  obtain adm where "st = (sys_app w)\<lparr>st_admission := adm\<rparr>" using ws_handler_state [OF refuse(2)] by blast
  then show ?thesis using assms(2) refuse(1) by (simp add: sys_view_inv_def)
qed (use assms(2) in \<open>simp_all add: sys_view_inv_def maintenance_tick_def\<close>)

lemma sys_reach_view: "sys_reach lib w \<Longrightarrow> sys_view_inv lib w"
proof (induction rule: sys_reach.induct)
  case (start db cfg)
  show ?case by (simp add: sys_view_inv_def view_inv_def ids_distinct_def room_view_def app_state_new_def)
next
  case (step w w')
  then show ?case using sys_view_inv_step [OF step(2)] reachable_inv [OF sys_reach_state] by blast
qed

section \<open>Members\<close>

lemma sys_reach_rooms_inv: "sys_reach lib w \<Longrightarrow> rooms_inv (sys_app w)"
  by (rule reachable_inv [OF sys_reach_state])

lemma sys_room_good:
  assumes "sys_reach lib w" "map_of (st_rooms (sys_app w)) rid = Some room"
  shows "room_good lib (stored_hash (sys_app w)) (sys_sessions w) rid (rm_creator_id room, map_of (rm_participants room))"
  using sys_reach_view [OF assms(1)] assms(2) by (auto simp: sys_view_inv_def view_inv_def room_view_def)

lemma sys_session_ok:
  "sys_reach lib w \<Longrightarrow> s \<in> set (sys_sessions w) \<Longrightarrow> session_ok lib (room_view (sys_app w)) (stored_hash (sys_app w)) s"
  using sys_reach_view by (auto simp: sys_view_inv_def view_inv_def)

lemma sys_member:
  assumes "sys_reach lib w" "map_of (st_rooms (sys_app w)) rid = Some room" "map_of (rm_participants room) cid = Some p"
  shows "valid_keys lib p"
    "\<exists>s \<in> set (sys_sessions w). ss_room_id s = rid \<and> ss_conn_id s = cid \<and> in_room (ss_phase s)"
  using sys_room_good [OF assms(1,2)] assms(3) unfolding room_good_def by (auto simp del: map_of_eq_Some_iff)

lemma sys_ids_distinct:
  assumes "sys_reach lib w" "m < length (sys_sessions w)" "n < length (sys_sessions w)" "has_id (ss_phase (sys_sessions w ! n))"
    and "ss_conn_id (sys_sessions w ! m) = ss_conn_id (sys_sessions w ! n)"
  shows "m = n"
proof -
  have "ss_conn_id (sys_sessions w ! n) \<noteq> []"
    using sys_session_ok [OF assms(1) nth_mem [OF assms(3)]] assms(4) by (simp add: session_ok_def)
  moreover have "ids_distinct (sys_sessions w)" using sys_reach_view [OF assms(1)] by (simp add: sys_view_inv_def view_inv_def)
  ultimately show ?thesis using assms unfolding ids_distinct_def by metis
qed

lemma sys_member_unique:
  assumes "sys_reach lib w" "map_of (st_rooms (sys_app w)) rid = Some room" "map_of (rm_participants room) cid = Some p"
  obtains n where "n < length (sys_sessions w)" "ss_conn_id (sys_sessions w ! n) = cid" "ss_room_id (sys_sessions w ! n) = rid"
    "in_room (ss_phase (sys_sessions w ! n))"
    "\<And>m. m < length (sys_sessions w) \<Longrightarrow> ss_conn_id (sys_sessions w ! m) = cid \<Longrightarrow> m = n"
proof -
  obtain n where n: "n < length (sys_sessions w)" "ss_conn_id (sys_sessions w ! n) = cid"
      "ss_room_id (sys_sessions w ! n) = rid" "in_room (ss_phase (sys_sessions w ! n))"
    using sys_member(2) [OF assms] by (auto simp: in_set_conv_nth)
  then show thesis using that sys_ids_distinct [OF assms(1)] in_room_has_id by metis
qed

text \<open>
  C5. The members of a room are exactly the live sessions in it: in every state the backend can reach,
  each participant of a room in memory is the connection of one session, of that room, which has
  joined and not yet detached, and no other session has its id; and each session that has joined and
  not started to leave is a participant of its room, as long as the room is in memory.
\<close>

theorem membership_exact:
  assumes "sys_reach lib w" "map_of (st_rooms (sys_app w)) rid = Some room"
  shows "(\<forall>cid. contains_key (rm_participants room) cid \<longrightarrow>
        (\<exists>n < length (sys_sessions w). ss_conn_id (sys_sessions w ! n) = cid \<and> ss_room_id (sys_sessions w ! n) = rid
           \<and> in_room (ss_phase (sys_sessions w ! n))
           \<and> (\<forall>m < length (sys_sessions w). ss_conn_id (sys_sessions w ! m) = cid \<longrightarrow> m = n)))
    \<and> (\<forall>s \<in> set (sys_sessions w). ss_room_id s = rid \<longrightarrow> joined_phase (ss_phase s) \<longrightarrow>
        contains_key (rm_participants room) (ss_conn_id s))"
proof (intro conjI allI impI ballI)
  fix cid assume "contains_key (rm_participants room) cid"
  then obtain p where "map_of (rm_participants room) cid = Some p" by auto
  from sys_member_unique [OF assms this]
  show "\<exists>n < length (sys_sessions w). ss_conn_id (sys_sessions w ! n) = cid \<and> ss_room_id (sys_sessions w ! n) = rid
      \<and> in_room (ss_phase (sys_sessions w ! n))
      \<and> (\<forall>m < length (sys_sessions w). ss_conn_id (sys_sessions w ! m) = cid \<longrightarrow> m = n)"
    by metis
next
  fix s assume s: "s \<in> set (sys_sessions w)" "ss_room_id s = rid" "joined_phase (ss_phase s)"
  have "present (room_view (sys_app w)) (stored_hash (sys_app w)) rid (ss_conn_id s)"
    using sys_session_ok [OF assms(1) s(1)] s(2,3) by (simp add: session_ok_def)
  then show "contains_key (rm_participants room) (ss_conn_id s)"
    using assms(2) by (simp add: present_def room_view_def)
qed

text \<open>
  C23. Every key the backend hands out is well-formed: the keys of every participant of every room are
  base64 of 1952 bytes (ML-DSA-65) and of 1184 bytes (ML-KEM-768).
\<close>

theorem participants_keys_valid:
  assumes "sys_reach lib w" "map_of (st_rooms (sys_app w)) rid = Some room" "map_of (rm_participants room) cid = Some p"
  shows "\<exists>bs bs'. web_base64 lib (pt_public_key p) = Some bs \<and> length bs = 1952
    \<and> web_base64 lib (pt_pq_public_key p) = Some bs' \<and> length bs' = 1184"
  using sys_member(1) [OF assms]
  by (auto simp: valid_keys_def is_valid_mldsa65_public_key_def is_valid_mlkem768_public_key_def split: option.splits)

text \<open>
  C26. A room forgets its visitors: when no session of a room is between its attachment and its end, the
  room in memory has no participants and no creator, so that the next to attach is its creator.
\<close>

theorem abandoned_room_clean:
  assumes "sys_reach lib w" "map_of (st_rooms (sys_app w)) rid = Some room"
    and "\<not> (\<exists>s \<in> set (sys_sessions w). ss_room_id s = rid \<and> has_id (ss_phase s))"
  shows "rm_participants room = [] \<and> rm_creator_id room = None"
proof -
  have "map_of (rm_participants room) cid = None" for cid
    using sys_member(2) [OF assms(1,2)] assms(3) in_room_has_id by (meson not_None_eq)
  then have "map_of (rm_participants room) = Map.empty" by (rule ext)
  then have "rm_participants room = []" by simp
  then show ?thesis using sys_room_good [OF assms(1,2)] assms(3) by (auto simp: room_good_def)
qed

end
