(* ===== verification/SystemChannels.thy ===== *)
theory SystemChannels
imports SystemMembers
begin

text \<open>
  Rooms are isolated from one another: in every state the backend can reach, the channel a session sends
  on is the one of its room, the channel a member receives from is the same, and no two rooms share one.
\<close>

section \<open>The channels of rooms and sessions\<close>

definition room_tx :: "app_state \<Rightarrow> string \<Rightarrow> nat option" where
  "room_tx st rid = map_option rm_tx (map_of (st_rooms st) rid)"

lemma room_tx_simps [simp]:
  "room_tx (st\<lparr>st_db := db\<rparr>) = room_tx st" "room_tx (st\<lparr>st_admission := adm\<rparr>) = room_tx st"
  "room_tx (st\<lparr>st_passwords := svc\<rparr>) = room_tx st" "room_tx (send_event tx ev st) = room_tx st"
  "room_tx (put_room rid room st) = (room_tx st)(rid \<mapsto> rm_tx room)"
  by (auto simp: room_tx_def fun_eq_iff send_event_def put_room_def update_conv')

lemma channels_simps [simp]:
  "st_channels (send_event tx ev st) = channel_send tx ev (st_channels st)"
  "st_channels (put_room rid room st) = st_channels st"
  by (simp_all add: send_event_def put_room_def)

lemma attach_tx:
  assumes "attach c rid cid st = (r, st')"
  shows "case r of Inr (Some (tx, _)) \<Rightarrow>
      tx = (case room_tx st rid of Some t \<Rightarrow> t | None \<Rightarrow> length (st_channels st))
      \<and> room_tx st' = (room_tx st)(rid \<mapsto> tx)
      \<and> st_channels st' = st_channels st @ (if room_tx st rid = None then [[]] else [])
    | _ \<Rightarrow> st' = st"
proof (cases "room_exists c rid (st_db st) = Inr True")
  case False
  then show ?thesis using assms by (auto simp: attach_def split: sum.splits bool.splits)
next
  case True
  then show ?thesis
    using assms
    by (cases "map_of (st_rooms st) rid")
      (auto simp: attach_def room_entry_def room_new_def channel_new_def Let_def room_tx_def update_conv' put_room_def
        fun_eq_iff simp del: map_of_eq_Some_iff split: option.splits if_splits)
qed

lemma join_tx:
  assumes "join rid cid p n st = (r, st')"
  shows "room_tx st' = room_tx st \<and> (case r of Joined rx _ \<Rightarrow> room_tx st rid = Some (fst rx)
      \<and> (\<exists>ev. st_channels st' = channel_send (fst rx) ev (st_channels st)) | _ \<Rightarrow> st' = st)"
  using assms
  by (cases "map_of (st_rooms st) rid")
    (auto simp: join_def Let_def channel_subscribe_def room_tx_def fun_eq_iff send_event_def put_room_def update_conv'
      simp del: map_of_eq_Some_iff split: if_splits)

lemma detach_tx:
  "room_tx (detach rid cid st) = room_tx st"
  "st_channels (detach rid cid st) = st_channels st
   \<or> (\<exists>t ev. room_tx st rid = Some t \<and> st_channels (detach rid cid st) = channel_send t ev (st_channels st))"
proof -
  show "room_tx (detach rid cid st) = room_tx st"
    by (cases "map_of (st_rooms st) rid")
      (auto simp: detach_def Let_def room_tx_def fun_eq_iff send_event_def put_room_def update_conv'
        simp del: map_of_eq_Some_iff)
  show "st_channels (detach rid cid st) = st_channels st
   \<or> (\<exists>t ev. room_tx st rid = Some t \<and> st_channels (detach rid cid st) = channel_send t ev (st_channels st))"
    by (cases "map_of (st_rooms st) rid") (auto simp: detach_def Let_def room_tx_def simp del: map_of_eq_Some_iff)
qed

lemma relay_tx:
  "room_tx (relay_incoming env m s st) = room_tx st"
  "st_channels (relay_incoming env m s st) = st_channels st
   \<or> (\<exists>ev. st_channels (relay_incoming env m s st) = channel_send (ss_tx s) ev (st_channels st))"
  by (auto simp: relay_incoming_def split: incoming_message.splits option.splits)

lemma expire_tx:
  assumes "rooms_inv st" "expire_inactive_rooms c t st = (r, st')"
  shows "\<exists>A. room_tx st' = room_tx st |` A" "length (st_channels st') = length (st_channels st)"
proof -
  show "\<exists>A. room_tx st' = room_tx st |` A"
  proof (cases r)
    case (Inl e)
    then have "room_tx st' = room_tx st |` UNIV" using expire_cases(3) [OF assms Inl] by (simp add: restrict_map_def)
    then show ?thesis by blast
  next
    case (Inr ids)
    then have "room_tx st' = room_tx st |` (- set ids)"
      using expire_cases(2) [OF assms Inr] by (auto simp: room_tx_def restrict_map_def fun_eq_iff)
    then show ?thesis by blast
  qed
  have "length (st_channels (remove_rooms ks st)) = length (st_channels st)" for ks st
    by (induction ks arbitrary: st) (auto simp: channel_send_def split: option.splits)
  then show "length (st_channels st') = length (st_channels st)"
    using assms(2) by (auto simp: expire_inactive_rooms_def split: prod.splits sum.splits)
qed

lemma create_start_rooms:
  "st_rooms (snd (create_start lib peer headers body now rid c st)) = st_rooms st
   \<and> st_channels (snd (create_start lib peer headers body now rid c st)) = st_channels st"
proof -
  have s: "st_rooms st2 = st_rooms st1 \<and> st_channels st2 = st_channels st1" if "store_room c rid h st1 = (q, st2)" for h st1 q st2
    using store_room_effect(1,2) [of c rid h st1] that by simp
  have e: "st_rooms st2 = st_rooms st1 \<and> st_channels st2 = st_channels st1" if "hash_error_response e st1 = (q, st2)" for e st1 q st2
    using hash_error_effect(3,4) [of e st1] that by simp
  show ?thesis
    unfolding create_start_def Let_def by (auto split: sum.splits prod.splits option.splits dest: s e)
qed

lemma create_finish_rooms:
  "st_rooms (snd (create_finish lib salt panics pw rid c st)) = st_rooms st
   \<and> st_channels (snd (create_finish lib salt panics pw rid c st)) = st_channels st"
  using store_room_effect(1,2) hash_error_effect(3,4) by (auto simp: create_finish_def Let_def split: sum.splits)

section \<open>What a reaction does to them\<close>

lemma channel_recv_fst: "channel_recv b rx chs = (r, rx') \<Longrightarrow> fst rx' = fst rx"
  by (cases rx) (auto simp: channel_recv_def split: option.splits if_splits)

lemma relay_rx:
  "ss_tx (relay_event env ev s) = ss_tx s" "ss_rx (relay_event env ev s) = ss_rx s"
  "ss_tx (relay_ping env s) = ss_tx s" "ss_rx (relay_ping env s) = ss_rx s"
  "ss_tx (relay_recv env s st) = ss_tx s" "fst (ss_rx (relay_recv env s st)) = fst (ss_rx s)"
  "ss_tx (fst (relay_text lib env t s st)) = ss_tx s" "ss_rx (fst (relay_text lib env t s st)) = ss_rx s"
proof -
  show e: "ss_tx (relay_event env ev s) = ss_tx s" "ss_rx (relay_event env ev s) = ss_rx s" for ev s
    by (simp_all add: relay_event_def send_json_def Let_def split: option.splits)
  show "ss_tx (relay_ping env s) = ss_tx s" "ss_rx (relay_ping env s) = ss_rx s"
    by (simp_all add: relay_ping_def)
  show "ss_tx (relay_recv env s st) = ss_tx s" "fst (ss_rx (relay_recv env s st)) = fst (ss_rx s)"
    using channel_recv_fst [of "env_buffered env" "ss_rx s" "st_channels st"]
    by (auto simp: relay_recv_def e split: prod.splits recv_result.splits)
  show "ss_tx (fst (relay_text lib env t s st)) = ss_tx s" "ss_rx (fst (relay_text lib env t s st)) = ss_rx s"
    by (simp_all add: relay_text_def Let_def split: prod.splits option.splits)
qed

lemma session_step_rx:
  assumes "ss_phase s \<noteq> Attaching" "\<And>k q g. ss_phase s \<noteq> Joining k q g"
  shows "ss_tx (fst (session_step lib env i s st)) = ss_tx s"
    "fst (ss_rx (fst (session_step lib env i s st))) = fst (ss_rx s)"
proof -
  have d: "ss_tx (fst (drop_pending p s st)) = ss_tx s" "ss_rx (fst (drop_pending p s st)) = ss_rx s" for p s st
    by (auto simp: drop_pending_def split: option.splits)
  have r: "ss_tx (fst (reject m s st)) = ss_tx s" "ss_rx (fst (reject m s st)) = ss_rx s" for m s st
    by (simp_all add: reject_def)
  have a: "ss_tx (fst (auth_result r s st)) = ss_tx s" "ss_rx (fst (auth_result r s st)) = ss_rx s" for r st
    by (auto simp: auth_result_def d r split: sum.splits bool.splits password_error.splits)
  have j: "ss_tx (send_json ok m s) = ss_tx s" "ss_rx (send_json ok m s) = ss_rx s" for ok m s
    by (simp_all add: send_json_def)
  have "ss_tx (fst (session_step lib env i s st)) = ss_tx s
      \<and> fst (ss_rx (fst (session_step lib env i s st))) = fst (ss_rx s)"
    using assms
    by (cases "ss_phase s"; cases i; simp add: session_step.simps phase_defs d r a j relay_rx split: input_splits)
  then show "ss_tx (fst (session_step lib env i s st)) = ss_tx s"
    "fst (ss_rx (fst (session_step lib env i s st))) = fst (ss_rx s)" by auto
qed

text \<open>A reaction attaches the session to the channel of its room, or keeps all channels where they are.\<close>

lemma session_tx:
  assumes step: "session_step lib env i s st = (s', st')"
  obtains (attached) tx where "ss_phase s = Attaching" "\<not> joined_phase (ss_phase s')" "ss_tx s' = tx"
      "tx = (case room_tx st (ss_room_id s) of Some t \<Rightarrow> t | None \<Rightarrow> length (st_channels st))"
      "room_tx st' = (room_tx st)(ss_room_id s \<mapsto> tx)" "stored_hash st (ss_room_id s) \<noteq> None"
      "st_channels st' = st_channels st @ (if room_tx st (ss_room_id s) = None then [[]] else [])"
  | (joined) ev where "has_id (ss_phase s)" "ss_tx s' = ss_tx s" "room_tx st' = room_tx st"
      "room_tx st (ss_room_id s) = Some (fst (ss_rx s'))"
      "st_channels st' = channel_send (fst (ss_rx s')) ev (st_channels st)"
  | (kept) "ss_tx s' = ss_tx s" "fst (ss_rx s') = fst (ss_rx s)" "room_tx st' = room_tx st"
      "has_id (ss_phase s') \<Longrightarrow> has_id (ss_phase s)" "joined_phase (ss_phase s') \<Longrightarrow> joined_phase (ss_phase s)"
      "st_channels st' = st_channels st
       \<or> has_id (ss_phase s) \<and> (\<exists>t ev. (t = ss_tx s \<or> room_tx st (ss_room_id s) = Some t)
            \<and> st_channels st' = channel_send t ev (st_channels st))"
proof -
  have pair: "s' = fst (session_step lib env i s st)" "st' = snd (session_step lib env i s st)"
    using step by simp_all
  consider (attaching) "ss_phase s = Attaching" | (joining) key pq_key sig where "ss_phase s = Joining key pq_key sig"
    | (detaching) "ss_phase s = Detaching" | (unattached) "\<not> attached_phase (ss_phase s)"
    | (other) "attached_phase (ss_phase s)" "ss_phase s \<noteq> Attaching" "\<And>k q g. ss_phase s \<noteq> Joining k q g"
        "ss_phase s \<noteq> Detaching"
    by (cases "ss_phase s") auto
  then show thesis
  proof cases
    case attaching
    obtain r st1 where a: "attach (env_call env) (ss_room_id s) (env_uuid env) st = (r, st1)" by fastforce
    show ?thesis
    proof (cases "i = Proceed \<and> (\<exists>x. r = Inr (Some x))")
      case True
      then obtain tx b cid where r: "r = Inr (Some (tx, b, cid))" by auto
      show ?thesis
        by (rule attached [of tx])
          (use step attaching True a r attach_tx [OF a] attach_effect [OF a] in
            \<open>auto simp: session_step.simps on_attaching_def Let_def\<close>)
    next
      case False
      have "i = Proceed \<longrightarrow> r = Inr None \<or> (\<exists>e. r = Inl e)" using False by (cases r; cases "projr r") auto
      then have "st' = st \<and> ss_tx s' = ss_tx s \<and> ss_rx s' = ss_rx s \<and> ss_phase s' \<in> {Attaching, Unattached}"
        using step attaching a attach_tx [OF a]
        by (cases i) (auto simp: session_step.simps on_attaching_def Let_def)
      then show ?thesis by (intro kept) (auto simp: has_id_def attaching)
    qed
  next
    case joining
    let ?p = "\<lparr>pt_public_key = key, pt_pq_public_key = pq_key, pt_sig = sig\<rparr>"
    obtain r st1 where j: "join (ss_room_id s) (ss_conn_id s) ?p max_participants st = (r, st1)" by fastforce
    show ?thesis
    proof (cases "i = Proceed \<and> (\<exists>rx peers. r = Joined rx peers)")
      case True
      then obtain rx peers where r: "r = Joined rx peers" by blast
      obtain ev where ev: "st_channels st1 = channel_send (fst rx) ev (st_channels st)" using join_tx [OF j] r by auto
      show ?thesis
        by (rule joined [of ev])
          (use step joining True j r ev join_tx [OF j] in \<open>auto simp: session_step.simps on_joining_def has_id_def\<close>)
    next
      case False
      then have "st' = st \<and> ss_tx s' = ss_tx s \<and> ss_rx s' = ss_rx s \<and> \<not> joined_phase (ss_phase s')"
        using step joining j join_tx [OF j]
        by (cases i; cases r) (auto simp: session_step.simps on_joining_def)
      then show ?thesis by (intro kept) (auto simp: joining has_id_def)
    qed
  next
    case detaching
    have "has_id (ss_phase s)" by (simp add: detaching has_id_def)
    then show ?thesis
      using step detaching detach_tx [of "ss_room_id s" "ss_conn_id s" st]
      by (intro kept) (cases i; auto simp: session_step.simps on_detaching_def)+
  next
    case unattached
    have ne: "ss_phase s \<noteq> Attaching" "\<And>k q g. ss_phase s \<noteq> Joining k q g" using unattached by auto
    have "\<not> has_id (ss_phase s')" "\<not> joined_phase (ss_phase s')"
      using unattached_step_phase [OF unattached, of lib env i st] by (auto simp: pair has_id_def) (cases "ss_phase s'"; auto simp: pair)
    then show ?thesis
      using unattached_step_rooms [OF unattached, of st lib env i] session_step_rx [OF ne]
      by (intro kept) (auto simp: pair same_rooms_def room_tx_def fun_eq_iff)
  next
    case other
    have q: "quiet_move lib (ss_phase s) (ss_phase s')" using quiet_phase [OF other] by (simp add: pair)
    have "st' = st \<or> (\<exists>m. ss_phase s = Relaying \<and> st' = relay_incoming env m s st)"
    proof (cases "ss_phase s = Relaying")
      case True
      then show ?thesis using snd_on_relaying [of lib env i s st] by (auto simp: pair session_step.simps)
    next
      case False
      then show ?thesis
        using other
        by (cases "ss_phase s"; cases i; simp add: pair session_step.simps on_unattached_def on_welcoming_def
            on_handshaking_def on_reject_full_def on_announcing_def split: input_splits)
    qed
    moreover have "has_id Relaying" by (simp add: has_id_def)
    ultimately have "room_tx st' = room_tx st \<and> (st_channels st' = st_channels st
        \<or> has_id (ss_phase s) \<and> (\<exists>ev. st_channels st' = channel_send (ss_tx s) ev (st_channels st)))"
      using relay_tx [of env _ s st] by metis
    then show ?thesis
      using session_step_rx [OF other(2,3), of lib env i st] q
      by (intro kept) (auto simp: pair quiet_move_def)
  qed
qed

section \<open>The invariant\<close>

text \<open>A session sends and receives on the channel of its room; sessions of two rooms never share one.\<close>

definition tx_ok :: "(string \<Rightarrow> nat option) \<Rightarrow> nat \<Rightarrow> session \<Rightarrow> bool" where
  "tx_ok T len s \<longleftrightarrow> (has_id (ss_phase s) \<longrightarrow> ss_tx s < len
        \<and> (\<forall>rid t. T rid = Some t \<longrightarrow> (t = ss_tx s \<longleftrightarrow> rid = ss_room_id s))
        \<and> (joined_phase (ss_phase s) \<longrightarrow> fst (ss_rx s) = ss_tx s))"

definition tx_apart :: "session \<Rightarrow> session \<Rightarrow> bool" where
  "tx_apart s s' \<longleftrightarrow> (has_id (ss_phase s) \<longrightarrow> has_id (ss_phase s') \<longrightarrow> ss_tx s = ss_tx s' \<longrightarrow>
     ss_room_id s = ss_room_id s')"

definition tx_inv :: "(string \<Rightarrow> nat option) \<Rightarrow> nat \<Rightarrow> session list \<Rightarrow> bool" where
  "tx_inv T len S \<longleftrightarrow> (\<forall>s \<in> set S. tx_ok T len s \<and> (\<forall>s' \<in> set S. tx_apart s s'))"

definition sys_tx_inv :: "system \<Rightarrow> bool" where
  "sys_tx_inv w \<longleftrightarrow> tx_inv (room_tx (sys_app w)) (length (st_channels (sys_app w))) (sys_sessions w)"

lemma tx_okD: "tx_ok T len s \<Longrightarrow> has_id (ss_phase s) \<Longrightarrow> T rid = Some t \<Longrightarrow> t = ss_tx s \<longleftrightarrow> rid = ss_room_id s"
  by (simp add: tx_ok_def)

lemma joined_has_id: "joined_phase p \<Longrightarrow> has_id p"
  by (rule in_room_has_id) (simp add: in_room_def)

lemma tx_apart_refl [simp]: "tx_apart s s"
  by (simp add: tx_apart_def)

lemma tx_apart_sym: "tx_apart s s' \<Longrightarrow> tx_apart s' s"
  by (auto simp: tx_apart_def)

lemma tx_ok_restrict: "tx_ok T len s \<Longrightarrow> tx_ok (T |` A) len s"
  by (simp add: tx_ok_def restrict_map_def)

lemma tx_inv_insert:
  assumes "tx_inv T len S" "\<And>r. r \<in> set S \<Longrightarrow> tx_ok T len r \<Longrightarrow> tx_ok T' len' r \<and> tx_apart r s'"
    and "tx_ok T' len' s'" "set S' \<subseteq> insert s' (set S)"
  shows "tx_inv T' len' S'"
proof -
  have "tx_ok T' len' r \<and> tx_apart r s'" if "r \<in> set S" for r
    using assms(1,2) that by (simp add: tx_inv_def)
  then have "\<forall>r \<in> insert s' (set S). tx_ok T' len' r \<and> (\<forall>r' \<in> insert s' (set S). tx_apart r r')"
    using assms(1,3) tx_apart_sym by (auto simp: tx_inv_def)
  then show ?thesis using assms(4) unfolding tx_inv_def by blast
qed

lemma tx_inv_no_id: "tx_inv T len S \<Longrightarrow> \<not> has_id (ss_phase s) \<Longrightarrow> tx_inv T len (S @ [s])"
  by (rule tx_inv_insert [where s' = s]) (auto simp: tx_ok_def tx_apart_def joined_has_id)

lemma tx_inv_keep:
  assumes "tx_inv T len S" "s \<in> set S" "ss_tx s' = ss_tx s" "ss_room_id s' = ss_room_id s"
    and "has_id (ss_phase s') \<Longrightarrow> has_id (ss_phase s)"
    and "joined_phase (ss_phase s') \<Longrightarrow> fst (ss_rx s') = ss_tx s"
    and "set S' \<subseteq> insert s' (set S)"
  shows "tx_inv T len S'"
proof (rule tx_inv_insert [OF assms(1) _ _ assms(7)])
  have s: "tx_ok T len s" using assms(1,2) by (simp add: tx_inv_def)
  then show "tx_ok T len s'" using assms(3-6) by (simp add: tx_ok_def)
  fix r assume "r \<in> set S" "tx_ok T len r"
  then have "tx_apart r s" using assms(1,2) by (simp add: tx_inv_def)
  then show "tx_ok T len r \<and> tx_apart r s'" using \<open>tx_ok T len r\<close> assms(3-5) by (simp add: tx_apart_def)
qed

lemma sys_tx_session:
  assumes "sys_reach lib w" "sys_tx_inv w" "n < length (sys_sessions w)"
    and "session_step lib env i (sys_sessions w ! n) (sys_app w) = (s, st)"
  shows "tx_inv (room_tx st) (length (st_channels st)) ((sys_sessions w)[n := s])"
proof -
  let ?s = "sys_sessions w ! n" and ?S = "sys_sessions w" and ?app = "sys_app w"
  let ?rid = "ss_room_id ?s" and ?len = "length (st_channels ?app)"
  have mem: "?s \<in> set ?S" using assms(3) by simp
  have rid: "ss_room_id s = ?rid" using session_step_static [of lib env i ?s ?app] assms(4) by simp
  have sub: "set (?S[n := s]) \<subseteq> insert s (set ?S)" by (rule set_update_subset_insert)
  have T: "tx_inv (room_tx ?app) ?len ?S" using assms(2) by (simp add: sys_tx_inv_def)
  then have ok: "tx_ok (room_tx ?app) ?len ?s" using mem by (simp add: tx_inv_def)
  have inv: "rooms_inv ?app" by (rule sys_reach_rooms_inv [OF assms(1)])
  show ?thesis
    using assms(4)
  proof (cases rule: session_tx)
    case (attached tx)
    have small: "t < ?len" if "room_tx ?app k = Some t" for k t
      using that rooms_invD(1) [OF inv] by (auto simp: room_tx_def)
    have inj: "k = ?rid \<longleftrightarrow> t' = t" if "room_tx ?app k = Some t'" "room_tx ?app ?rid = Some t" for k t t'
      using that rooms_inv_tx [OF inv] by (auto simp: room_tx_def)
    show ?thesis
    proof (cases "room_tx ?app ?rid")
      case (Some t)
      have eq: "room_tx st = room_tx ?app" "length (st_channels st) = ?len" "ss_tx s = t"
        using attached Some by (auto simp: fun_upd_idem)
      show ?thesis
        unfolding eq(1,2)
      proof (rule tx_inv_insert [OF T _ _ sub])
        show "tx_ok (room_tx ?app) ?len s"
          using small [OF Some] inj [OF _ Some] attached(2) rid eq(3) by (auto simp: tx_ok_def)
        show "tx_ok (room_tx ?app) ?len r \<and> tx_apart r s" if "tx_ok (room_tx ?app) ?len r" for r
          using that Some eq(3) rid unfolding tx_ok_def tx_apart_def by metis
      qed
    next
      case None
      have eq: "ss_tx s = ?len" "length (st_channels st) = Suc ?len" "room_tx st = (room_tx ?app)(?rid \<mapsto> ?len)"
        using attached None by auto
      show ?thesis
        unfolding eq(2,3)
      proof (rule tx_inv_insert [OF T _ _ sub])
        show "tx_ok ((room_tx ?app)(?rid \<mapsto> ?len)) (Suc ?len) s"
          using small attached(2) rid eq(1) by (auto simp: tx_ok_def dest: less_imp_neq)
        fix r assume r: "r \<in> set ?S" "tx_ok (room_tx ?app) ?len r"
        have "?rid \<noteq> ss_room_id r" if "has_id (ss_phase r)"
          using sys_session_ok [OF assms(1) r(1)] that None attached(6)
          by (auto simp: session_ok_def not_lost_def room_view_def room_tx_def)
        then show "tx_ok ((room_tx ?app)(?rid \<mapsto> ?len)) (Suc ?len) r \<and> tx_apart r s"
          using r(2) eq(1) by (auto simp: tx_ok_def tx_apart_def)
      qed
    qed
  next
    case (joined ev)
    have "fst (ss_rx s) = ss_tx ?s" using ok joined(1,4) by (auto simp: tx_ok_def)
    then show ?thesis using tx_inv_keep [OF T mem joined(2) rid _ _ sub] joined by simp
  next
    case kept
    have len: "length (st_channels st) = ?len" using kept(6) by auto
    have "fst (ss_rx s) = ss_tx ?s" if "joined_phase (ss_phase s)"
      using ok kept(2) kept(5) [OF that] joined_has_id by (simp add: tx_ok_def)
    then show ?thesis
      unfolding kept(3) len using kept(4) by (intro tx_inv_keep [OF T mem kept(1) rid _ _ sub])
  qed
qed

lemma sys_tx_step:
  assumes "sys_step lib w w'" "sys_tx_inv w" "sys_reach lib w"
  shows "sys_tx_inv w'"
proof -
  have same: "sys_tx_inv w'" if "st_rooms st = st_rooms (sys_app w) \<and> st_channels st = st_channels (sys_app w)"
      "sys_app w' = st" "sys_sessions w' = sys_sessions w" for st
  proof -
    have "room_tx st = room_tx (sys_app w)" using that(1) by (simp add: room_tx_def fun_eq_iff)
    then show ?thesis using assms(2) that by (simp add: sys_tx_inv_def)
  qed
  from assms(1) show ?thesis
  proof cases
    case (connect env peer headers rid s st)
    have "\<not> has_id (ss_phase s)" using ws_handler_session [OF connect(2)] by (auto simp: session_new_def has_id_def)
    moreover obtain adm where "st = (sys_app w)\<lparr>st_admission := adm\<rparr>" using ws_handler_state [OF connect(2)] by blast
    ultimately show ?thesis using tx_inv_no_id assms(2) connect(1) by (simp add: sys_tx_inv_def)
  next
    case (refuse env peer headers rid r st)
    obtain adm where "st = (sys_app w)\<lparr>st_admission := adm\<rparr>" using ws_handler_state [OF refuse(2)] by blast
    then show ?thesis using assms(2) refuse(1) by (simp add: sys_tx_inv_def)
  next
    case (session n env i s st)
    then show ?thesis using sys_tx_session [OF assms(3,2) session(2,4)] by (simp add: sys_tx_inv_def)
  next
    case (create rid peer headers body now c r st)
    then show ?thesis
      using create_start_rooms [of lib peer headers body now rid c "sys_app w"] by (intro same [of st]) simp_all
  next
    case (hash rid peer headers body now c pw st)
    then show ?thesis
      using create_start_rooms [of lib peer headers body now rid c "sys_app w"] by (intro same [of st]) simp_all
  next
    case (hashed rid ps pw qs salt panics c r st)
    then show ?thesis
      using create_finish_rooms [of lib salt panics pw rid c "sys_app w"] by (intro same [of st]) simp_all
  next
    case (cleanup t c)
    obtain r st where ex: "expire_inactive_rooms c t (sys_app w) = (r, st)" by fastforce
    obtain A where "room_tx st = room_tx (sys_app w) |` A" "length (st_channels st) = length (st_channels (sys_app w))"
      using expire_tx [OF sys_reach_rooms_inv [OF assms(3)] ex] by blast
    then show ?thesis using tx_ok_restrict assms(2) cleanup ex by (simp add: sys_tx_inv_def tx_inv_def)
  qed (use assms(2) in \<open>simp_all add: sys_tx_inv_def maintenance_tick_def\<close>)
qed

lemma sys_reach_tx: "sys_reach lib w \<Longrightarrow> sys_tx_inv w"
proof (induction rule: sys_reach.induct)
  case (start db cfg)
  show ?case by (simp add: sys_tx_inv_def tx_inv_def)
qed (rule sys_tx_step)

text \<open>
  C10. Rooms do not leak into each other: in every state the backend can reach, when a reaction of a
  session changes a channel, by whatever frame of its client, then every member that receives from that
  channel is a session of the same room, and if a room sends on that channel it is that room.
\<close>

theorem room_isolation:
  assumes "sys_reach lib w" "n < length (sys_sessions w)"
    and "session_step lib env i (sys_sessions w ! n) (sys_app w) = (s', st')"
    and "c < length (st_channels (sys_app w))" "st_channels st' ! c \<noteq> st_channels (sys_app w) ! c"
  shows "(\<forall>r \<in> set (sys_sessions w). joined_phase (ss_phase r) \<longrightarrow> fst (ss_rx r) = c \<longrightarrow>
        ss_room_id r = ss_room_id (sys_sessions w ! n))
    \<and> (\<forall>rid room. map_of (st_rooms (sys_app w)) rid = Some room \<longrightarrow> rm_tx room = c \<longrightarrow>
        rid = ss_room_id (sys_sessions w ! n))"
proof -
  let ?s = "sys_sessions w ! n" and ?app = "sys_app w"
  have mem: "?s \<in> set (sys_sessions w)" using assms(2) by simp
  have inv: "\<And>r. r \<in> set (sys_sessions w) \<Longrightarrow> tx_ok (room_tx ?app) (length (st_channels ?app)) r \<and> tx_apart r ?s"
    using sys_reach_tx [OF assms(1)] mem by (simp add: sys_tx_inv_def tx_inv_def)
  have other: "st_channels st' ! c = st_channels ?app ! c"
    if "st_channels st' = channel_send t ev (st_channels ?app)" "t \<noteq> c" for t ev
    using that by (cases "t < length (st_channels ?app)") (simp_all add: channel_send_def)
  from assms(3) have "has_id (ss_phase ?s) \<and> c = ss_tx ?s"
  proof (cases rule: session_tx)
    case (attached tx)
    then show ?thesis using assms(4,5) by (simp add: nth_append)
  next
    case (joined ev)
    then show ?thesis using inv [OF mem] other [OF joined(5)] assms(5) by (auto simp: tx_ok_def)
  next
    case kept
    then obtain t ev where t: "has_id (ss_phase ?s)" "t = ss_tx ?s \<or> room_tx ?app (ss_room_id ?s) = Some t"
        "st_channels st' = channel_send t ev (st_channels ?app)"
      using assms(5) by metis
    then have "t = ss_tx ?s" using inv [OF mem] unfolding tx_ok_def by metis
    then show ?thesis using t other [OF t(3)] assms(5) by metis
  qed
  then have s: "has_id (ss_phase ?s)" "c = ss_tx ?s" by auto
  have "ss_room_id r = ss_room_id ?s" if "r \<in> set (sys_sessions w)" "joined_phase (ss_phase r)" "fst (ss_rx r) = c" for r
    using inv [OF that(1)] that(2,3) s joined_has_id by (simp add: tx_ok_def tx_apart_def)
  moreover have "rid = ss_room_id ?s" if "map_of (st_rooms ?app) rid = Some room" "rm_tx room = c" for rid room
    using tx_okD [OF conjunct1 [OF inv [OF mem]] s(1), of rid c] that s(2) by (simp add: room_tx_def)
  ultimately show ?thesis by blast
qed

end
