(* ===== verification/SystemLiveness.thy ===== *)
theory SystemLiveness
imports SystemChannels
begin

text \<open>
  What is sure to happen. A rank of the phases bounds how often a session can change its phase, so that
  a session whose client is gone ends, whatever the others do; and a relaying member that reads its
  channel is sent every message of its room.
\<close>

section \<open>A session runs down its phases\<close>

text \<open>
  A session in \<open>Joining\<close> has at most 16 frames to announce, the confirmation and 15 keys, as the room had
  less than 16 participants.
\<close>

fun phase_rank :: "phase \<Rightarrow> nat" where
  "phase_rank Opening = 27"
| "phase_rank AuthWait = 26"
| "phase_rank (VerifyReady _) = 25"
| "phase_rank (VerifyJob _) = 24"
| "phase_rank (Rejecting _) = 1"
| "phase_rank Attaching = 23"
| "phase_rank Unattached = 1"
| "phase_rank (Welcoming _ _) = 22"
| "phase_rank Handshaking = 21"
| "phase_rank (Joining _ _ _) = 20"
| "phase_rank RejectFull = 2"
| "phase_rank (Announcing ms) = 3 + length ms"
| "phase_rank Relaying = 2"
| "phase_rank Detaching = 1"
| "phase_rank Done = 0"
| "phase_rank Panicked = 0"

text \<open>What an await can yield once the client is gone: its stream has ended, a deadline elapses, a call returns.\<close>

fun gone_input :: "phase \<Rightarrow> ws_input \<Rightarrow> bool" where
  "gone_input Opening i \<longleftrightarrow> i = Proceed \<or> i = UpgradeFailed"
| "gone_input AuthWait i \<longleftrightarrow> i = Recv NextNone \<or> i = Deadline"
| "gone_input (VerifyReady _) i \<longleftrightarrow> i = Recv NextNone \<or> i = Deadline \<or> i = Proceed"
| "gone_input (VerifyJob _) i \<longleftrightarrow> i = Recv NextNone \<or> i = Deadline \<or> (\<exists>panics. i = JobDone panics)"
| "gone_input Handshaking i \<longleftrightarrow> i = Recv NextNone \<or> i = Deadline"
| "gone_input Relaying i \<longleftrightarrow> i = Recv NextNone"
| "gone_input _ i \<longleftrightarrow> i = Proceed"

lemma join_peers:
  "join rid cid p limit st = (Joined rx peers, st') \<Longrightarrow> length peers < limit"
  by (auto simp: join_def Let_def snapshot_def split: option.splits if_splits)

lemma auth_result_rank: "phase_rank (ss_phase (fst (auth_result r s st))) \<le> 23"
  using drop_pending_session(4) [of Attaching s st]
  by (auto simp: auth_result_def reject_def split: sum.splits bool.splits password_error.splits)

lemma auth_result_leaves:
  "ss_phase (fst (auth_result r s st)) \<noteq> VerifyReady password" "ss_phase (fst (auth_result r s st)) \<noteq> VerifyJob pw"
  using auth_result_phase [of r s st] by auto

lemma session_rank:
  "ss_phase (fst (session_step lib env i s st)) = ss_phase s
   \<or> phase_rank (ss_phase (fst (session_step lib env i s st))) < phase_rank (ss_phase s)"
proof (cases "ss_phase s")
  case (Joining key pq_key sig)
  then show ?thesis
    by (cases i) (auto simp: session_step.simps on_joining_def max_participants_def split: prod.splits join_outcome.splits
        dest!: join_peers)
next
  case Relaying
  obtain s' st' where step: "session_step lib env i s st = (s', st')" by fastforce
  show ?thesis using relaying_step(1) [OF Relaying step] Relaying step by auto
next
  case (VerifyJob pw)
  have "phase_rank (ss_phase (fst (auth_result r s st))) < 24" for r s st
    using auth_result_rank [of r s st] by simp
  then show ?thesis
    using VerifyJob by (cases i) (simp_all add: session_step.simps on_verify_job_def)
next
  case (VerifyReady password)
  have "phase_rank (ss_phase (fst (auth_result r s st))) < 25" for r s st
    using auth_result_rank [of r s st] by simp
  then show ?thesis
    using VerifyReady
    by (cases i) (simp_all add: session_step.simps on_verify_ready_def split: prod.splits sum.splits)
next
  case Opening
  then show ?thesis
    using drop_pending_session(4) [of Done s st] drop_pending_session(4) [of Attaching s st]
    by (cases i) (auto simp: session_step.simps on_opening_def split: option.splits if_splits)
next
  case (Rejecting m)
  have "phase_rank (ss_phase (fst (drop_pending Done s st))) = 0" for s st
    using drop_pending_session(4) [of Done s st] by auto
  then show ?thesis
    using Rejecting by (cases i) (simp_all add: session_step.simps on_rejecting_def)
next
  case (Announcing ms)
  then show ?thesis
    by (cases i; cases ms) (simp_all add: session_step.simps on_announcing_def send_json_def)
qed (cases i; simp add: session_step.simps on_auth_wait_def on_attaching_def on_unattached_def on_welcoming_def
  on_handshaking_def on_reject_full_def on_detaching_def send_json_def Let_def split: input_splits)+

lemma gone_moves:
  assumes "gone_input (ss_phase s) i" "ss_phase s \<noteq> Done" "ss_phase s \<noteq> Panicked"
  shows "ss_phase (fst (session_step lib env i s st)) \<noteq> ss_phase s"
proof (cases "ss_phase s")
  case Opening
  then show ?thesis
    using assms drop_pending_session(4) [of Done s st] drop_pending_session(4) [of Attaching s st]
    by (auto simp: session_step.simps on_opening_def split: option.splits if_splits)
next
  case (Rejecting m)
  then show ?thesis
    using assms drop_pending_session(4) [of Done "send_frame (env_send env 1) FClose (send_json (env_send env 0) m s)" st]
    by (auto simp: session_step.simps on_rejecting_def)
next
  case VerifyReady
  then show ?thesis
    using assms by (auto simp: session_step.simps on_verify_ready_def auth_result_leaves split: prod.splits sum.splits)
next
  case VerifyJob
  then show ?thesis
    using assms by (auto simp: session_step.simps on_verify_job_def auth_result_leaves)
next
  case (Announcing ms)
  then show ?thesis
    using assms by (cases ms) (simp_all add: session_step.simps on_announcing_def send_json_def)
qed (use assms in \<open>auto simp: session_step.simps on_auth_wait_def on_attaching_def on_unattached_def on_welcoming_def
  on_handshaking_def on_joining_def on_reject_full_def on_relaying_def on_detaching_def send_json_def Let_def
  split: sum.splits option.splits prod.splits join_outcome.splits\<close>)

lemma gone_rank:
  assumes "gone_input (ss_phase s) i"
  shows "phase_rank (ss_phase (fst (session_step lib env i s st))) \<le> phase_rank (ss_phase s) - 1"
proof (cases "ss_phase s = Done \<or> ss_phase s = Panicked")
  case True
  then show ?thesis by (auto simp: session_step.simps)
next
  case False
  then show ?thesis
    using gone_moves [OF assms, of lib env st] session_rank [of lib env i s st] by auto
qed

lemma phase_rank_0: "phase_rank p = 0 \<longleftrightarrow> p = Done \<or> p = Panicked"
  by (cases p) simp_all

section \<open>A session whose client is gone ends\<close>

text \<open>
  A run of the system in which the session \<open>n\<close> reacts \<open>k\<close> times to an input of \<open>gone_input\<close>; all other
  steps are arbitrary, further reactions of that session included.
\<close>

inductive gone_run :: "web_lib \<Rightarrow> nat \<Rightarrow> nat \<Rightarrow> system \<Rightarrow> system \<Rightarrow> bool" for lib n where
  here: "gone_run lib n 0 w w"
| other: "gone_run lib n k w w1 \<Longrightarrow> sys_step lib w1 w2 \<Longrightarrow> gone_run lib n k w w2"
| gone: "gone_run lib n k w w1 \<Longrightarrow> env_uuid env \<notin> known_ids w1
     \<Longrightarrow> gone_input (ss_phase (sys_sessions w1 ! n)) i
     \<Longrightarrow> session_step lib env i (sys_sessions w1 ! n) (sys_app w1) = (s, st)
     \<Longrightarrow> gone_run lib n (Suc k) w (w1\<lparr>sys_app := st, sys_sessions := (sys_sessions w1)[n := s],
           sys_orphans := sys_orphans w1 + of_bool (abandons i (sys_sessions w1 ! n) s)\<rparr>)"

lemma sys_step_other:
  assumes "sys_step lib w w'" "n < length (sys_sessions w)"
  shows "n < length (sys_sessions w')"
    and "sys_sessions w' ! n = sys_sessions w ! n
      \<or> (\<exists>env i. sys_sessions w' ! n = fst (session_step lib env i (sys_sessions w ! n) (sys_app w)))"
proof -
  have "n < length (sys_sessions w') \<and> (sys_sessions w' ! n = sys_sessions w ! n
      \<or> (\<exists>env i. sys_sessions w' ! n = fst (session_step lib env i (sys_sessions w ! n) (sys_app w))))"
    using assms(1)
  proof cases
    case (session m env i s st)
    then show ?thesis using assms(2) by (cases "m = n") (auto, metis fst_conv)
  qed (use assms(2) in \<open>auto simp: nth_append\<close>)
  then show "n < length (sys_sessions w')" "sys_sessions w' ! n = sys_sessions w ! n
      \<or> (\<exists>env i. sys_sessions w' ! n = fst (session_step lib env i (sys_sessions w ! n) (sys_app w)))"
    by simp_all
qed

lemma gone_run_rank:
  assumes "gone_run lib n k w w'" "n < length (sys_sessions w)" "sys_reach lib w"
  shows "sys_reach lib w' \<and> n < length (sys_sessions w')
    \<and> phase_rank (ss_phase (sys_sessions w' ! n)) \<le> phase_rank (ss_phase (sys_sessions w ! n)) - k"
  using assms
proof (induction rule: gone_run.induct)
  case (other k w w1 w2)
  then have IH: "sys_reach lib w1" "n < length (sys_sessions w1)"
      "phase_rank (ss_phase (sys_sessions w1 ! n)) \<le> phase_rank (ss_phase (sys_sessions w ! n)) - k"
    by auto
  have "phase_rank (ss_phase (sys_sessions w2 ! n)) \<le> phase_rank (ss_phase (sys_sessions w1 ! n))"
    using sys_step_other(2) [OF other.hyps(2) IH(2)] session_rank by (metis le_refl less_imp_le)
  then show ?case
    using IH sys_reach.step [OF IH(1) other.hyps(2)] sys_step_other(1) [OF other.hyps(2) IH(2)] by simp
next
  case (gone k w w1 env i s st)
  then have IH: "sys_reach lib w1" "n < length (sys_sessions w1)"
      "phase_rank (ss_phase (sys_sessions w1 ! n)) \<le> phase_rank (ss_phase (sys_sessions w ! n)) - k"
    by auto
  have "phase_rank (ss_phase s) \<le> phase_rank (ss_phase (sys_sessions w1 ! n)) - 1"
    using gone_rank [OF gone.hyps(3), of lib env "sys_app w1"] gone.hyps(4) by simp
  then show ?case
    using IH sys_reach.step [OF IH(1) sys_step.session [OF IH(2) gone.hyps(2,4)]] by simp
qed simp

lemma sys_rank_bounded: "sys_reach lib w \<Longrightarrow> n < length (sys_sessions w) \<Longrightarrow> phase_rank (ss_phase (sys_sessions w ! n)) \<le> 27"
proof (induction arbitrary: n rule: sys_reach.induct)
  case (start db cfg)
  then show ?case by simp
next
  case (step w w')
  show ?case
  proof (cases "n < length (sys_sessions w)")
    case True
    show ?thesis
      using sys_step_other(2) [OF step.hyps(2) True] step.IH [OF True] session_rank by (metis le_trans less_imp_le)
  next
    case False
    have "ss_phase (sys_sessions w' ! n) = Opening"
      using step.hyps(2)
    proof cases
      case (connect env peer headers rid s st)
      then show ?thesis
        using False step.prems ws_handler_session [OF connect(2)] by (auto simp: nth_append session_new_def)
    qed (use False step.prems in auto)
    then show ?thesis by simp
  qed
qed

text \<open>Such a run is always possible: every phase has such an input, and there is always a fresh id.\<close>

lemma fresh_env:
  obtains env :: step_env where "env_uuid env \<notin> known_ids w" "env_send env 0" "env_buffered env = b"
proof -
  have "finite (known_ids w)" by (simp add: known_ids_def)
  then obtain u where "u \<notin> known_ids w" using ex_new_if_finite [OF infinite_UNIV_listI] by blast
  then show thesis
    using that [of "\<lparr>env_now = 0, env_send = (\<lambda>_. True), env_call = \<lparr>call_ok = True, call_clock = 0\<rparr>,
      env_uuid = u, env_buffered = b\<rparr>"] by simp
qed

lemma gone_run_exists: "\<exists>w'. gone_run lib n k w w'"
proof (induction k)
  case 0
  show ?case using gone_run.here by blast
next
  case (Suc k)
  then obtain w1 where w1: "gone_run lib n k w w1" by blast
  obtain i where i: "gone_input (ss_phase (sys_sessions w1 ! n)) i"
    by (cases "ss_phase (sys_sessions w1 ! n)") auto
  obtain env :: step_env where "env_uuid env \<notin> known_ids w1" by (rule fresh_env)
  from gone_run.gone [OF w1 this i surjective_pairing] show ?case by blast
qed

text \<open>
  C12. A session whose client is gone comes to an end: from any state the backend can reach, whatever
  all other connections, requests and tasks do in between, after at most 27 of its reactions to what its
  awaits then yield (the end of its stream, a deadline, the end of a job, the completion of a call) the
  session is over, holds no slot, and is a participant of no room.
\<close>

theorem gone_session_ends:
  assumes "sys_reach lib w" "n < length (sys_sessions w)" "gone_run lib n k w w'" "27 \<le> k"
  shows "ss_phase (sys_sessions w' ! n) = Done \<and> ss_pending (sys_sessions w' ! n) = None
    \<and> (\<forall>rid room. map_of (st_rooms (sys_app w')) rid = Some room \<longrightarrow>
        \<not> contains_key (rm_participants room) (ss_conn_id (sys_sessions w' ! n)))"
proof -
  let ?s = "sys_sessions w' ! n"
  have run: "sys_reach lib w'" "n < length (sys_sessions w')" "phase_rank (ss_phase ?s) = 0"
    using gone_run_rank [OF assms(3,2,1)] sys_rank_bounded [OF assms(1,2)] assms(4) by auto
  then have ok: "ss_phase ?s = Done" "ss_pending ?s = None"
    using sys_reach_slots [OF run(1)] nth_mem [OF run(2)] by (auto simp: phase_rank_0 sys_slots_def)
  have "map_of (rm_participants room) (ss_conn_id ?s) \<noteq> Some p"
    if "map_of (st_rooms (sys_app w')) rid = Some room" for rid room p
  proof
    assume "map_of (rm_participants room) (ss_conn_id ?s) = Some p"
    from sys_member_unique [OF run(1) that this] show False
      using run(2) ok(1) by (metis in_room_def joined_phase.simps phase.distinct)
  qed
  then show ?thesis using ok by auto
qed

end
