(* ===== verification/SystemDelivery.thy ===== *)
theory SystemDelivery
imports SystemLiveness
begin

text \<open>
  Delivery: what a member says in a room reaches every other member that keeps reading its channel, in
  the frames it is sent, however the steps of the system interleave.
\<close>

section \<open>A room in memory has not expired\<close>

definition live_logs :: "app_state \<Rightarrow> bool" where
  "live_logs st \<longleftrightarrow> (\<forall>k room. map_of (st_rooms st) k = Some room \<longrightarrow> RoomExpired \<notin> set (st_channels st ! rm_tx room))"

lemma live_logs_send: "live_logs st \<Longrightarrow> ev \<noteq> RoomExpired \<Longrightarrow> live_logs (send_event tx ev st)"
  by (auto simp: live_logs_def send_event_def channel_send_def nth_list_update simp del: map_of_eq_Some_iff)

lemma live_logs_put:
  "live_logs st \<Longrightarrow> RoomExpired \<notin> set (st_channels st ! rm_tx room) \<Longrightarrow> live_logs (put_room k room st)"
  by (auto simp: live_logs_def put_room_def update_conv' simp del: map_of_eq_Some_iff)

lemma live_logs_attach:
  assumes "live_logs st" "rooms_inv st"
  shows "live_logs (snd (attach c rid cid st))"
proof (cases "map_of (st_rooms st) rid")
  case None
  have "st_channels st ! rm_tx room = (st_channels st @ [[]]) ! rm_tx room" if "map_of (st_rooms st) k = Some room" for k room
    using rooms_invD(1) [OF assms(2) that] by (simp add: nth_append)
  then have "live_logs (st\<lparr>st_rooms := AList.update rid room (st_rooms st), st_channels := st_channels st @ [[]]\<rparr>)"
    if "rm_tx room = length (st_channels st)" for room
    using assms(1) that by (auto simp: live_logs_def update_conv' nth_append simp del: map_of_eq_Some_iff)
  then show ?thesis
    using assms(1) None
    by (auto simp: attach_def room_entry_def room_new_def channel_new_def Let_def intro!: live_logs_put
        split: sum.splits bool.splits)
next
  case (Some room)
  then have "RoomExpired \<notin> set (st_channels st ! rm_tx room)" using assms(1) by (auto simp: live_logs_def simp del: map_of_eq_Some_iff)
  then show ?thesis
    using assms(1) Some
    by (auto simp: attach_def room_entry_def Let_def intro!: live_logs_put split: sum.splits bool.splits)
qed

lemma live_logs_remove: "rooms_inv st \<Longrightarrow> live_logs st \<Longrightarrow> live_logs (remove_rooms ks st)"
proof (induction ks arbitrary: st)
  case (Cons k ks)
  show ?case
  proof (cases "map_of (st_rooms st) k")
    case (Some room)
    let ?st = "send_event (rm_tx room) RoomExpired (st\<lparr>st_rooms := AList.delete k (st_rooms st)\<rparr>)"
    have "RoomExpired \<notin> set (st_channels ?st ! rm_tx r)" if r: "map_of (st_rooms ?st) k' = Some r" for k' r
    proof -
      have "map_of (st_rooms st) k' = Some r" "k' \<noteq> k"
        using r by (auto simp: send_event_def delete_conv' split: if_splits)
      then have "rm_tx r \<noteq> rm_tx room" "RoomExpired \<notin> set (st_channels st ! rm_tx r)"
        using rooms_inv_tx [OF Cons.prems(1) Some] Cons.prems(2) unfolding live_logs_def by blast+
      then show ?thesis by (simp add: send_event_def channel_send_def)
    qed
    then have "live_logs ?st" by (simp add: live_logs_def)
    then show ?thesis using Cons.IH [OF rooms_inv_remove [OF Cons.prems(1) Some]] Some by simp
  qed (use Cons in simp)
qed simp

lemma live_logs_expire:
  assumes "live_logs st" "rooms_inv st"
  shows "live_logs (snd (expire_inactive_rooms c t st))"
proof -
  have db: "live_logs (s\<lparr>st_db := db\<rparr>) = live_logs s" for s db by (simp add: live_logs_def)
  show ?thesis
    using live_logs_remove [OF assms(2,1)] assms(1)
    by (auto simp: expire_inactive_rooms_def remove_rooms_db db split: sum.splits prod.splits)
qed

lemma live_logs_step:
  assumes "state_step st st'" "live_logs st" "rooms_inv st"
  shows "live_logs st'"
  using assms
proof cases
  case (attach c rid cid)
  then show ?thesis using live_logs_attach assms(2,3) by simp
next
  case (join rid cid p)
  show ?thesis
  proof (cases "map_of (st_rooms st) rid")
    case (Some room)
    then have "RoomExpired \<notin> set (st_channels st ! rm_tx room)" using assms(2) by (auto simp: live_logs_def simp del: map_of_eq_Some_iff)
    then show ?thesis
      using join Some assms(2) by (auto simp: join_def Let_def intro!: live_logs_send live_logs_put)
  qed (use join assms(2) in \<open>simp add: join_def\<close>)
next
  case (detach rid cid)
  show ?thesis
  proof (cases "map_of (st_rooms st) rid")
    case (Some room)
    then have "RoomExpired \<notin> set (st_channels st ! rm_tx room)"
        "RoomExpired \<notin> set (st_channels (send_event (rm_tx room) (PeerLeft cid) st) ! rm_tx room)"
      using assms(2) live_logs_send [OF assms(2), of "PeerLeft cid" "rm_tx room"]
      by (auto simp: live_logs_def send_event_def simp del: map_of_eq_Some_iff)
    then show ?thesis
      using detach Some assms(2) live_logs_send [OF assms(2), of "PeerLeft cid"]
      by (auto simp: detach_def Let_def intro!: live_logs_put)
  qed (use detach assms(2) in \<open>simp add: detach_def\<close>)
next
  case (expire c t)
  then show ?thesis using live_logs_expire assms(2,3) by simp
next
  case (relay ev tx)
  then show ?thesis using live_logs_send assms(2) by (cases ev) auto
qed (use assms(2) in \<open>simp_all add: live_logs_def\<close>)

lemma reachable_live: "state_reachable st \<Longrightarrow> live_logs st"
proof -
  assume "state_reachable st"
  then obtain db cfg where db: "db_inv db" "state_step\<^sup>*\<^sup>* (app_state_new db cfg) st" by (auto simp: state_reachable_def)
  from db(2) show ?thesis
  proof (induction rule: rtranclp_induct)
    case base
    show ?case by (simp add: live_logs_def app_state_new_def)
  next
    case (step st1 st2)
    have "rooms_inv st1" by (rule state_steps_inv [OF step.hyps(1) rooms_inv_new [OF db(1)]])
    then show ?case by (rule live_logs_step [OF step.hyps(2) step.IH])
  qed
qed

section \<open>Reading the channel\<close>

lemma prefix_trans_snoc: "prefix xs ys \<Longrightarrow> prefix xs (ys @ zs)"
  by (meson prefix_order.trans prefixI)

lemma sent_send [simp]: "prefix (ss_sent s) (ss_sent (send_frame ok f s))" "prefix (ss_sent s) (ss_sent (send_json ok m s))"
  by (simp_all add: send_json_def send_frame_def)

lemma relay_event_sent: "prefix (ss_sent s) (ss_sent (relay_event env ev s))"
  by (auto simp: relay_event_cases send_json_def send_frame_def)

lemma session_step_sent: "prefix (ss_sent s) (ss_sent (fst (session_step lib env i s st)))"
proof -
  have d: "ss_sent (fst (drop_pending p s st)) = ss_sent s" "ss_sent (fst (reject m s st)) = ss_sent s" for p m s st
    by (simp_all add: drop_pending_session)
  then have a: "ss_sent (fst (auth_result r s st)) = ss_sent s" for r st
    by (auto simp: auth_result_def split: sum.splits bool.splits password_error.splits)
  have e: "prefix (ss_sent s) (ss_sent (relay_event env ev (s\<lparr>ss_rx := rx\<rparr>)))" for ev rx
    using relay_event_sent [of "s\<lparr>ss_rx := rx\<rparr>"] by simp
  show ?thesis
    by (cases "ss_phase s"; cases i;
        simp add: session_step.simps phase_defs d a e relay_recv_def relay_ping_def relay_text_def Let_def
          send_json_def send_frame_def split: input_splits recv_result.splits)
qed

text \<open>A reaction after which the session still relays: nothing is skipped, and what concerns it is sent.\<close>

lemma relaying_stays:
  assumes "ss_phase s = Relaying" "session_step lib env i s st = (s', st')" "ss_phase s' = Relaying" "ss_rx s = (c, pos)"
  shows "ss_rx s' = (c, pos) \<or> pos < length (st_channels st ! c) \<and> ss_rx s' = (c, Suc pos)
    \<and> (for_me (ss_conn_id s) (st_channels st ! c ! pos) \<longrightarrow>
        message_frame (outgoing_of_event (st_channels st ! c ! pos)) \<in> set (ss_sent s'))"
proof (cases "i = RoomEvent")
  case True
  then have s': "s' = relay_recv env s st" using assms(1,2) by (auto simp: session_step.simps on_relaying_def)
  show ?thesis
    using assms(1,3,4) unfolding s'
    by (auto simp: relay_recv_def channel_recv_def relay_event_cases send_json_def send_frame_def message_frame_def
        split: if_splits)
next
  case False
  then show ?thesis
    using assms
    by (cases i) (auto simp: session_step.simps on_relaying_def relay_ping_def relay_text_def Let_def
        split: input_splits)
qed

text \<open>A read of a receiver that is behind but has not lost anything, by a client that takes its frames.\<close>

lemma relaying_reads:
  assumes "ss_phase s = Relaying" "ss_rx s = (c, pos)" "pos < length (st_channels st ! c)"
    and "fst (channel_recv (env_buffered env) (ss_rx s) (st_channels st)) \<noteq> Lagged" "env_send env 0"
    and "st_channels st ! c ! pos \<noteq> RoomExpired"
  shows "ss_phase (fst (session_step lib env RoomEvent s st)) = Relaying"
    "ss_rx (fst (session_step lib env RoomEvent s st)) = (c, Suc pos)"
  using assms
  by (auto simp: session_step.simps on_relaying_def relay_recv_def channel_recv_def relay_event_cases send_json_def
      split: if_splits)

text \<open>
  A run in which the session \<open>n\<close> reads its channel \<open>k\<close> times, not having fallen behind by more than the
  channel keeps, and its client takes the frames. All other steps are arbitrary, further reactions of
  the session included as long as it goes on relaying.
\<close>

inductive reading_run :: "web_lib \<Rightarrow> nat \<Rightarrow> nat \<Rightarrow> system \<Rightarrow> system \<Rightarrow> bool" for lib n where
  here: "reading_run lib n 0 w w"
| other: "reading_run lib n k w w1 \<Longrightarrow> sys_step lib w1 w2
     \<Longrightarrow> sys_sessions w2 ! n = sys_sessions w1 ! n \<or> ss_phase (sys_sessions w2 ! n) = Relaying
     \<Longrightarrow> reading_run lib n k w w2"
| read: "reading_run lib n k w w1 \<Longrightarrow> env_uuid env \<notin> known_ids w1 \<Longrightarrow> env_send env 0
     \<Longrightarrow> fst (channel_recv (env_buffered env) (ss_rx (sys_sessions w1 ! n)) (st_channels (sys_app w1))) \<noteq> Lagged
     \<Longrightarrow> session_step lib env RoomEvent (sys_sessions w1 ! n) (sys_app w1) = (s, st)
     \<Longrightarrow> reading_run lib n (Suc k) w (w1\<lparr>sys_app := st, sys_sessions := (sys_sessions w1)[n := s],
           sys_orphans := sys_orphans w1 + of_bool (abandons RoomEvent (sys_sessions w1 ! n) s)\<rparr>)"

lemma reading_run_exists: "\<exists>w'. reading_run lib n k w w'"
proof (induction k)
  case 0
  show ?case using reading_run.here by blast
next
  case (Suc k)
  then obtain w1 where w1: "reading_run lib n k w w1" by blast
  let ?rx = "ss_rx (sys_sessions w1 ! n)"
  obtain env :: step_env where env: "env_uuid env \<notin> known_ids w1" "env_send env 0"
      "env_buffered env = length (st_channels (sys_app w1) ! fst ?rx)"
    by (rule fresh_env)
  then have "fst (channel_recv (env_buffered env) ?rx (st_channels (sys_app w1))) \<noteq> Lagged"
    by (cases ?rx) (simp add: channel_recv_def)
  from reading_run.read [OF w1 env(1,2) this surjective_pairing] show ?case by blast
qed

text \<open>The event at position \<open>p\<close> of the channel \<open>c\<close> has been sent to the session, or it is at most at \<open>p\<close>.\<close>

definition due :: "string \<Rightarrow> room_event list \<Rightarrow> nat \<Rightarrow> nat \<Rightarrow> nat \<Rightarrow> session \<Rightarrow> bool" where
  "due cid l c p lo s \<longleftrightarrow> message_frame (outgoing_of_event (l ! p)) \<in> set (ss_sent s)
     \<or> ss_phase s = Relaying \<and> ss_conn_id s = cid \<and> (\<exists>pos. ss_rx s = (c, pos) \<and> lo \<le> pos \<and> pos \<le> p)"

lemma due_sent:
  "message_frame (outgoing_of_event (l ! p)) \<in> set (ss_sent s) \<Longrightarrow> due cid l c p lo (fst (session_step lib env i s st))"
  using set_mono_prefix [OF session_step_sent [of s lib env i st]] by (auto simp: due_def)

lemma due_react:
  assumes "due cid l c p lo s" "p < length l" "prefix l (st_channels st ! c)" "for_me cid (l ! p)"
    and "session_step lib env i s st = (s', st')" "ss_phase s' = Relaying"
  shows "due cid l c p lo s'"
proof (cases "message_frame (outgoing_of_event (l ! p)) \<in> set (ss_sent s)")
  case True
  then show ?thesis using due_sent [of l p s cid c lo lib env i st] assms(5) by simp
next
  case False
  then obtain pos where s: "ss_phase s = Relaying" "ss_conn_id s = cid" "ss_rx s = (c, pos)" "lo \<le> pos" "pos \<le> p"
    using assms(1) by (auto simp: due_def)
  have "ss_conn_id s' = cid" using session_step_conn_id [of s lib env i st] s(1,2) assms(5) by simp
  moreover have "st_channels st ! c ! p = l ! p" using assms(2,3) by (auto simp: prefix_def nth_append)
  ultimately show ?thesis
    using relaying_stays [OF s(1) assms(5,6) s(3)] s assms(4,6) by (cases "pos = p") (auto simp: due_def)
qed

lemma due_read:
  assumes "due cid l c p lo s" "p < length l" "prefix l (st_channels st ! c)" "for_me cid (l ! p)"
    and "\<And>q. lo \<le> q \<Longrightarrow> q \<le> p \<Longrightarrow> l ! q \<noteq> RoomExpired"
    and "fst (channel_recv (env_buffered env) (ss_rx s) (st_channels st)) \<noteq> Lagged" "env_send env 0"
  shows "due cid l c p (Suc lo) (fst (session_step lib env RoomEvent s st))"
proof (cases "message_frame (outgoing_of_event (l ! p)) \<in> set (ss_sent s)")
  case True
  then show ?thesis by (rule due_sent)
next
  case False
  then obtain pos where s: "ss_phase s = Relaying" "ss_conn_id s = cid" "ss_rx s = (c, pos)" "lo \<le> pos" "pos \<le> p"
    using assms(1) by (auto simp: due_def)
  have len: "pos < length (st_channels st ! c)" using assms(2,3) s(5) by (auto simp: prefix_def)
  have ev: "st_channels st ! c ! q = l ! q" if "q \<le> p" for q
    using assms(2,3) that by (auto simp: prefix_def nth_append)
  obtain s' st' where step: "session_step lib env RoomEvent s st = (s', st')" by fastforce
  have s': "ss_phase s' = Relaying" "ss_rx s' = (c, Suc pos)"
    using relaying_reads [where lib = lib, OF s(1,3) len assms(6,7)] ev [OF s(5)] assms(5) [OF s(4,5)] step by auto
  have "ss_conn_id s' = cid" using session_step_conn_id [of s lib env RoomEvent st] s(1,2) step by simp
  then show ?thesis
    using relaying_stays [OF s(1) step s'(1) s(3)] ev [OF s(5)] s s' assms(4) step by (cases "pos = p") (auto simp: due_def)
qed

text \<open>
  What holds of the session along a run: a fact \<open>D lo\<close> that survives every reaction after which the
  session relays, and moves on by one at every read, while the channel only grows.
\<close>

lemma reading_run_keeps:
  assumes "reading_run lib n k w w'" "sys_reach lib w" "n < length (sys_sessions w)" "D lo (sys_sessions w ! n)"
    and "c < length (st_channels (sys_app w))" "prefix l (st_channels (sys_app w) ! c)"
    and stays: "\<And>lo env i s st. D lo s \<Longrightarrow> prefix l (st_channels st ! c)
          \<Longrightarrow> ss_phase (fst (session_step lib env i s st)) = Relaying \<Longrightarrow> D lo (fst (session_step lib env i s st))"
    and reads: "\<And>lo' env s st. lo \<le> lo' \<Longrightarrow> D lo' s \<Longrightarrow> prefix l (st_channels st ! c)
          \<Longrightarrow> fst (channel_recv (env_buffered env) (ss_rx s) (st_channels st)) \<noteq> Lagged \<Longrightarrow> env_send env 0
          \<Longrightarrow> D (Suc lo') (fst (session_step lib env RoomEvent s st))"
  shows "sys_reach lib w' \<and> n < length (sys_sessions w') \<and> c < length (st_channels (sys_app w'))
    \<and> prefix l (st_channels (sys_app w') ! c) \<and> D (lo + k) (sys_sessions w' ! n)"
  using assms(1-6)
proof (induction rule: reading_run.induct)
  case (other k w w1 w2)
  then have IH: "sys_reach lib w1" "n < length (sys_sessions w1)" "c < length (st_channels (sys_app w1))"
      "prefix l (st_channels (sys_app w1) ! c)" "D (lo + k) (sys_sessions w1 ! n)"
    by auto
  have "D (lo + k) (sys_sessions w2 ! n)"
    using sys_step_other(2) [OF other.hyps(2) IH(2)] other.hyps(3) IH(5) stays [OF IH(5,4)] by auto
  then show ?case
    using IH sys_reach.step [OF IH(1) other.hyps(2)] sys_step_other(1) [OF other.hyps(2) IH(2)]
      extends_nth [OF state_steps_extend [OF sys_step_state [OF other.hyps(2)]] IH(3)]
    by (auto intro: prefix_order.trans)
next
  case (read k w w1 env s st)
  then have IH: "sys_reach lib w1" "n < length (sys_sessions w1)" "c < length (st_channels (sys_app w1))"
      "prefix l (st_channels (sys_app w1) ! c)" "D (lo + k) (sys_sessions w1 ! n)"
    by auto
  note step = sys_step.session [OF IH(2) read.hyps(2,5)]
  have "D (Suc (lo + k)) s"
    using reads [OF _ IH(5,4) read.hyps(4,3)] read.hyps(5) by simp
  then show ?case
    using IH sys_reach.step [OF IH(1) step] extends_nth [OF state_steps_extend [OF sys_step_state [OF step]] IH(3)]
    by (auto intro: prefix_order.trans)
qed simp

lemma reading_run_due:
  assumes "reading_run lib n k w w'" "sys_reach lib w" "n < length (sys_sessions w)" "due cid l c p lo (sys_sessions w ! n)"
    and "c < length (st_channels (sys_app w))" "prefix l (st_channels (sys_app w) ! c)" "p < length l" "for_me cid (l ! p)"
    and "\<And>q. lo \<le> q \<Longrightarrow> q \<le> p \<Longrightarrow> l ! q \<noteq> RoomExpired"
  shows "due cid l c p (lo + k) (sys_sessions w' ! n)"
proof -
  have "due cid l c p lo' (fst (session_step lib env i s st))"
    if "due cid l c p lo' s" "prefix l (st_channels st ! c)" "ss_phase (fst (session_step lib env i s st)) = Relaying"
    for lo' env i s st
    using due_react [OF that(1) assms(7) that(2) assms(8) surjective_pairing that(3)] .
  moreover have "due cid l c p (Suc lo') (fst (session_step lib env RoomEvent s st))"
    if "lo \<le> lo'" "due cid l c p lo' s" "prefix l (st_channels st ! c)"
      "fst (channel_recv (env_buffered env) (ss_rx s) (st_channels st)) \<noteq> Lagged" "env_send env 0" for lo' env s st
    by (rule due_read [OF that(2) assms(7) that(3) assms(8) _ that(4,5)]) (use assms(9) that(1) in auto)
  ultimately show ?thesis
    using reading_run_keeps [where D = "due cid l c p", OF assms(1-6)] by blast
qed

section \<open>No receiver is ahead of its channel\<close>

definition rx_ok :: "room_event channels \<Rightarrow> session \<Rightarrow> bool" where
  "rx_ok chs s \<longleftrightarrow> (joined_phase (ss_phase s) \<longrightarrow>
     fst (ss_rx s) < length chs \<and> snd (ss_rx s) \<le> length (chs ! fst (ss_rx s)))"

lemma rx_ok_extends: "rx_ok chs s \<Longrightarrow> chan.extends chs chs' \<Longrightarrow> rx_ok chs' s"
  unfolding rx_ok_def using extends_nth [of chs chs' "fst (ss_rx s)"] prefix_length_le by fastforce

lemma channel_recv_pos: "pos \<le> length (chs ! c) \<Longrightarrow> snd (snd (channel_recv b (c, pos) chs)) \<le> length (chs ! c)"
  by (simp add: channel_recv_def)

lemma session_step_recv:
  assumes "joined_phase (ss_phase s)"
  shows "ss_rx (fst (session_step lib env i s st)) \<in> {ss_rx s, snd (channel_recv (env_buffered env) (ss_rx s) (st_channels st))}"
proof -
  have "ss_rx (relay_recv env s st) \<in> {ss_rx s, snd (channel_recv (env_buffered env) (ss_rx s) (st_channels st))}"
    by (auto simp: relay_recv_def relay_rx split: prod.splits recv_result.splits)
  then show ?thesis
    using assms
    by (cases "ss_phase s"; cases i; simp add: session_step.simps on_announcing_def on_relaying_def send_json_def relay_rx
        split: input_splits)
qed

lemma joined_from:
  assumes "joined_phase (ss_phase (fst (session_step lib env i s st)))"
  obtains "joined_phase (ss_phase s)" | key pq_key sig where "ss_phase s = Joining key pq_key sig"
proof -
  have "joined_phase (ss_phase s) \<or> (\<exists>key pq_key sig. ss_phase s = Joining key pq_key sig)"
  proof (cases "attached_phase (ss_phase s)")
    case False
    then show ?thesis
      using unattached_step_phase [OF False, of lib env i st] joined_has_id [OF assms] by (simp add: has_id_def)
  next
    case True
    consider "ss_phase s = Attaching" | "ss_phase s = Detaching" | "ss_phase s \<noteq> Attaching" "ss_phase s \<noteq> Detaching" by blast
    then show ?thesis
    proof cases
      case 3
      then show ?thesis using quiet_phase [OF True 3(1) _ 3(2), of lib env i st] assms by (auto simp: quiet_move_def)
    qed (use assms in \<open>cases i; simp add: session_step.simps on_attaching_def on_detaching_def Let_def split: input_splits\<close>)+
  qed
  then show thesis using that by blast
qed

lemma rx_ok_step:
  assumes "rx_ok (st_channels st) s" "rooms_inv st" "session_step lib env i s st = (s', st')"
  shows "rx_ok (st_channels st) s'"
proof (cases "joined_phase (ss_phase s')")
  case True
  then have "joined_phase (ss_phase (fst (session_step lib env i s st)))" using assms(3) by simp
  then show ?thesis
  proof (cases rule: joined_from)
    case 1
    obtain c pos where rx: "ss_rx s = (c, pos)" by fastforce
    show ?thesis
      using assms(1,3) 1 rx session_step_recv [OF 1, of lib env i st]
        channel_recv_pos [of pos "st_channels st" c "env_buffered env"]
        channel_recv_fst [of "env_buffered env" "ss_rx s" "st_channels st", OF surjective_pairing]
      by (auto simp: rx_ok_def)
  next
    case (2 key pq_key sig)
    obtain r st1 where j: "join (ss_room_id s) (ss_conn_id s)
        \<lparr>pt_public_key = key, pt_pq_public_key = pq_key, pt_sig = sig\<rparr> max_participants st = (r, st1)" by fastforce
    have "fst rx < length (st_channels st) \<and> snd rx = length (st_channels st ! fst rx)" if "r = Joined rx peers" for rx peers
      using j that rooms_invD(1) [OF assms(2)]
      by (auto simp: join_def Let_def channel_subscribe_def split: option.splits if_splits)
    then show ?thesis
      using assms(3) 2 j by (cases i; cases r) (auto simp: session_step.simps on_joining_def rx_ok_def)
  qed
qed (simp add: rx_ok_def)

definition sys_rx_ok :: "system \<Rightarrow> bool" where
  "sys_rx_ok w \<longleftrightarrow> (\<forall>s \<in> set (sys_sessions w). rx_ok (st_channels (sys_app w)) s)"

lemma sys_reach_rx: "sys_reach lib w \<Longrightarrow> sys_rx_ok w"
proof (induction rule: sys_reach.induct)
  case (start db cfg)
  show ?case by (simp add: sys_rx_ok_def)
next
  case (step w w')
  have ext: "chan.extends (st_channels (sys_app w)) (st_channels (sys_app w'))"
    by (rule state_steps_extend [OF sys_step_state [OF step.hyps(2)]])
  have "rx_ok (st_channels (sys_app w)) s" if "s \<in> set (sys_sessions w')" for s
    using step.hyps(2)
  proof cases
    case (connect env peer headers rid s1 st)
    have "ss_phase s1 = Opening" using ws_handler_session [OF connect(2)] by (auto simp: session_new_def)
    then show ?thesis using that connect(1) step.IH by (auto simp: sys_rx_ok_def rx_ok_def)
  next
    case (session n env i s1 st)
    have "rx_ok (st_channels (sys_app w)) s1"
      using rx_ok_step [OF _ sys_reach_rooms_inv [OF step.hyps(1)] session(4)] step.IH session(2) by (simp add: sys_rx_ok_def)
    then show ?thesis
      using that session(1) step.IH by (auto simp: sys_rx_ok_def dest!: set_update_subset_insert [THEN subsetD])
  qed (use that step.IH in \<open>auto simp: sys_rx_ok_def\<close>)
  then show ?case using ext rx_ok_extends by (auto simp: sys_rx_ok_def)
qed

section \<open>Delivery\<close>

lemma sys_live: "sys_reach lib w \<Longrightarrow> live_logs (sys_app w)"
  by (rule reachable_live [OF sys_reach_state])

text \<open>A well-formed message that passes the limiter puts one event on the session's channel.\<close>

lemma relayed_message:
  assumes "ss_phase s = Relaying" "fst (rate_limiter_check (env_now env) (ss_limiter s))"
    and "Option.bind (web_json lib content) decode_incoming = Some (InMessage (Some payload) epoch counter)"
    and "session_step lib env (Recv (NextMsg (MText content))) s st = (s', st')"
  shows "st_channels st' = channel_send (ss_tx s) (Chat (ss_conn_id s) payload epoch counter) (st_channels st)"
  using assms
  by (auto simp: session_step.simps on_relaying_def relay_text_def relay_incoming_def send_event_def Let_def
      split: prod.splits if_splits)

text \<open>
  C6. What a member says is delivered: when, in any state the backend can reach, a relaying session of a
  room in memory gets a text frame with a message and has a token for it, then every other relaying
  session of the room is sent this message, from the sender's id, by the time it has read its channel
  once more than it had unread events, without having lagged and with a client that takes its frames;
  whatever all sessions, requests and tasks do in between.
\<close>

theorem message_delivered:
  assumes reach: "sys_reach lib w" and mn: "m < length (sys_sessions w)" "n < length (sys_sessions w)" "m \<noteq> n"
    and rel: "ss_phase (sys_sessions w ! m) = Relaying" "ss_phase (sys_sessions w ! n) = Relaying"
    and room: "ss_room_id (sys_sessions w ! m) = rid" "ss_room_id (sys_sessions w ! n) = rid"
      "map_of (st_rooms (sys_app w)) rid = Some room"
    and said: "env_uuid env \<notin> known_ids w" "fst (rate_limiter_check (env_now env) (ss_limiter (sys_sessions w ! m)))"
      "Option.bind (web_json lib content) decode_incoming = Some (InMessage (Some payload) epoch counter)"
      "session_step lib env (Recv (NextMsg (MText content))) (sys_sessions w ! m) (sys_app w) = (s, st)"
    and run: "reading_run lib n k (w\<lparr>sys_app := st, sys_sessions := (sys_sessions w)[m := s]\<rparr>) w'"
      "length (st_channels (sys_app w) ! rm_tx room) - snd (ss_rx (sys_sessions w ! n)) < k"
  shows "FText (outgoing_json (OutMessage (ss_conn_id (sys_sessions w ! m)) payload epoch counter))
    \<in> set (ss_sent (sys_sessions w' ! n))"
proof -
  let ?m = "sys_sessions w ! m" and ?n = "sys_sessions w ! n" and ?chs = "st_channels (sys_app w)"
  let ?ev = "Chat (ss_conn_id ?m) payload epoch counter" and ?c = "rm_tx room"
  let ?log = "?chs ! ?c" and ?w1 = "w\<lparr>sys_app := st, sys_sessions := (sys_sessions w)[m := s]\<rparr>"
  have tx: "tx_ok (room_tx (sys_app w)) (length ?chs) ?m" "tx_ok (room_tx (sys_app w)) (length ?chs) ?n"
    using sys_reach_tx [OF reach] mn(1,2) by (simp_all add: sys_tx_inv_def tx_inv_def)
  have rtx: "room_tx (sys_app w) rid = Some ?c" using room(3) by (simp add: room_tx_def)
  have "has_id (ss_phase ?m)" "has_id (ss_phase ?n)" using rel by (simp_all add: has_id_def)
  then have ch: "ss_tx ?m = ?c" "ss_tx ?n = ?c"
    using tx_okD [OF tx(1) _ rtx] tx_okD [OF tx(2) _ rtx] room(1,2) by simp_all
  have inv: "rooms_inv (sys_app w)" by (rule sys_reach_rooms_inv [OF reach])
  have len: "?c < length ?chs" by (rule rooms_invD(1) [OF inv room(3)])
  have "rx_ok ?chs ?n" using sys_reach_rx [OF reach] mn(2) by (simp add: sys_rx_ok_def)
  then obtain pos where rx: "ss_rx ?n = (?c, pos)" "pos \<le> length ?log"
    using tx(2) ch(2) rel(2) by (cases "ss_rx ?n") (auto simp: tx_ok_def rx_ok_def has_id_def)
  have live: "RoomExpired \<notin> set ?log" using sys_live [OF reach] room(3) unfolding live_logs_def by blast
  have chs: "st_channels st = channel_send ?c ?ev ?chs"
    using relayed_message [OF rel(1) said(2-4)] ch(1) by simp
  have reach1: "sys_reach lib ?w1"
    using sys_reach.step [OF reach sys_step.session [OF mn(1) said(1,4)]] rel(1) by (simp add: abandons_def verifying_def)
  have ids: "ss_conn_id ?m \<noteq> ss_conn_id ?n"
    using sys_ids_distinct [OF reach mn(1,2)] mn(3) rel(2) by (auto simp: has_id_def)
  have due: "due (ss_conn_id ?n) (?log @ [?ev]) ?c (length ?log) pos (sys_sessions ?w1 ! n)"
    using rx rel(2) mn(3) by (simp add: due_def)
  have "due (ss_conn_id ?n) (?log @ [?ev]) ?c (length ?log) (pos + k) (sys_sessions w' ! n)"
  proof (rule reading_run_due [OF run(1) reach1 _ due])
    show "(?log @ [?ev]) ! q \<noteq> RoomExpired" if "q \<le> length ?log" for q
      using live that by (cases "q < length ?log") (auto simp: nth_append in_set_conv_nth)
  qed (use mn(2) len ids chs in \<open>simp_all add: for_me_def\<close>)
  then show ?thesis using run(2) rx by (auto simp: due_def message_frame_def nth_append)
qed

end
