(* ===== verification/SystemEvents.thy ===== *)
theory SystemEvents
imports SystemMembers
begin

text \<open>
  The system by its events: what can happen to the backend as a datatype, one executable function that
  gives the state after an event, and its iteration over a list of events. A list of events is a history;
  properties about what happened before, or did not happen in between, are stated over it. The events are
  exactly the steps of the transition relation. The theory ends with what the history of a member of a
  protected room must contain.
\<close>

section \<open>Events\<close>

text \<open>
  A connection; a reaction of the session at an index; a request to create a room, the end of the hash
  of one that waits at an index, and its client going away; the end of an abandoned job; the ticks of the
  two tasks. Each carries what the environment supplies.
\<close>

datatype sys_event =
    Connects step_env ip_addr header_map string
  | Reacts nat step_env ws_input
  | Creates string ip_addr header_map string instant db_call
  | HashDone nat string string bool db_call
  | HashDropped nat
  | OrphanDone
  | CleanupTick i64 db_call
  | MaintenanceTick instant

definition remove_at :: "nat \<Rightarrow> 'a list \<Rightarrow> 'a list" where
  "remove_at k xs = take k xs @ drop (Suc k) xs"

text \<open>The state after an event; \<open>None\<close> when it cannot happen in this state.\<close>

fun sys_do :: "web_lib \<Rightarrow> sys_event \<Rightarrow> system \<Rightarrow> system option" where
  "sys_do lib (Connects env peer headers rid) w =
     (case ws_handler lib env peer headers rid (sys_app w) of
        (Inr s, st) \<Rightarrow> Some (w\<lparr>sys_app := st, sys_sessions := sys_sessions w @ [s]\<rparr>)
      | (Inl _, st) \<Rightarrow> Some (w\<lparr>sys_app := st\<rparr>))"
| "sys_do lib (Reacts n env i) w =
     (if n < length (sys_sessions w) \<and> env_uuid env \<notin> known_ids w
      then (case session_step lib env i (sys_sessions w ! n) (sys_app w) of
              (s, st) \<Rightarrow> Some (w\<lparr>sys_app := st, sys_sessions := (sys_sessions w)[n := s],
                 sys_orphans := sys_orphans w + of_bool (abandons i (sys_sessions w ! n) s)\<rparr>))
      else None)"
| "sys_do lib (Creates rid peer headers content now c) w =
     (if rid \<notin> known_rooms w
      then (case create_start lib peer headers content now rid c (sys_app w) of
              (Inl _, st) \<Rightarrow> Some (w\<lparr>sys_app := st\<rparr>)
            | (Inr pw, st) \<Rightarrow> Some (w\<lparr>sys_app := st, sys_hashing := pw # sys_hashing w\<rparr>))
      else None)"
| "sys_do lib (HashDone k rid salt panics c) w =
     (if rid \<notin> known_rooms w \<and> k < length (sys_hashing w)
      then (case create_finish lib salt panics (sys_hashing w ! k) rid c (sys_app w) of
              (_, st) \<Rightarrow> Some (w\<lparr>sys_app := st, sys_hashing := remove_at k (sys_hashing w)\<rparr>))
      else None)"
| "sys_do lib (HashDropped k) w =
     (if k < length (sys_hashing w)
      then Some (w\<lparr>sys_hashing := remove_at k (sys_hashing w), sys_orphans := Suc (sys_orphans w)\<rparr>)
      else None)"
| "sys_do lib OrphanDone w =
     (case sys_orphans w of
        0 \<Rightarrow> None
      | Suc n \<Rightarrow> Some (w\<lparr>sys_app := (sys_app w)\<lparr>st_passwords := compute_end (st_passwords (sys_app w))\<rparr>, sys_orphans := n\<rparr>))"
| "sys_do lib (CleanupTick t c) w = Some (w\<lparr>sys_app := snd (cleanup_tick t c (sys_app w))\<rparr>)"
| "sys_do lib (MaintenanceTick now) w = Some (w\<lparr>sys_app := maintenance_tick now (sys_app w)\<rparr>)"

fun sys_exec :: "web_lib \<Rightarrow> sys_event list \<Rightarrow> system \<Rightarrow> system option" where
  "sys_exec lib [] w = Some w"
| "sys_exec lib (e # es) w = (case sys_do lib e w of None \<Rightarrow> None | Some w' \<Rightarrow> sys_exec lib es w')"

lemma sys_exec_append [simp]:
  "sys_exec lib (es @ es') w = (case sys_exec lib es w of None \<Rightarrow> None | Some w' \<Rightarrow> sys_exec lib es' w')"
  by (induction es arbitrary: w) (simp_all split: option.splits)

lemma remove_at_split:
  "k < length xs \<Longrightarrow> xs = take k xs @ xs ! k # drop (Suc k) xs"
  by (rule id_take_nth_drop)

text \<open>The events are the steps.\<close>

lemma sys_do_step:
  assumes "sys_do lib e w = Some w'"
  shows "sys_step lib w w'"
proof (cases e)
  case (HashDone k rid salt panics c)
  then show ?thesis
    using assms sys_step.hashed [of rid w "take k (sys_hashing w)" "sys_hashing w ! k" "drop (Suc k) (sys_hashing w)"]
    by (auto simp: remove_at_def id_take_nth_drop [symmetric] split: if_splits prod.splits)
next
  case (HashDropped k)
  then show ?thesis
    using assms sys_step.cancel [of w "take k (sys_hashing w)" "sys_hashing w ! k" "drop (Suc k) (sys_hashing w)"]
    by (auto simp: remove_at_def id_take_nth_drop [symmetric] split: if_splits)
qed (use assms in \<open>auto intro: sys_step.connect sys_step.refuse sys_step.session sys_step.create sys_step.hash
    sys_step.orphan sys_step.cleanup [unfolded cleanup_tick_state] sys_step.maintain split: prod.splits sum.splits if_splits nat.splits\<close>)

lemma sys_step_do:
  assumes "sys_step lib w w'"
  shows "\<exists>e. sys_do lib e w = Some w'"
  using assms
proof cases
  case (connect env peer headers rid s st)
  then show ?thesis by (intro exI [of _ "Connects env peer headers rid"]) simp
next
  case (refuse env peer headers rid r st)
  then show ?thesis by (intro exI [of _ "Connects env peer headers rid"]) simp
next
  case (session n env i s st)
  then show ?thesis by (intro exI [of _ "Reacts n env i"]) simp
next
  case (create rid peer headers body now c r st)
  then show ?thesis by (intro exI [of _ "Creates rid peer headers body now c"]) simp
next
  case (hash rid peer headers body now c pw st)
  then show ?thesis by (intro exI [of _ "Creates rid peer headers body now c"]) simp
next
  case (hashed rid ps pw qs salt panics c r st)
  then show ?thesis by (intro exI [of _ "HashDone (length ps) rid salt panics c"]) (simp add: remove_at_def)
next
  case (cancel ps pw qs)
  then show ?thesis by (intro exI [of _ "HashDropped (length ps)"]) (simp add: remove_at_def)
next
  case (orphan n)
  then show ?thesis by (intro exI [of _ OrphanDone]) simp
next
  case (cleanup t c)
  then show ?thesis by (intro exI [of _ "CleanupTick t c"]) simp
next
  case (maintain now)
  then show ?thesis by (intro exI [of _ "MaintenanceTick now"]) simp
qed

lemma sys_step_iff: "sys_step lib w w' \<longleftrightarrow> (\<exists>e. sys_do lib e w = Some w')"
  using sys_do_step sys_step_do by blast

lemma sys_exec_steps: "sys_exec lib es w = Some w' \<Longrightarrow> (sys_step lib)\<^sup>*\<^sup>* w w'"
  by (induction es arbitrary: w)
    (auto split: option.splits dest: sys_do_step intro: converse_rtranclp_into_rtranclp)

lemma sys_steps_reach: "(sys_step lib)\<^sup>*\<^sup>* w w' \<Longrightarrow> sys_reach lib w \<Longrightarrow> sys_reach lib w'"
  by (induction rule: rtranclp_induct) (auto intro: sys_reach.step)

lemma sys_exec_reach: "sys_exec lib es w = Some w' \<Longrightarrow> sys_reach lib w \<Longrightarrow> sys_reach lib w'"
  using sys_exec_steps sys_steps_reach by blast

lemma sys_reach_exec:
  assumes "sys_reach lib w"
  shows "\<exists>db cfg es. db_inv db \<and> sys_exec lib es (sys_new db cfg) = Some w"
  using assms
proof (induction rule: sys_reach.induct)
  case (start db cfg)
  then show ?case by (intro exI [of _ db] exI [of _ cfg] exI [of _ "[]"]) simp
next
  case (step w w')
  then obtain db cfg es e where "db_inv db" "sys_exec lib es (sys_new db cfg) = Some w" "sys_do lib e w = Some w'"
    using sys_step_do by blast
  then show ?case by (intro exI [of _ db] exI [of _ cfg] exI [of _ "es @ [e]"]) simp
qed

text \<open>An invariant that every event of a kind keeps holds along every history of such events.\<close>

lemma sys_exec_invariant:
  assumes "sys_exec lib es w = Some w'" "sys_reach lib w" "Q w" "\<forall>e \<in> set es. P e"
    and "\<And>e w w'. sys_do lib e w = Some w' \<Longrightarrow> sys_reach lib w \<Longrightarrow> Q w \<Longrightarrow> P e \<Longrightarrow> Q w'"
  shows "Q w'"
  using assms(1-4)
proof (induction es arbitrary: w)
  case (Cons e es)
  then obtain w1 where w1: "sys_do lib e w = Some w1" "sys_exec lib es w1 = Some w'" by (auto split: option.splits)
  have "sys_reach lib w1" by (rule sys_reach.step [OF Cons.prems(2) sys_do_step [OF w1(1)]])
  moreover have "Q w1" by (rule assms(5) [OF w1(1)]) (use Cons.prems in simp_all)
  ultimately show ?case using Cons.IH [OF w1(2)] Cons.prems(4) by simp
qed simp

section \<open>The history of a session\<close>

text \<open>An event happened in a history, in a state of it.\<close>

definition happened :: "web_lib \<Rightarrow> sys_event list \<Rightarrow> system \<Rightarrow> sys_event \<Rightarrow> app_state \<Rightarrow> bool" where
  "happened lib es w0 e st \<longleftrightarrow> (\<exists>es1 es2 w. es = es1 @ e # es2 \<and> sys_exec lib es1 w0 = Some w \<and> sys_app w = st)"

lemma happened_snoc: "happened lib es w0 e st \<Longrightarrow> happened lib (es @ [e']) w0 e st"
  unfolding happened_def by (metis append.assoc append_Cons)

lemma happened_last: "sys_exec lib es w0 = Some w \<Longrightarrow> happened lib (es @ [e]) w0 e (sys_app w)"
  unfolding happened_def by blast

definition has_history :: "web_lib \<Rightarrow> sys_event list \<Rightarrow> system \<Rightarrow> nat \<Rightarrow> session \<Rightarrow> bool" where
  "has_history lib es w0 n s \<longleftrightarrow>
     (\<exists>xs g. s = session_run lib xs (session_new (ss_room_id s) (ss_room s) g)
        \<and> (\<forall>(env, i, st) \<in> set xs. happened lib es w0 (Reacts n env i) st))"

lemma has_history_snoc: "has_history lib es w0 n s \<Longrightarrow> has_history lib (es @ [e]) w0 n s"
  unfolding has_history_def using happened_snoc by fast

lemma has_history_new: "has_history lib es w0 n (session_new rid stored g)"
  unfolding has_history_def
  by (rule exI [of _ "[]"], rule exI [of _ g]) (simp add: session_new_def)

lemma has_history_step:
  assumes "has_history lib es w0 n s" "sys_exec lib es w0 = Some w"
  shows "has_history lib (es @ [Reacts n env i]) w0 n (fst (session_step lib env i s (sys_app w)))"
proof -
  obtain xs g where x: "s = session_run lib xs (session_new (ss_room_id s) (ss_room s) g)"
      "\<forall>(env, i, st) \<in> set xs. happened lib es w0 (Reacts n env i) st"
    using assms(1) unfolding has_history_def by blast
  have "fst (session_step lib env i s (sys_app w))
      = session_run lib (xs @ [(env, i, sys_app w)]) (session_new (ss_room_id s) (ss_room s) g)"
    using x(1) by simp
  moreover have "\<forall>(env', i', st) \<in> set (xs @ [(env, i, sys_app w)]).
      happened lib (es @ [Reacts n env i]) w0 (Reacts n env' i') st"
    using x(2) by (auto dest: happened_snoc intro: happened_last [OF assms(2)])
  ultimately show ?thesis unfolding has_history_def session_step_static by blast
qed

lemma sys_do_sessions:
  assumes "sys_do lib e w = Some w'" "n < length (sys_sessions w')"
  obtains "n < length (sys_sessions w)" "sys_sessions w' ! n = sys_sessions w ! n"
  | env i where "n < length (sys_sessions w)" "e = Reacts n env i"
      "sys_sessions w' ! n = fst (session_step lib env i (sys_sessions w ! n) (sys_app w))"
  | rid stored g where "sys_sessions w' ! n = session_new rid stored g"
proof (cases e)
  case (Connects env peer headers rid)
  then show ?thesis
    using assms that(1,3) ws_handler_session [of lib env peer headers rid "sys_app w"]
    by (fastforce simp: nth_append less_Suc_eq split: sum.splits prod.splits if_splits)
next
  case (Reacts m env i)
  then show ?thesis
    using assms that(1,2) by (cases "n = m") (auto split: prod.splits if_splits)
qed (use assms that(1) in \<open>auto split: prod.splits sum.splits if_splits nat.splits\<close>)

text \<open>Every session is the result of its own events.\<close>

lemma session_history:
  assumes "sys_exec lib es (sys_new db cfg) = Some w" "n < length (sys_sessions w)"
  shows "has_history lib es (sys_new db cfg) n (sys_sessions w ! n)"
  using assms
proof (induction es arbitrary: w n rule: rev_induct)
  case (snoc e es)
  then obtain w1 where w1: "sys_exec lib es (sys_new db cfg) = Some w1" "sys_do lib e w1 = Some w"
    by (auto split: option.splits)
  from w1(2) snoc.prems(2) show ?case
  proof (cases rule: sys_do_sessions)
    case 1
    then show ?thesis using snoc.IH [OF w1(1)] by (simp add: has_history_snoc)
  next
    case (2 env i)
    then show ?thesis using has_history_step [OF snoc.IH [OF w1(1) 2(1)] w1(1)] by simp
  next
    case (3 rid stored g)
    then show ?thesis by (simp add: has_history_new)
  qed
qed auto

section \<open>Members of protected rooms\<close>

text \<open>
  C1. Members of a protected room know its password: take any history of the backend, from its start, and
  any participant of a room whose stored hash is \<open>hash\<close>. It is a session of that room, and in the history
  that very session received an authentication frame of at most 4096 bytes, when the room's budget had a
  token, with a password that the policy admits and that very hash accepts. What other sessions present
  does not count.
\<close>

theorem members_authenticated:
  assumes "db_inv db" "sys_exec lib es (sys_new db cfg) = Some w"
    and "map_of (st_rooms (sys_app w)) rid = Some room" "contains_key (rm_participants room) cid"
    and "room_password c rid (st_db (sys_app w)) = Inr (Some (Some hash))"
  shows "\<exists>n < length (sys_sessions w).
      ss_conn_id (sys_sessions w ! n) = cid \<and> ss_room_id (sys_sessions w ! n) = rid
      \<and> (\<exists>before env msg later w0 password.
           es = before @ Reacts n env (Recv (NextMsg (MText msg))) # later
           \<and> sys_exec lib before (sys_new db cfg) = Some w0
           \<and> length msg \<le> 4096
           \<and> Option.bind (web_json lib msg) decode_authentication = Some password
           \<and> fst (check_at (RoomBudget rid) (env_now env) (st_admission (sys_app w0))) = Inr ()
           \<and> acceptable (web_crypto lib) password
           \<and> verify_job (web_crypto lib) (lib_nfc (web_crypto lib) password) hash = Inr True)"
proof -
  have reach: "sys_reach lib w" by (rule sys_exec_reach [OF assms(2) sys_reach.start [OF assms(1)]])
  obtain p where "map_of (rm_participants room) cid = Some p" using assms(4) by auto
  from sys_member_unique [OF reach assms(3) this] obtain n where n: "n < length (sys_sessions w)"
      "ss_conn_id (sys_sessions w ! n) = cid" "ss_room_id (sys_sessions w ! n) = rid"
      "in_room (ss_phase (sys_sessions w ! n))" by metis
  let ?s = "sys_sessions w ! n"
  have att: "attached_phase (ss_phase ?s)" "has_id (ss_phase ?s)"
    using in_room_has_id [OF n(4)] by (simp_all add: has_id_def)
  have "stored_hash (sys_app w) rid = Some (Some hash)"
    using store.lookup_password [OF assms(5)] by (simp add: stored_hash_def)
  then have room: "ss_room ?s = Some (Some hash)"
    using sys_session_ok [OF reach nth_mem [OF n(1)]] n(3) att(2)
    by (cases "ss_room ?s") (auto simp: session_ok_def has_id_def)
  obtain xs g where x: "?s = session_run lib xs (session_new rid (Some (Some hash)) g)"
      "\<forall>(env, i, st) \<in> set xs. happened lib es (sys_new db cfg) (Reacts n env i) st"
    using session_history [OF assms(2) n(1)] n(3) room unfolding has_history_def by auto
  then have "authenticated lib rid hash xs"
    using auth_inv_run [of lib rid hash xs g] att(1) by (simp add: auth_inv_def phase_ok_attached)
  then obtain env i st password msg where p: "(env, i, st) \<in> set xs" "i = Recv (NextMsg (MText msg))"
      "length msg \<le> 4096" "Option.bind (web_json lib msg) decode_authentication = Some password"
      "fst (check_at (RoomBudget rid) (env_now env) (st_admission st)) = Inr ()"
      "acceptable (web_crypto lib) password"
      "verify_job (web_crypto lib) (lib_nfc (web_crypto lib) password) hash = Inr True"
    by (auto simp: authenticated_def presents_def)
  then have "happened lib es (sys_new db cfg) (Reacts n env i) st" using x(2) by auto
  then show ?thesis using n p unfolding happened_def by blast
qed

section \<open>Abandoned computations\<close>

text \<open>
  The events that end the wait for a computation and not the computation: a frame, a disconnect or the
  deadline while a session waits for its verification, and the end of a request that waits for its hash.
\<close>

definition stops_waiting :: "sys_event \<Rightarrow> system \<Rightarrow> bool" where
  "stops_waiting e w \<longleftrightarrow>
     (case e of
        Reacts n env i \<Rightarrow> verifying (sys_sessions w ! n) \<and> (i = Deadline \<or> (\<exists>x. i = Recv x))
      | HashDropped k \<Rightarrow> True
      | _ \<Rightarrow> False)"

lemma stops_waiting_step:
  assumes "sys_do lib e w = Some w1" "stops_waiting e w"
  shows "st_passwords (sys_app w1) = st_passwords (sys_app w)" "sys_orphans w1 = Suc (sys_orphans w)"
proof -
  have "st_passwords (sys_app w1) = st_passwords (sys_app w) \<and> sys_orphans w1 = Suc (sys_orphans w)"
  proof (cases e)
    case (Reacts n env i)
    then obtain pw where job: "ss_phase (sys_sessions w ! n) = VerifyJob pw"
      using assms(2) by (auto simp: stops_waiting_def verifying_def split: phase.splits)
    obtain s st where r: "reject AuthFailed (sys_sessions w ! n) (sys_app w) = (s, st)" by fastforce
    have "session_step lib env i (sys_sessions w ! n) (sys_app w) = (s, st)"
      using assms(2) job Reacts r by (auto simp: stops_waiting_def session_step.simps on_verify_job_def)
    moreover have "\<not> verifying s" "st_passwords st = st_passwords (sys_app w)"
      using verifying_simps(4) [of AuthFailed "sys_sessions w ! n" "sys_app w"]
        auth_passwords(2) [of AuthFailed "sys_sessions w ! n" "sys_app w"] r by simp_all
    ultimately show ?thesis
      using assms Reacts by (auto simp: stops_waiting_def abandons_def split: if_splits)
  qed (use assms in \<open>auto simp: stops_waiting_def split: if_splits\<close>)
  then show "st_passwords (sys_app w1) = st_passwords (sys_app w)" "sys_orphans w1 = Suc (sys_orphans w)" by simp_all
qed

lemma orphans_stay:
  assumes "sys_exec lib es w = Some w'" "sys_reach lib w" "OrphanDone \<notin> set es"
  shows "sys_orphans w \<le> sys_orphans w'"
proof (rule sys_exec_invariant [where Q = "\<lambda>w'. sys_orphans w \<le> sys_orphans w'" and P = "\<lambda>e. e \<noteq> OrphanDone", OF assms(1,2)])
  show "sys_orphans w \<le> sys_orphans w2"
    if "sys_do lib e w1 = Some w2" "sys_orphans w \<le> sys_orphans w1" "e \<noteq> OrphanDone" for e w1 w2
    using that by (cases e) (auto split: prod.splits sum.splits if_splits)
qed (use assms(3) in auto)

lemma permits_of_jobs: "sys_reach lib w \<Longrightarrow> ps_permits (st_passwords (sys_app w)) + sys_orphans w \<le> 2"
  using password_jobs_bounded [OF sys_reach_jobs [of lib w]] by (simp add: sys_jobs_def)

text \<open>
  C35. Cancelling a computation does not free its permit: when a session stops waiting for its
  verification, or a request for its hash, nothing is given back, and until an abandoned job ends, through
  whatever happens in between, at most one permit is free; when another job had been abandoned before,
  none is, and no verification and no hash can begin. So a client cannot start more than two
  memory-hard computations by hanging up on them.
\<close>

theorem abandoned_job_keeps_permit:
  assumes "sys_reach lib w" "sys_do lib e w = Some w1" "stops_waiting e w"
    and "sys_exec lib es w1 = Some w'" "OrphanDone \<notin> set es"
  shows "ps_permits (st_passwords (sys_app w1)) = ps_permits (st_passwords (sys_app w))
    \<and> ps_permits (st_passwords (sys_app w')) \<le> 1
    \<and> (sys_orphans w \<noteq> 0 \<longrightarrow> ps_permits (st_passwords (sys_app w')) = 0
        \<and> isl (fst (verify_begin (web_crypto lib) password (st_passwords (sys_app w'))))
        \<and> isl (fst (hash_begin (web_crypto lib) password (st_passwords (sys_app w')))))"
proof -
  have reach: "sys_reach lib w1" by (rule sys_reach.step [OF assms(1) sys_do_step [OF assms(2)]])
  have "Suc (sys_orphans w) \<le> sys_orphans w'"
    using orphans_stay [OF assms(4) reach assms(5)] stops_waiting_step(2) [OF assms(2,3)] by simp
  with permits_of_jobs [OF sys_exec_reach [OF assms(4) reach]]
  have free: "ps_permits (st_passwords (sys_app w')) + sys_orphans w \<le> 1" by simp
  then show ?thesis
    using stops_waiting_step(1) [OF assms(2,3)]
    by (auto simp: verify_begin_def hash_begin_def compute_begin_def split: sum.splits)
qed

end
