(* ===== verification/SystemExpiry.thy ===== *)
theory SystemExpiry
imports SystemDelivery SystemEvents
begin

text \<open>
  Expiry over histories of the backend: only a tick of the cleanup task removes a room, a room that is
  removed stays removed, and, as the members see it, a purge puts \<open>RoomExpired\<close> on the channel of every
  room it removes from memory, and every member that keeps reading is told and leaves.
\<close>

section \<open>What an event does to a room\<close>

text \<open>The id that an event may give to a new room.\<close>

fun creates_id :: "sys_event \<Rightarrow> string option" where
  "creates_id (Creates rid _ _ _ _ _) = Some rid"
| "creates_id (HashDone _ rid _ _ _) = Some rid"
| "creates_id _ = None"

fun cleans :: "sys_event \<Rightarrow> bool" where
  "cleans (CleanupTick _ _) \<longleftrightarrow> True"
| "cleans _ \<longleftrightarrow> False"

text \<open>A room that is neither in the database nor in memory, and one that is (still) there.\<close>

definition gone :: "string \<Rightarrow> system \<Rightarrow> bool" where
  "gone rid w \<longleftrightarrow> stored_hash (sys_app w) rid = None \<and> room_view (sys_app w) rid = None"

definition keeps :: "string \<Rightarrow> system \<Rightarrow> system \<Rightarrow> bool" where
  "keeps rid w w' \<longleftrightarrow> (stored_hash (sys_app w) rid \<noteq> None \<longrightarrow> stored_hash (sys_app w') rid = stored_hash (sys_app w) rid)
     \<and> (room_view (sys_app w) rid \<noteq> None \<longrightarrow> room_view (sys_app w') rid \<noteq> None)"

lemma same_view_keeps:
  "stored_hash (sys_app w') = stored_hash (sys_app w) \<Longrightarrow> room_view (sys_app w') = room_view (sys_app w)
   \<Longrightarrow> keeps rid w w' \<and> (gone rid w \<longrightarrow> gone rid w')"
  by (simp add: keeps_def gone_def)

lemma reacts_keeps:
  assumes "rooms_inv st" "session_step lib env i s st = (s', st')"
  shows "(room_view st rid \<noteq> None \<longrightarrow> room_view st' rid \<noteq> None)
    \<and> (stored_hash st rid = None \<longrightarrow> room_view st rid = None \<longrightarrow> room_view st' rid = None)"
  using assms by (cases rule: session_effect) (auto split: option.splits)

lemma sys_do_room:
  assumes "sys_do lib e w = Some w'" "rooms_inv (sys_app w)"
  shows "(\<not> cleans e \<longrightarrow> keeps rid w w') \<and> (creates_id e \<noteq> Some rid \<longrightarrow> gone rid w \<longrightarrow> gone rid w')"
proof -
  have db: "db_inv (st_db (sys_app w))" using assms(2) by (simp add: rooms_inv_def)
  show ?thesis
  proof (cases e)
    case (Connects env peer headers k)
    obtain r st where h: "ws_handler lib env peer headers k (sys_app w) = (r, st)" by fastforce
    obtain adm where "st = (sys_app w)\<lparr>st_admission := adm\<rparr>" using ws_handler_state [OF h] by blast
    then show ?thesis using assms(1) Connects h same_view_keeps [of w' w rid] by (auto split: sum.splits)
  next
    case (Reacts n env i)
    obtain s st where step: "session_step lib env i (sys_sessions w ! n) (sys_app w) = (s, st)" by fastforce
    have "stored_hash st = stored_hash (sys_app w)"
      using session_stored_hash [OF assms(2), of lib env i "sys_sessions w ! n"] step by simp
    then show ?thesis
      using assms(1) Reacts step reacts_keeps [OF assms(2) step, of rid]
      by (auto simp: keeps_def gone_def split: if_splits)
  next
    case (Creates k peer headers content now c)
    then show ?thesis
      using assms(1) create_start_adds [OF db, of k lib peer headers content now c]
      by (fastforce simp: only_adds_def keeps_def gone_def split: if_splits prod.splits sum.splits)
  next
    case (HashDone j k salt panics c)
    then show ?thesis
      using assms(1) create_finish_adds [OF db, of k lib salt panics "sys_hashing w ! j" c]
      by (fastforce simp: only_adds_def keeps_def gone_def split: if_splits prod.splits)
  next
    case (CleanupTick t c)
    obtain r st where ex: "expire_inactive_rooms c t (sys_app w) = (r, st)" by fastforce
    from assms(2) ex show ?thesis
      by (cases rule: expire_effect) (use assms(1) CleanupTick ex in \<open>auto simp: gone_def restrict_map_def\<close>)
  qed (use assms(1) same_view_keeps [of w' w rid] in \<open>auto simp: maintenance_tick_def split: if_splits nat.splits\<close>)
qed

lemma gone_stays:
  assumes "sys_exec lib es w = Some w'" "sys_reach lib w" "gone rid w" "\<forall>e \<in> set es. creates_id e \<noteq> Some rid"
  shows "gone rid w'"
  using assms by (rule sys_exec_invariant) (use sys_do_room sys_reach_rooms_inv in blast)

lemma keeps_trans: "keeps rid w w1 \<Longrightarrow> keeps rid w1 w' \<Longrightarrow> keeps rid w w'"
  by (auto simp: keeps_def)

lemma only_cleanup_removes:
  assumes "sys_exec lib es w = Some w'" "sys_reach lib w" "\<forall>e \<in> set es. \<not> cleans e"
  shows "keeps rid w w'"
  using assms(1,2) _ assms(3)
  by (rule sys_exec_invariant [where Q = "keeps rid w"])
    (use sys_do_room sys_reach_rooms_inv keeps_trans in \<open>blast | simp add: keeps_def\<close>)+

text \<open>
  C19. Expiry is final and announced. When a purge succeeds, in any state the backend can reach, every
  room it deleted is out of memory at once and the channel of its members ends with \<open>RoomExpired\<close>, sent
  once, while every other room keeps its members and gets no event. And a deleted room stays deleted:
  after any further events of the backend, none of which gives its id to a new room, it is in neither the
  database nor the memory, a connection finds no such room, no session can attach to it and none, though
  it attached before, can join it.
\<close>

theorem expiry_final:
  assumes "sys_reach lib w" "expire_inactive_rooms c t (sys_app w) = (Inr ids, st)"
  shows "(\<forall>k room. map_of (st_rooms (sys_app w)) k = Some room \<longrightarrow>
      (if k \<in> set ids
       then map_of (st_rooms st) k = None \<and> st_channels st ! rm_tx room = st_channels (sys_app w) ! rm_tx room @ [RoomExpired]
       else map_of (st_rooms st) k = Some room \<and> st_channels st ! rm_tx room = st_channels (sys_app w) ! rm_tx room))
    \<and> (\<forall>rid es w'. rid \<in> set ids \<longrightarrow> sys_exec lib es (w\<lparr>sys_app := st\<rparr>) = Some w' \<longrightarrow>
      (\<forall>e \<in> set es. creates_id e \<noteq> Some rid) \<longrightarrow>
      map_of (db_rows (st_db (sys_app w'))) rid = None \<and> map_of (st_rooms (sys_app w')) rid = None
      \<and> room_password c' rid (st_db (sys_app w')) \<in> {Inr None, Inl Backend}
      \<and> fst (attach c' rid cid (sys_app w')) \<in> {Inr None, Inl Backend} \<and> snd (attach c' rid cid (sys_app w')) = sys_app w'
      \<and> join rid cid p n (sys_app w') = (RoomGone, sys_app w'))"
proof (intro conjI allI impI)
  have inv: "rooms_inv (sys_app w)" by (rule sys_reach_rooms_inv [OF assms(1)])
  show "if k \<in> set ids
      then map_of (st_rooms st) k = None \<and> st_channels st ! rm_tx room = st_channels (sys_app w) ! rm_tx room @ [RoomExpired]
      else map_of (st_rooms st) k = Some room \<and> st_channels st ! rm_tx room = st_channels (sys_app w) ! rm_tx room"
    if "map_of (st_rooms (sys_app w)) k = Some room" for k room
    by (rule expiry_at_once [OF inv assms(2) that])
  fix rid es w'
  assume later: "rid \<in> set ids" "sys_exec lib es (w\<lparr>sys_app := st\<rparr>) = Some w'" "\<forall>e \<in> set es. creates_id e \<noteq> Some rid"
  have "sys_step lib w (w\<lparr>sys_app := st\<rparr>)" using sys_step.cleanup [of lib w t c] assms(2) by simp
  then have reach: "sys_reach lib (w\<lparr>sys_app := st\<rparr>)" by (rule sys_reach.step [OF assms(1)])
  have db: "db_inv (st_db (sys_app w))" using inv by (simp add: rooms_inv_def)
  note ex = expire_cases(2) [OF inv assms(2) refl]
  have "gone rid (w\<lparr>sys_app := st\<rparr>)"
    using ex store.purge_ok [OF db conjunct1 [OF ex]] later(1)
    by (auto simp: gone_def stored_hash_def store.password_def room_view_def restrict_map_def)
  from gone_stays [OF later(2) reach this later(3)]
  have none: "map_of (db_rows (st_db (sys_app w'))) rid = None" "map_of (st_rooms (sys_app w')) rid = None"
    by (simp_all add: gone_def stored_hash_def store.password_def db_view_def room_view_def)
  show "map_of (db_rows (st_db (sys_app w'))) rid = None" "map_of (st_rooms (sys_app w')) rid = None" by fact+
  show "room_password c' rid (st_db (sys_app w')) \<in> {Inr None, Inl Backend}"
    "fst (attach c' rid cid (sys_app w')) \<in> {Inr None, Inl Backend}" "snd (attach c' rid cid (sys_app w')) = sys_app w'"
    "join rid cid p n (sys_app w') = (RoomGone, sys_app w')"
    using none by (auto simp: attach_def join_def room_exists_def room_password_def)
qed

section \<open>Told, or still before the announcement\<close>

definition over_phase :: "phase \<Rightarrow> bool" where
  "over_phase p \<longleftrightarrow> p = Detaching \<or> p = Done"

definition told :: "nat \<Rightarrow> nat \<Rightarrow> nat \<Rightarrow> session \<Rightarrow> bool" where
  "told c p lo s \<longleftrightarrow>
     over_phase (ss_phase s) \<and> FText (outgoing_json OutRoomExpired) \<in> set (ss_sent s)
     \<or> ss_phase s = Relaying \<and> (\<exists>pos. ss_rx s = (c, pos) \<and> lo \<le> pos \<and> pos \<le> p)"

lemma over_step: "over_phase (ss_phase s) \<Longrightarrow> over_phase (ss_phase (fst (session_step lib env i s st)))"
  by (cases "ss_phase s"; cases i) (simp_all add: over_phase_def session_step.simps on_detaching_def)

lemma over_not_relaying [simp]: "over_phase p \<Longrightarrow> p \<noteq> Relaying"
  by (auto simp: over_phase_def)

lemma told_over: "over_phase (ss_phase s) \<Longrightarrow> told c p lo s \<Longrightarrow> told c p lo' (fst (session_step lib env i s st))"
  using over_step [of s lib env i st] set_mono_prefix [OF session_step_sent [of s lib env i st]]
  by (auto simp: told_def)

text \<open>A read of the announcement itself.\<close>

lemma relaying_told:
  assumes "ss_phase s = Relaying" "ss_rx s = (c, pos)" "pos < length (st_channels st ! c)"
    and "fst (channel_recv (env_buffered env) (ss_rx s) (st_channels st)) \<noteq> Lagged" "env_send env 0"
    and "st_channels st ! c ! pos = RoomExpired"
  shows "ss_phase (fst (session_step lib env RoomEvent s st)) = Detaching"
    "FText (outgoing_json OutRoomExpired) \<in> set (ss_sent (fst (session_step lib env RoomEvent s st)))"
  using assms
  by (auto simp: session_step.simps on_relaying_def relay_recv_def channel_recv_def relay_event_cases send_json_def
      send_frame_def for_me_def split: if_splits)

lemma relaying_not_told:
  assumes "ss_phase s = Relaying" "ss_rx s = (c, pos)" "pos < length (st_channels st ! c)"
    and "st_channels st ! c ! pos = RoomExpired" "ss_phase (fst (session_step lib env i s st)) = Relaying"
  shows "ss_rx (fst (session_step lib env i s st)) = (c, pos)"
proof (cases "i = RoomEvent")
  case True
  then show ?thesis
    using assms
    by (auto simp: session_step.simps on_relaying_def relay_recv_def channel_recv_def relay_event_cases for_me_def
        split: if_splits)
next
  case False
  then show ?thesis
    using assms
    by (cases i) (auto simp: session_step.simps on_relaying_def relay_ping_def relay_text_def Let_def
        split: input_splits)
qed

lemma told_stays:
  assumes "told c p lo s" "p < length l" "prefix l (st_channels st ! c)" "l ! p = RoomExpired"
    and "ss_phase (fst (session_step lib env i s st)) = Relaying"
  shows "told c p lo (fst (session_step lib env i s st))"
proof (cases "over_phase (ss_phase s)")
  case True
  then show ?thesis using told_over assms(1) by blast
next
  case False
  then obtain pos where s: "ss_phase s = Relaying" "ss_rx s = (c, pos)" "lo \<le> pos" "pos \<le> p"
    using assms(1) by (auto simp: told_def)
  have ev: "st_channels st ! c ! p = RoomExpired" "p < length (st_channels st ! c)"
    using assms(2-4) by (auto simp: prefix_def nth_append)
  have "ss_rx (fst (session_step lib env i s st)) = (c, pos)" if "pos = p"
    using relaying_not_told [OF s(1,2) _ _ assms(5)] ev that by blast
  then show ?thesis
    using relaying_stays [OF s(1) surjective_pairing assms(5) s(2)] s assms(5)
    by (cases "pos = p") (auto simp: told_def)
qed

lemma told_reads:
  assumes "told c p lo s" "p < length l" "prefix l (st_channels st ! c)" "l ! p = RoomExpired"
    and "\<And>q. q < p \<Longrightarrow> l ! q \<noteq> RoomExpired"
    and "fst (channel_recv (env_buffered env) (ss_rx s) (st_channels st)) \<noteq> Lagged" "env_send env 0"
  shows "told c p (Suc lo) (fst (session_step lib env RoomEvent s st))"
proof (cases "over_phase (ss_phase s)")
  case True
  then show ?thesis using told_over assms(1) by blast
next
  case False
  then obtain pos where s: "ss_phase s = Relaying" "ss_rx s = (c, pos)" "lo \<le> pos" "pos \<le> p"
    using assms(1) by (auto simp: told_def)
  have ev: "st_channels st ! c ! pos = l ! pos" "pos < length (st_channels st ! c)"
    using assms(2,3) s(4) by (auto simp: prefix_def nth_append)
  show ?thesis
  proof (cases "pos = p")
    case True
    then show ?thesis
      using relaying_told [OF s(1,2) ev(2) assms(6,7)] ev(1) assms(4) by (simp add: told_def over_phase_def)
  next
    case False
    then show ?thesis
      using relaying_reads [where lib = lib, OF s(1,2) ev(2) assms(6,7)] ev(1) assms(5) s by (auto simp: told_def)
  qed
qed

section \<open>The announcement arrives\<close>

text \<open>
  C20. An expiry reaches every member: when a purge, in any state the backend can reach, deletes a room
  that is in memory, then every session that relays in it is sent the expiry message and has left the
  relay loop for good by the time it has read its channel once more than it had unread events, without
  having lagged and with a client that takes its frames; whatever all sessions, requests and tasks do
  in between.
\<close>

theorem expiry_reaches_members:
  assumes reach: "sys_reach lib w" and n: "n < length (sys_sessions w)"
    and rel: "ss_phase (sys_sessions w ! n) = Relaying" "ss_room_id (sys_sessions w ! n) = rid"
    and room: "map_of (st_rooms (sys_app w)) rid = Some room"
    and purge: "expire_inactive_rooms c expiry_secs (sys_app w) = (Inr ids, st)" "rid \<in> set ids"
    and run: "reading_run lib n k (w\<lparr>sys_app := snd (cleanup_tick expiry_secs c (sys_app w))\<rparr>) w'"
      "length (st_channels (sys_app w) ! rm_tx room) - snd (ss_rx (sys_sessions w ! n)) < k"
  shows "FText (outgoing_json OutRoomExpired) \<in> set (ss_sent (sys_sessions w' ! n))
    \<and> ss_phase (sys_sessions w' ! n) \<in> {Detaching, Done}"
proof -
  let ?n = "sys_sessions w ! n" and ?chs = "st_channels (sys_app w)" and ?c = "rm_tx room"
  let ?log = "?chs ! ?c" and ?w1 = "w\<lparr>sys_app := snd (cleanup_tick expiry_secs c (sys_app w))\<rparr>"
  have tx: "tx_ok (room_tx (sys_app w)) (length ?chs) ?n"
    using sys_reach_tx [OF reach] n by (simp add: sys_tx_inv_def tx_inv_def)
  have "room_tx (sys_app w) rid = Some ?c" using room by (simp add: room_tx_def)
  then have ch: "ss_tx ?n = ?c"
    using tx_okD [OF tx, of rid ?c] rel by (simp add: has_id_def)
  have inv: "rooms_inv (sys_app w)" by (rule sys_reach_rooms_inv [OF reach])
  have len: "?c < length ?chs" by (rule rooms_invD(1) [OF inv room])
  have "rx_ok ?chs ?n" using sys_reach_rx [OF reach] n by (simp add: sys_rx_ok_def)
  then obtain pos where rx: "ss_rx ?n = (?c, pos)" "pos \<le> length ?log"
    using tx ch rel(1) by (cases "ss_rx ?n") (auto simp: tx_ok_def rx_ok_def has_id_def)
  have live: "RoomExpired \<notin> set ?log" using sys_live [OF reach] room unfolding live_logs_def by blast
  have st: "sys_app ?w1 = st" using purge(1) by simp
  have chs: "st_channels st ! ?c = ?log @ [RoomExpired]"
    using expire_log [OF inv purge(1) room] purge(2) by simp
  have step: "sys_step lib w ?w1" by (rule sys_step.cleanup)
  have len1: "?c < length (st_channels st)"
    using extends_nth [OF state_steps_extend [OF sys_step_state [OF step]] len] unfolding st by blast
  have "told ?c (length ?log) (pos + k) (sys_sessions w' ! n)"
  proof (rule conjunct2 [OF conjunct2 [OF conjunct2 [OF conjunct2 [OF
      reading_run_keeps [where l = "?log @ [RoomExpired]" and c = ?c and D = "told ?c (length ?log)", OF run(1)]]]]])
    show "told ?c (length ?log) lo (fst (session_step lib env i s st'))"
      if "told ?c (length ?log) lo s" "prefix (?log @ [RoomExpired]) (st_channels st' ! ?c)"
        "ss_phase (fst (session_step lib env i s st')) = Relaying" for lo env i s st'
      by (rule told_stays [OF that(1) _ that(2) _ that(3)]) simp_all
    show "told ?c (length ?log) (Suc lo) (fst (session_step lib env RoomEvent s st'))"
      if "told ?c (length ?log) lo s" "prefix (?log @ [RoomExpired]) (st_channels st' ! ?c)"
        "fst (channel_recv (env_buffered env) (ss_rx s) (st_channels st')) \<noteq> Lagged" "env_send env 0" for lo env s st'
      by (rule told_reads [OF that(1) _ that(2) _ _ that(3,4)])
        (use live in \<open>auto simp: nth_append in_set_conv_nth\<close>)
    show "sys_reach lib ?w1" by (rule sys_reach.step [OF reach step])
    show "told ?c (length ?log) pos (sys_sessions ?w1 ! n)" using rx rel(1) by (simp add: told_def)
  qed (use n len1 chs st in simp_all)
  then show ?thesis using run(2) rx by (auto simp: told_def over_phase_def)
qed

end
