(* ===== verification/SystemEntry.thy ===== *)
theory SystemEntry
imports SystemLiveness
begin

text \<open>
  The honest client: what the backend refuses is one half, the other is that it lets in a client that
  follows the protocol, presents the password of the room and announces valid keys, as long as the room
  exists, has a place, and the limits are not exhausted.
\<close>

section \<open>Honest reactions\<close>

text \<open>What the awaits of a session yield when its client answers each request, and nothing fails.\<close>

fun honest_input :: "string \<Rightarrow> string \<Rightarrow> phase \<Rightarrow> ws_input" where
  "honest_input auth announce AuthWait = Recv (NextMsg (MText auth))"
| "honest_input auth announce (VerifyJob _) = JobDone False"
| "honest_input auth announce Handshaking = Recv (NextMsg (MText announce))"
| "honest_input auth announce _ = Proceed"

text \<open>What the server has to have at a reaction: a token of the room, a permit, the room, a place in it.\<close>

definition admits :: "step_env \<Rightarrow> session \<Rightarrow> app_state \<Rightarrow> bool" where
  "admits env s st =
     (case ss_phase s of
        AuthWait \<Rightarrow> fst (check_at (RoomBudget (ss_room_id s)) (env_now env) (st_admission st)) = Inr ()
      | VerifyReady _ \<Rightarrow> 0 < ps_permits (st_passwords st)
      | Attaching \<Rightarrow> room_exists (env_call env) (ss_room_id s) (st_db st) = Inr True
      | Joining _ _ _ \<Rightarrow>
          (case map_of (st_rooms st) (ss_room_id s) of
             None \<Rightarrow> False | Some room \<Rightarrow> length (rm_participants room) < max_participants)
      | _ \<Rightarrow> True)"

text \<open>
  The texts the client sends: an authentication frame with a password that the policy admits and the
  stored hash accepts, when the room has one, and an announcement of valid keys.
\<close>

definition opens_room :: "web_lib \<Rightarrow> string \<Rightarrow> string \<Rightarrow> bool" where
  "opens_room lib auth hash \<longleftrightarrow>
     length auth \<le> 4096
     \<and> (case Option.bind (web_json lib auth) decode_authentication of
          None \<Rightarrow> False
        | Some password \<Rightarrow> acceptable (web_crypto lib) password
            \<and> verify_job (web_crypto lib) (lib_nfc (web_crypto lib) password) hash = Inr True)"

definition honest_client :: "web_lib \<Rightarrow> string \<Rightarrow> string \<Rightarrow> session \<Rightarrow> bool" where
  "honest_client lib auth announce s \<longleftrightarrow>
     announced_keys lib announce \<noteq> None
     \<and> (case ss_room s of None \<Rightarrow> False | Some None \<Rightarrow> True | Some (Some hash) \<Rightarrow> opens_room lib auth hash)"

section \<open>Each leads on\<close>

definition on_the_way :: "web_lib \<Rightarrow> string \<Rightarrow> session \<Rightarrow> bool" where
  "on_the_way lib auth s =
     (case ss_phase s of
        Opening \<Rightarrow> True
      | AuthWait \<Rightarrow> is_protected s
      | VerifyReady password \<Rightarrow> is_protected s
          \<and> Option.bind (web_json lib auth) decode_authentication = Some password
      | VerifyJob pw \<Rightarrow> is_protected s
          \<and> map_option (lib_nfc (web_crypto lib)) (Option.bind (web_json lib auth) decode_authentication) = Some pw
      | Attaching \<Rightarrow> True
      | Welcoming _ _ \<Rightarrow> True
      | Handshaking \<Rightarrow> True
      | Joining _ _ _ \<Rightarrow> True
      | Announcing _ \<Rightarrow> True
      | Relaying \<Rightarrow> True
      | _ \<Rightarrow> False)"

lemma is_protected_iff: "is_protected s \<longleftrightarrow> (\<exists>hash. ss_room s = Some (Some hash))"
  by (auto simp: is_protected_def split: option.splits)

lemma drop_pending_Attaching:
  "ss_phase (fst (drop_pending Attaching s st)) \<noteq> Panicked \<Longrightarrow> ss_phase (fst (drop_pending Attaching s st)) = Attaching"
  using drop_pending_session(4) [of Attaching s st] by blast

lemma honest_moves:
  assumes way: "on_the_way lib auth s" and client: "honest_client lib auth announce s"
    and ok: "admits env s st" "env_send env 0"
    and step: "session_step lib env (honest_input auth announce (ss_phase s)) s st = (s', st')" "ss_phase s' \<noteq> Panicked"
  shows "on_the_way lib auth s'" "ss_phase s = Relaying \<longrightarrow> ss_phase s' = Relaying"
    "ss_phase s \<noteq> Relaying \<longrightarrow> ss_phase s' \<noteq> ss_phase s"
proof -
  have room: "ss_room s' = ss_room s"
    using session_step_static(1) [of lib env "honest_input auth announce (ss_phase s)" s st] step(1) by simp
  have "on_the_way lib auth s' \<and> (ss_phase s = Relaying \<longrightarrow> ss_phase s' = Relaying)
    \<and> (ss_phase s \<noteq> Relaying \<longrightarrow> ss_phase s' \<noteq> ss_phase s)"
  proof (cases "ss_phase s")
    case Opening
    then show ?thesis
      using step client ok(2) room drop_pending_Attaching [of s st]
      by (auto simp: session_step.simps on_opening_def on_the_way_def honest_client_def is_protected_iff send_json_def
          split: option.splits)
  next
    case AuthWait
    obtain hash where hash: "ss_room s = Some (Some hash)" using way AuthWait by (auto simp: on_the_way_def is_protected_iff)
    obtain adm where "check_at (RoomBudget (ss_room_id s)) (env_now env) (st_admission st) = (Inr (), adm)"
      using ok(1) AuthWait by (cases "check_at (RoomBudget (ss_room_id s)) (env_now env) (st_admission st)") (simp add: admits_def)
    then show ?thesis
      using step(1) client AuthWait hash room
      by (auto simp: session_step.simps on_auth_wait_def on_the_way_def honest_client_def opens_room_def is_protected_iff
          split: option.splits)
  next
    case (VerifyReady password)
    then have pw: "Option.bind (web_json lib auth) decode_authentication = Some password" "is_protected s"
      using way by (simp_all add: on_the_way_def)
    then have "acceptable (web_crypto lib) password"
      using client by (auto simp: honest_client_def opens_room_def is_protected_iff)
    then show ?thesis
      using step(1) VerifyReady pw ok(1) room
      by (auto simp: session_step.simps on_verify_ready_def verify_begin_def normalize_eq compute_begin_def admits_def
          on_the_way_def is_protected_iff)
  next
    case (VerifyJob pw)
    then obtain hash password where pw: "ss_room s = Some (Some hash)"
        "Option.bind (web_json lib auth) decode_authentication = Some password"
        "pw = lib_nfc (web_crypto lib) password"
      using way by (auto simp: on_the_way_def is_protected_iff)
    then have "verify_job (web_crypto lib) pw hash = Inr True"
      using client by (auto simp: honest_client_def opens_room_def)
    then show ?thesis
      using step VerifyJob pw drop_pending_Attaching [of s "st\<lparr>st_passwords := compute_end (st_passwords st)\<rparr>"]
      by (auto simp: session_step.simps on_verify_job_def join_result_def auth_result_def on_the_way_def)
  next
    case Attaching
    then show ?thesis
      using step(1) ok(1)
      by (auto simp: session_step.simps on_attaching_def attach_def on_the_way_def admits_def Let_def split: prod.splits)
  next
    case (Welcoming is_creator creator_id)
    then show ?thesis
      using step(1) ok by (auto simp: session_step.simps on_welcoming_def on_the_way_def send_json_def)
  next
    case Handshaking
    then show ?thesis
      using step(1) client
      by (auto simp: session_step.simps on_handshaking_def on_the_way_def honest_client_def split: option.splits)
  next
    case (Joining key pq_key sig)
    then show ?thesis
      using step(1) ok(1)
      by (auto simp: session_step.simps on_joining_def join_def Let_def on_the_way_def admits_def split: option.splits)
  next
    case (Announcing ms)
    then show ?thesis
      using step(1) ok(2) by (cases ms) (auto simp: session_step.simps on_announcing_def on_the_way_def send_json_def)
  next
    case Relaying
    then show ?thesis
      using step(1) by (simp add: session_step.simps on_relaying_def on_the_way_def)
  qed (use way in \<open>simp_all add: on_the_way_def\<close>)
  then show "on_the_way lib auth s'" "ss_phase s = Relaying \<longrightarrow> ss_phase s' = Relaying"
    "ss_phase s \<noteq> Relaying \<longrightarrow> ss_phase s' \<noteq> ss_phase s" by blast+
qed

lemma honest_rank:
  assumes "on_the_way lib auth s" "honest_client lib auth announce s" "admits env s st" "env_send env 0"
    and "session_step lib env (honest_input auth announce (ss_phase s)) s st = (s', st')" "ss_phase s' \<noteq> Panicked"
  shows "phase_rank (ss_phase s') - 2 \<le> phase_rank (ss_phase s) - 2 - 1"
  using honest_moves(2,3) [OF assms] session_rank [of lib env "honest_input auth announce (ss_phase s)" s st] assms(5)
  by (cases "ss_phase s = Relaying") auto

lemma on_the_way_rank: "on_the_way lib auth s \<Longrightarrow> phase_rank (ss_phase s) \<le> 2 \<Longrightarrow> ss_phase s = Relaying"
  by (cases "ss_phase s") (auto simp: on_the_way_def)

section \<open>An honest client enters\<close>

text \<open>
  A run of the system in which the session \<open>n\<close> reacts \<open>k\<close> times, each time to what its honest client
  yields and with the server admitting it; all steps of the others are arbitrary.
\<close>

inductive honest_run :: "web_lib \<Rightarrow> string \<Rightarrow> string \<Rightarrow> nat \<Rightarrow> nat \<Rightarrow> system \<Rightarrow> system \<Rightarrow> bool"
  for lib auth announce n where
  here: "honest_run lib auth announce n 0 w w"
| other: "honest_run lib auth announce n k w w1 \<Longrightarrow> sys_step lib w1 w2
     \<Longrightarrow> sys_sessions w2 ! n = sys_sessions w1 ! n \<Longrightarrow> honest_run lib auth announce n k w w2"
| honest: "honest_run lib auth announce n k w w1 \<Longrightarrow> env_uuid env \<notin> known_ids w1 \<Longrightarrow> env_send env 0
     \<Longrightarrow> admits env (sys_sessions w1 ! n) (sys_app w1)
     \<Longrightarrow> i = honest_input auth announce (ss_phase (sys_sessions w1 ! n))
     \<Longrightarrow> session_step lib env i (sys_sessions w1 ! n) (sys_app w1) = (s, st)
     \<Longrightarrow> honest_run lib auth announce n (Suc k) w (w1\<lparr>sys_app := st, sys_sessions := (sys_sessions w1)[n := s],
           sys_orphans := sys_orphans w1 + of_bool (abandons i (sys_sessions w1 ! n) s)\<rparr>)"

lemma sys_not_panicked: "sys_reach lib w \<Longrightarrow> n < length (sys_sessions w) \<Longrightarrow> ss_phase (sys_sessions w ! n) \<noteq> Panicked"
  using sys_reach_slots nth_mem by (fastforce simp: sys_slots_def)

lemma honest_run_leads:
  assumes "honest_run lib auth announce n k w w'" "sys_reach lib w" "n < length (sys_sessions w)"
    and "on_the_way lib auth (sys_sessions w ! n)" "honest_client lib auth announce (sys_sessions w ! n)"
  shows "sys_reach lib w' \<and> n < length (sys_sessions w') \<and> on_the_way lib auth (sys_sessions w' ! n)
    \<and> honest_client lib auth announce (sys_sessions w' ! n)
    \<and> phase_rank (ss_phase (sys_sessions w' ! n)) - 2 \<le> phase_rank (ss_phase (sys_sessions w ! n)) - 2 - k"
  using assms
proof (induction rule: honest_run.induct)
  case (other k w w1 w2)
  then show ?case using sys_reach.step sys_step_other(1) by metis
next
  case (honest k w w1 env i s st)
  then have IH: "sys_reach lib w1" "n < length (sys_sessions w1)" "on_the_way lib auth (sys_sessions w1 ! n)"
      "honest_client lib auth announce (sys_sessions w1 ! n)"
      "phase_rank (ss_phase (sys_sessions w1 ! n)) - 2 \<le> phase_rank (ss_phase (sys_sessions w ! n)) - 2 - k"
    by auto
  note step = honest.hyps(6) [unfolded honest.hyps(5)]
  note reach = sys_reach.step [OF IH(1) sys_step.session [OF IH(2) honest.hyps(2,6)]]
  have "ss_phase s \<noteq> Panicked" using sys_not_panicked [OF reach, of n] IH(2) by simp
  note moves = IH(3,4) honest.hyps(4,3) step this
  have "ss_room s = ss_room (sys_sessions w1 ! n)"
    using session_step_static(1) [of lib env i "sys_sessions w1 ! n" "sys_app w1"] honest.hyps(6) by simp
  then have "honest_client lib auth announce s" using IH(4) by (simp add: honest_client_def)
  then show ?case
    using reach IH(2,5) honest_moves(1) [OF moves] honest_rank [OF moves] by simp
qed simp

text \<open>
  C4. An honest client enters: a connection to a room that exists, whose client presents the password of
  the room and announces valid keys, relays after at most 25 of its reactions, and is a participant of
  the room as long as the room is in memory; whatever all other connections, requests and tasks do in
  between, as long as the room has a token, a permit is free, the room is still there and has a place
  at the reactions that need them.
\<close>

theorem honest_client_enters:
  assumes "sys_reach lib w" "n < length (sys_sessions w)" "ss_phase (sys_sessions w ! n) = Opening"
    and "honest_client lib auth announce (sys_sessions w ! n)"
    and "honest_run lib auth announce n k w w'" "25 \<le> k"
  shows "ss_phase (sys_sessions w' ! n) = Relaying
    \<and> (\<forall>room. map_of (st_rooms (sys_app w')) (ss_room_id (sys_sessions w' ! n)) = Some room \<longrightarrow>
        contains_key (rm_participants room) (ss_conn_id (sys_sessions w' ! n)))"
proof -
  let ?s = "sys_sessions w' ! n"
  have run: "sys_reach lib w'" "n < length (sys_sessions w')" "on_the_way lib auth ?s" "phase_rank (ss_phase ?s) \<le> 2"
    using honest_run_leads [OF assms(5,1,2) _ assms(4)] assms(3,6) by (auto simp: on_the_way_def)
  have rel: "ss_phase ?s = Relaying" by (rule on_the_way_rank [OF run(3,4)])
  moreover have "contains_key (rm_participants room) (ss_conn_id ?s)"
    if "map_of (st_rooms (sys_app w')) (ss_room_id ?s) = Some room" for room
    using sys_session_ok [OF run(1) nth_mem [OF run(2)]] rel that
    by (auto simp: session_ok_def present_def room_view_def)
  ultimately show ?thesis by blast
qed

text \<open>A member that has entered can go on reacting.\<close>

lemma honest_run_goes_on:
  assumes "honest_run lib auth announce n k w w1" "n < length (sys_sessions w1)" "ss_phase (sys_sessions w1 ! n) = Relaying"
  shows "\<exists>w'. honest_run lib auth announce n (k + j) w w' \<and> n < length (sys_sessions w')
    \<and> ss_phase (sys_sessions w' ! n) = Relaying"
proof (induction j)
  case 0
  then show ?case using assms by auto
next
  case (Suc j)
  then obtain w2 where w2: "honest_run lib auth announce n (k + j) w w2" "n < length (sys_sessions w2)"
      "ss_phase (sys_sessions w2 ! n) = Relaying"
    by blast
  obtain env :: step_env where env: "env_uuid env \<notin> known_ids w2" "env_send env 0" by (rule fresh_env)
  have step: "session_step lib env Proceed (sys_sessions w2 ! n) (sys_app w2) = (sys_sessions w2 ! n, sys_app w2)"
    using w2(3) by (simp add: session_step.simps on_relaying_def)
  have "admits env (sys_sessions w2 ! n) (sys_app w2)" "Proceed = honest_input auth announce (ss_phase (sys_sessions w2 ! n))"
    using w2(3) by (simp_all add: admits_def)
  from honest_run.honest [OF w2(1) env this step] show ?case using w2(2,3) by fastforce
qed

end
