(* ===== verification/SystemDemo.thy ===== *)
theory SystemDemo
imports SystemExpiry SystemEntry
begin

text \<open>
  The system in motion: a client connects to a protected room, authenticates, joins and relays; another
  connection of it gives up while its password is verified. The states of this run show that the
  properties of the system apply.
\<close>

section \<open>The run\<close>

definition demo_web :: web_lib where
  "demo_web = \<lparr>web_http = ascii_lib, web_crypto = toy_lib,
     web_json = (\<lambda>s. if s = ''auth'' then Some (JObj [(''type'', JStr ''authenticate''), (''password'', JStr toy_password)])
       else if s = ''keys'' then Some (JObj [(''type'', JStr ''key_announce''), (''public_key'', JStr ''K''), (''pq_public_key'', JStr ''Q'')])
       else if s = ''chat'' then Some (JObj [(''type'', JStr ''message''), (''payload'', JStr ''hi'')])
       else None),
     web_base64 = (\<lambda>s. if s = ''K'' then Some (replicate 1952 CHR ''k'') else if s = ''Q'' then Some (replicate 1184 CHR ''q'') else None)\<rparr>"

definition demo_database :: database where
  "demo_database = \<lparr>db_columns = Some [''id'', ''created_at'', ''last_activity'', ''password_hash''],
     db_rows = [(''r'', \<lparr>row_created_at = 10, row_last_activity = 10, row_password_hash = Some toy_stored\<rparr>)]\<rparr>"

definition demo_env :: "string \<Rightarrow> step_env" where
  "demo_env uuid = \<lparr>env_now = 0, env_send = (\<lambda>_. True), env_call = sample_call 1, env_uuid = uuid, env_buffered = 128\<rparr>"

definition demo_connect :: "system \<Rightarrow> system" where
  "demo_connect w =
     (case ws_handler demo_web (demo_env ''u'') (V4 7) [(''origin'', ''https://parrhesia.chat'')] ''r'' (sys_app w) of
        (Inr s, st) \<Rightarrow> w\<lparr>sys_app := st, sys_sessions := sys_sessions w @ [s]\<rparr>
      | (Inl _, st) \<Rightarrow> w\<lparr>sys_app := st\<rparr>)"

definition demo_react :: "nat \<Rightarrow> string \<Rightarrow> ws_input \<Rightarrow> system \<Rightarrow> system" where
  "demo_react n uuid i w =
     (case session_step demo_web (demo_env uuid) i (sys_sessions w ! n) (sys_app w) of
        (s, st) \<Rightarrow> w\<lparr>sys_app := st, sys_sessions := (sys_sessions w)[n := s],
          sys_orphans := sys_orphans w + of_bool (abandons i (sys_sessions w ! n) s)\<rparr>)"

text \<open>A run of reactions: the session, a fresh id and the input of each; \<open>None\<close> when one is not possible.\<close>

definition demo_events :: "(nat \<times> string \<times> ws_input) list \<Rightarrow> sys_event list" where
  "demo_events = map (\<lambda>(n, uuid, i). Reacts n (demo_env uuid) i)"

definition demo_run :: "(nat \<times> string \<times> ws_input) list \<Rightarrow> system \<Rightarrow> system option" where
  "demo_run xs w = sys_exec demo_web (demo_events xs) w"

definition demo_connection :: sys_event where
  "demo_connection = Connects (demo_env ''u'') (V4 7) [(''origin'', ''https://parrhesia.chat'')] ''r''"

lemma demo_connect_event: "sys_do demo_web demo_connection w = Some (demo_connect w)"
  by (simp add: demo_connection_def demo_connect_def split: prod.splits sum.splits)

lemma demo_connect_reach: "sys_reach demo_web w \<Longrightarrow> sys_reach demo_web (demo_connect w)"
  using sys_reach.step sys_do_step [OF demo_connect_event] by blast

lemma demo_run_reach: "sys_reach demo_web w \<Longrightarrow> demo_run xs w = Some w' \<Longrightarrow> sys_reach demo_web w'"
  unfolding demo_run_def by (rule sys_exec_reach)

text \<open>A client authenticates, enters the room, leaves; another one gives up during its verification.\<close>

definition demo_start :: system where "demo_start = demo_connect (sys_new demo_database sample_config)"

definition demo_enter :: "(nat \<times> string \<times> ws_input) list" where
  "demo_enter = [(0, ''n'', Proceed), (0, ''n'', Recv (NextMsg (MText ''auth''))), (0, ''n'', Proceed), (0, ''n'', JobDone False),
     (0, ''u'', Proceed), (0, ''n'', Proceed), (0, ''n'', Recv (NextMsg (MText ''keys''))), (0, ''n'', Proceed),
     (0, ''n'', Proceed), (0, ''n'', Proceed)]"

definition demo_leave :: "(nat \<times> string \<times> ws_input) list" where
  "demo_leave = [(0, ''n'', Recv NextNone), (0, ''n'', Proceed)]"

definition demo_give_up :: "(nat \<times> string \<times> ws_input) list" where
  "demo_give_up = [(0, ''n'', Proceed), (0, ''n'', Recv (NextMsg (MText ''auth''))), (0, ''n'', Proceed), (0, ''n'', Deadline)]"

definition demo_room :: room where
  "demo_room = \<lparr>rm_tx = 0, rm_creator_id = Some ''u'',
     rm_participants = [(''u'', \<lparr>pt_public_key = ''K'', pt_pq_public_key = ''Q'', pt_sig = None\<rparr>)]\<rparr>"

lemma demo_start_reach: "sys_reach demo_web demo_start"
proof -
  have "db_inv demo_database" by code_simp
  then show ?thesis unfolding demo_start_def by (intro demo_connect_reach sys_reach.start)
qed

lemma demo_member_run:
  "map_option (\<lambda>w. (map (\<lambda>s. (ss_phase s, ss_conn_id s, fst (ss_rx s))) (sys_sessions w), map_of (st_rooms (sys_app w)) ''r'',
      room_password (sample_call 2) ''r'' (st_db (sys_app w)), map length (st_channels (sys_app w)),
      map length (st_channels (snd (session_step demo_web (demo_env ''n'') (Recv (NextMsg (MText ''chat''))) (sys_sessions w ! 0) (sys_app w))))))
     (demo_run demo_enter demo_start)
   = Some ([(Relaying, ''u'', 0)], Some demo_room, Inr (Some (Some toy_stored)), [1], [2])"
  by code_simp

lemma demo_left_run:
  "map_option (\<lambda>w. (map (\<lambda>s. (ss_phase s, ss_room_id s)) (sys_sessions w), map_option rm_tx (map_of (st_rooms (sys_app w)) ''r'')))
     (demo_run (demo_enter @ demo_leave) demo_start)
   = Some ([(Done, ''r'')], Some 0)"
  by code_simp

lemma demo_give_up_run:
  "map_option (\<lambda>w. (map (\<lambda>s. (ss_phase s, ss_pending s)) (sys_sessions w), sys_hashing w, sys_orphans w)) (demo_run demo_give_up demo_start)
   = Some ([(Rejecting AuthFailed, Some (V4 7))], [], 1)"
  by code_simp

section \<open>The properties at its states\<close>

theorem slots_accounted_witness:
  "\<exists>w. sys_reach demo_web w \<and> ss_phase (sys_sessions w ! 0) = Rejecting AuthFailed
    \<and> lim_pending_total (adm_limits (st_admission (sys_app w))) = 1"
proof -
  obtain w where run: "demo_run demo_give_up demo_start = Some w"
      and v: "map (\<lambda>s. (ss_phase s, ss_pending s)) (sys_sessions w) = [(Rejecting AuthFailed, Some (V4 7))]"
    using demo_give_up_run by auto
  obtain s where "sys_sessions w = [s]" "ss_phase s = Rejecting AuthFailed" "ss_pending s = Some (V4 7)"
    using v by auto
  moreover have r: "sys_reach demo_web w" by (rule demo_run_reach [OF demo_start_reach run])
  ultimately show ?thesis
    using slots_accounted [OF r] by (intro exI [of _ w]) (simp add: sys_guards_def guard_of_def)
qed

theorem permits_accounted_witness:
  "\<exists>w. sys_reach demo_web w \<and> sys_orphans w = 1 \<and> ps_permits (st_passwords (sys_app w)) = 1"
proof -
  obtain w where run: "demo_run demo_give_up demo_start = Some w"
      and v: "map (\<lambda>s. (ss_phase s, ss_pending s)) (sys_sessions w) = [(Rejecting AuthFailed, Some (V4 7))]"
        "sys_hashing w = []" "sys_orphans w = 1"
    using demo_give_up_run by auto
  obtain s where "sys_sessions w = [s]" "\<not> verifying s" using v(1) by (auto simp: verifying_def)
  moreover have r: "sys_reach demo_web w" by (rule demo_run_reach [OF demo_start_reach run])
  ultimately show ?thesis using permits_accounted [OF r] v(2,3) by (intro exI [of _ w]) simp
qed

lemma demo_verifying_run:
  "map_option (\<lambda>w. (map (\<lambda>s. (verifying s, ss_conn_id s)) (sys_sessions w), sys_orphans w))
     (demo_run (take 3 demo_give_up) demo_start) = Some ([(True, [])], 0)"
  by code_simp

theorem abandoned_job_keeps_permit_witness:
  "\<exists>w w1 w2. sys_reach demo_web w \<and> sys_do demo_web (Reacts 0 (demo_env ''n'') Deadline) w = Some w1
    \<and> sys_exec demo_web [MaintenanceTick 5, demo_connection] w1 = Some w2 \<and> ps_permits (st_passwords (sys_app w2)) \<le> 1"
proof -
  obtain w where run: "demo_run (take 3 demo_give_up) demo_start = Some w"
      and v: "map (\<lambda>s. (verifying s, ss_conn_id s)) (sys_sessions w) = [(True, [])]"
    using demo_verifying_run by auto
  obtain s where s: "sys_sessions w = [s]" "verifying s" "ss_conn_id s = []" using v by auto
  have reach: "sys_reach demo_web w" by (rule demo_run_reach [OF demo_start_reach run])
  have "0 < length (sys_sessions w)" "env_uuid (demo_env ''n'') \<notin> known_ids w"
    using s by (simp_all add: known_ids_def demo_env_def)
  then obtain w1 where w1: "sys_do demo_web (Reacts 0 (demo_env ''n'') Deadline) w = Some w1"
    by (cases "session_step demo_web (demo_env ''n'') Deadline (sys_sessions w ! 0) (sys_app w)") simp
  obtain w2 where w2: "sys_exec demo_web [MaintenanceTick 5, demo_connection] w1 = Some w2"
    by (simp add: demo_connect_event)
  have "stops_waiting (Reacts 0 (demo_env ''n'') Deadline) w" using s by (simp add: stops_waiting_def)
  from abandoned_job_keeps_permit [OF reach w1 this w2] have "ps_permits (st_passwords (sys_app w2)) \<le> 1"
    by (simp add: demo_connection_def)
  with reach w1 w2 show ?thesis by blast
qed

lemma demo_member:
  obtains w where "sys_reach demo_web w" "map (\<lambda>s. (ss_phase s, ss_conn_id s, fst (ss_rx s))) (sys_sessions w) = [(Relaying, ''u'', 0)]"
    "map_of (st_rooms (sys_app w)) ''r'' = Some demo_room"
    "room_password (sample_call 2) ''r'' (st_db (sys_app w)) = Inr (Some (Some toy_stored))"
    "map length (st_channels (sys_app w)) = [1]"
    "map length (st_channels (snd (session_step demo_web (demo_env ''n'') (Recv (NextMsg (MText ''chat''))) (sys_sessions w ! 0) (sys_app w)))) = [2]"
proof -
  obtain w where run: "demo_run demo_enter demo_start = Some w"
    using demo_member_run by (cases "demo_run demo_enter demo_start") simp_all
  show thesis
    by (rule that [OF demo_run_reach [OF demo_start_reach run]]) (use demo_member_run in \<open>simp_all add: run\<close>)
qed

lemma demo_room_member: "map_of (rm_participants demo_room) ''u'' = Some \<lparr>pt_public_key = ''K'', pt_pq_public_key = ''Q'', pt_sig = None\<rparr>"
  by (simp add: demo_room_def)

theorem membership_exact_witness:
  "\<exists>w. sys_reach demo_web w \<and> (\<exists>n < length (sys_sessions w). ss_conn_id (sys_sessions w ! n) = ''u''
    \<and> ss_room_id (sys_sessions w ! n) = ''r'' \<and> in_room (ss_phase (sys_sessions w ! n)))"
proof -
  obtain w where w: "sys_reach demo_web w" "map_of (st_rooms (sys_app w)) ''r'' = Some demo_room" by (rule demo_member)
  have "contains_key (rm_participants demo_room) ''u''" by (simp add: demo_room_def)
  with membership_exact [OF w] w(1) show ?thesis by blast
qed

theorem participants_keys_valid_witness:
  "\<exists>bs. web_base64 demo_web ''Q'' = Some bs \<and> length bs = 1184"
proof -
  obtain w where w: "sys_reach demo_web w" "map_of (st_rooms (sys_app w)) ''r'' = Some demo_room" by (rule demo_member)
  from participants_keys_valid [OF w demo_room_member] show ?thesis by auto
qed

theorem abandoned_room_clean_witness:
  "\<exists>w room. sys_reach demo_web w \<and> map_of (st_rooms (sys_app w)) ''r'' = Some room \<and> rm_participants room = []"
proof -
  obtain w where run: "demo_run (demo_enter @ demo_leave) demo_start = Some w"
      and v: "map (\<lambda>s. (ss_phase s, ss_room_id s)) (sys_sessions w) = [(Done, ''r'')]"
        "map_option rm_tx (map_of (st_rooms (sys_app w)) ''r'') = Some 0"
    using demo_left_run by auto
  obtain room where room: "map_of (st_rooms (sys_app w)) ''r'' = Some room" using v(2) by auto
  obtain s where "sys_sessions w = [s]" "\<not> has_id (ss_phase s)" using v(1) by (auto simp: has_id_def)
  then have "\<not> (\<exists>s \<in> set (sys_sessions w). ss_room_id s = ''r'' \<and> has_id (ss_phase s))" by simp
  with abandoned_room_clean [OF demo_run_reach [OF demo_start_reach run] room] demo_run_reach [OF demo_start_reach run] room
  show ?thesis by blast
qed

theorem members_authenticated_witness:
  "\<exists>n before env msg later password.
     demo_connection # demo_events demo_enter = before @ Reacts n env (Recv (NextMsg (MText msg))) # later
     \<and> Option.bind (web_json demo_web msg) decode_authentication = Some password \<and> acceptable toy_lib password
     \<and> verify_job toy_lib (lib_nfc toy_lib password) toy_stored = Inr True"
proof -
  obtain w where run: "demo_run demo_enter demo_start = Some w"
    using demo_member_run by (cases "demo_run demo_enter demo_start") simp_all
  then have exec: "sys_exec demo_web (demo_connection # demo_events demo_enter) (sys_new demo_database sample_config) = Some w"
    by (simp add: demo_connect_event demo_start_def demo_run_def)
  have w: "map_of (st_rooms (sys_app w)) ''r'' = Some demo_room"
      "room_password (sample_call 2) ''r'' (st_db (sys_app w)) = Inr (Some (Some toy_stored))"
    using demo_member_run by (simp_all add: run)
  have "db_inv demo_database" "contains_key (rm_participants demo_room) ''u''"
    by code_simp (simp add: demo_room_def)
  from members_authenticated [OF this(1) exec w(1) this(2) w(2)] show ?thesis
    by (elim exE conjE, intro exI conjI) (simp_all add: demo_web_def)
qed

text \<open>The connection of the run took the one slot there is in use.\<close>

lemma demo_handler:
  "map_option ss_room (case fst (ws_handler demo_web (demo_env ''u'') (V4 7) [(''origin'', ''https://parrhesia.chat'')] ''r''
     (app_state_new demo_database sample_config)) of Inr s \<Rightarrow> Some s | Inl _ \<Rightarrow> None) = Some (Some (Some toy_stored))"
  "client_ip (web_http demo_web) (V4 7) [(''origin'', ''https://parrhesia.chat'')] (cfg_trusted_proxies sample_config) = Inr (V4 7)"
  by code_simp+

theorem ws_handler_gates_witness:
  "\<exists>s st. ws_handler demo_web (demo_env ''u'') (V4 7) [(''origin'', ''https://parrhesia.chat'')] ''r''
      (app_state_new demo_database sample_config) = (Inr s, st)
    \<and> ss_pending s = Some (V4 7) \<and> lim_pending_total (adm_limits (st_admission st)) = 1"
proof -
  obtain s st where h: "ws_handler demo_web (demo_env ''u'') (V4 7) [(''origin'', ''https://parrhesia.chat'')] ''r''
      (app_state_new demo_database sample_config) = (Inr s, st)" "ss_room s = Some (Some toy_stored)"
    using demo_handler(1)
    by (cases "ws_handler demo_web (demo_env ''u'') (V4 7) [(''origin'', ''https://parrhesia.chat'')] ''r''
      (app_state_new demo_database sample_config)") (auto split: sum.splits)
  have "st_config (app_state_new demo_database sample_config) = sample_config"
      "lim_pending_total (adm_limits (st_admission (app_state_new demo_database sample_config))) = 0"
    by (simp_all add: app_state_new_def admission_default_def)
  then have "ss_pending s = Some (V4 7) \<and> lim_pending_total (adm_limits (st_admission st)) = 1"
    using ws_handler_gates [OF h(1)] h(2) demo_handler(2)
    by (auto simp: session_new_def slot_taken_def split: if_splits)
  with h(1) show ?thesis by blast
qed

theorem room_isolation_witness:
  "\<exists>w. sys_reach demo_web w \<and> length (sys_sessions w) = 1 \<and> (\<forall>rid room. map_of (st_rooms (sys_app w)) rid = Some room \<longrightarrow>
     rm_tx room = 0 \<longrightarrow> rid = ss_room_id (sys_sessions w ! 0))"
proof -
  obtain w where w: "sys_reach demo_web w" "map (\<lambda>s. (ss_phase s, ss_conn_id s, fst (ss_rx s))) (sys_sessions w) = [(Relaying, ''u'', 0)]"
      "map length (st_channels (sys_app w)) = [1]"
      "map length (st_channels (snd (session_step demo_web (demo_env ''n'') (Recv (NextMsg (MText ''chat''))) (sys_sessions w ! 0) (sys_app w)))) = [2]"
    by (rule demo_member)
  obtain l l' where l: "st_channels (sys_app w) = [l]" "length l = 1" "length l' = 2"
      "st_channels (snd (session_step demo_web (demo_env ''n'') (Recv (NextMsg (MText ''chat''))) (sys_sessions w ! 0) (sys_app w))) = [l']"
    using w(3,4) by auto
  have "l' \<noteq> l" using l(2,3) by auto
  have n: "0 < length (sys_sessions w)" "length (sys_sessions w) = 1" using w(2) by auto
  show ?thesis
    using room_isolation [OF w(1) n(1) surjective_pairing, where env = "demo_env ''n''"
        and i = "Recv (NextMsg (MText ''chat''))" and c = 0] l(1,4) \<open>l' \<noteq> l\<close> w(1) n(2)
    by (intro exI [of _ w]) auto
qed

text \<open>The client of the member is gone; the backend ends its session.\<close>

theorem gone_session_ends_witness:
  "\<exists>w w'. ss_phase (sys_sessions w ! 0) = Relaying \<and> gone_run demo_web 0 27 w w' \<and> ss_phase (sys_sessions w' ! 0) = Done"
proof -
  obtain w where w: "sys_reach demo_web w"
      "map (\<lambda>s. (ss_phase s, ss_conn_id s, fst (ss_rx s))) (sys_sessions w) = [(Relaying, ''u'', 0)]"
    by (rule demo_member)
  have n: "0 < length (sys_sessions w)" "ss_phase (sys_sessions w ! 0) = Relaying" using w(2) by auto
  obtain w' where run: "gone_run demo_web 0 27 w w'" using gone_run_exists by blast
  from gone_session_ends [OF w(1) n(1) run] run n(2) show ?thesis by blast
qed

text \<open>Two clients enter a room without a password; the first one says something.\<close>

definition open_start :: system where
  "open_start = demo_connect (demo_connect (sys_new
     (demo_database\<lparr>db_rows := [(''r'', \<lparr>row_created_at = 10, row_last_activity = 10, row_password_hash = None\<rparr>)]\<rparr>)
     sample_config))"

definition open_enter :: "(nat \<times> string \<times> ws_input) list" where
  "open_enter = [(0, ''n'', Proceed), (0, ''u'', Proceed), (0, ''n'', Proceed), (0, ''n'', Recv (NextMsg (MText ''keys''))),
     (0, ''n'', Proceed), (0, ''n'', Proceed), (1, ''n'', Proceed), (1, ''v'', Proceed), (1, ''n'', Proceed),
     (1, ''n'', Recv (NextMsg (MText ''keys''))), (1, ''n'', Proceed), (1, ''n'', Proceed), (1, ''n'', Proceed)]"

lemma open_run:
  "map_option (\<lambda>w. (map (\<lambda>s. (ss_phase s, ss_conn_id s, ss_room_id s, ss_rx s)) (sys_sessions w),
      map_option rm_tx (map_of (st_rooms (sys_app w)) ''r''), map length (st_channels (sys_app w)),
      ss_limiter (sys_sessions w ! 0)))
     (demo_run open_enter open_start)
   = Some ([(Relaying, ''u'', ''r'', (0, 0)), (Relaying, ''v'', ''r'', (0, 1))], Some 0, [2], rate_limiter_new 60 30 0)"
  by code_simp

lemma fresh_limiter: "fst (rate_limiter_check now (rate_limiter_new 60 30 t))"
  using refilled_lower [of 60 60 30 "saturating_duration_since now t"]
    secs_nonneg [of "saturating_duration_since now t"]
  by (auto simp: rate_limiter_check_eq rate_limiter_new_def)

lemma open_start_reach: "sys_reach demo_web open_start"
  unfolding open_start_def by (intro demo_connect_reach sys_reach.start) (simp add: db_inv_def demo_database_def)

theorem message_delivered_witness:
  "\<exists>w (w' :: system). sys_reach demo_web w \<and> map ss_phase (sys_sessions w) = [Relaying, Relaying]
    \<and> FText (outgoing_json (OutMessage ''u'' ''hi'' None None)) \<in> set (ss_sent (sys_sessions w' ! 1))"
proof -
  obtain w where run: "demo_run open_enter open_start = Some w"
    using open_run by (cases "demo_run open_enter open_start") simp_all
  have v: "map (\<lambda>s. (ss_phase s, ss_conn_id s, ss_room_id s, ss_rx s)) (sys_sessions w)
        = [(Relaying, ''u'', ''r'', (0, 0)), (Relaying, ''v'', ''r'', (0, 1))]"
      "map_option rm_tx (map_of (st_rooms (sys_app w)) ''r'') = Some 0" "map length (st_channels (sys_app w)) = [2]"
      "fst (rate_limiter_check 0 (ss_limiter (sys_sessions w ! 0)))"
    using open_run run fresh_limiter by simp_all
  obtain s0 s1 where s: "sys_sessions w = [s0, s1]" "ss_phase s0 = Relaying" "ss_conn_id s0 = ''u''" "ss_room_id s0 = ''r''"
      "ss_phase s1 = Relaying" "ss_conn_id s1 = ''v''" "ss_room_id s1 = ''r''" "ss_rx s1 = (0, 1)"
    using v(1) by auto
  obtain room where room: "map_of (st_rooms (sys_app w)) ''r'' = Some room" "rm_tx room = 0" using v(2) by auto
  have len: "length (st_channels (sys_app w) ! 0) = 2" using v(3) by (cases "st_channels (sys_app w)") auto
  have reach: "sys_reach demo_web w"
    by (rule demo_run_reach [OF open_start_reach run])
  have said: "Option.bind (web_json demo_web ''chat'') decode_incoming = Some (InMessage (Some ''hi'') None None)" by code_simp
  obtain s' st where step: "session_step demo_web (demo_env ''n'') (Recv (NextMsg (MText ''chat''))) (sys_sessions w ! 0) (sys_app w) = (s', st)"
    by fastforce
  obtain w' where read: "reading_run demo_web 1 2 (w\<lparr>sys_app := st, sys_sessions := (sys_sessions w)[0 := s']\<rparr>) w'"
    using reading_run_exists by blast
  have "env_uuid (demo_env ''n'') \<notin> known_ids w" using s by (simp add: demo_env_def known_ids_def)
  from message_delivered [OF reach _ _ _ _ _ _ _ room(1) this _ said step read] s room(2) len v(4)
  have "FText (outgoing_json (OutMessage ''u'' ''hi'' None None)) \<in> set (ss_sent (sys_sessions w' ! 1))"
    by (simp add: demo_env_def del: outgoing_json.simps)
  moreover have "map ss_phase (sys_sessions w) = [Relaying, Relaying]" using s by simp
  ultimately show ?thesis
    by (rule_tac exI [of _ w], rule_tac exI [of _ w'], intro conjI reach)
qed

text \<open>The room of the two members expires.\<close>

lemma open_expiry:
  "map_option (\<lambda>w. fst (expire_inactive_rooms (sample_call 5000) 3600 (sys_app w))) (demo_run open_enter open_start)
   = Some (Inr [''r''])"
  by code_simp

theorem expiry_final_witness:
  "\<exists>w w' ids. sys_reach demo_web w \<and> fst (expire_inactive_rooms (sample_call 5000) 3600 (sys_app w)) = Inr ids
    \<and> sys_exec demo_web [demo_connection, MaintenanceTick 9]
        (w\<lparr>sys_app := snd (expire_inactive_rooms (sample_call 5000) 3600 (sys_app w))\<rparr>) = Some w'
    \<and> join ''r'' ''u'' sample_participant 16 (sys_app w') = (RoomGone, sys_app w')"
proof -
  obtain w where run: "demo_run open_enter open_start = Some w"
    using open_run by (cases "demo_run open_enter open_start") simp_all
  have reach: "sys_reach demo_web w" by (rule demo_run_reach [OF open_start_reach run])
  obtain st where purge: "expire_inactive_rooms (sample_call 5000) 3600 (sys_app w) = (Inr [''r''], st)"
    using open_expiry run by (cases "expire_inactive_rooms (sample_call 5000) 3600 (sys_app w)") simp
  obtain w' where w': "sys_exec demo_web [demo_connection, MaintenanceTick 9] (w\<lparr>sys_app := st\<rparr>) = Some w'"
    by (simp add: demo_connect_event)
  have fresh: "\<forall>e \<in> set [demo_connection, MaintenanceTick 9]. creates_id e \<noteq> Some ''r''" by (simp add: demo_connection_def)
  have mem: "''r'' \<in> set [''r'']" by simp
  note final = conjunct2 [OF expiry_final [OF reach purge, where cid = "''u''" and p = sample_participant and n = 16]]
  from final [THEN spec, THEN spec, THEN spec, THEN mp, OF mem, THEN mp, OF w', THEN mp, OF fresh]
  have "join ''r'' ''u'' sample_participant 16 (sys_app w') = (RoomGone, sys_app w')" by blast
  moreover have "fst (expire_inactive_rooms (sample_call 5000) 3600 (sys_app w)) = Inr [''r'']"
      "snd (expire_inactive_rooms (sample_call 5000) 3600 (sys_app w)) = st"
    using purge by simp_all
  ultimately show ?thesis
    using reach w' by (intro exI [of _ w] exI [of _ w'] exI [of _ "[''r'']"]) (simp only: simp_thms)
qed

theorem expiry_reaches_members_witness:
  "\<exists>w (w' :: system). sys_reach demo_web w \<and> map ss_phase (sys_sessions w) = [Relaying, Relaying]
    \<and> reading_run demo_web 1 3 (w\<lparr>sys_app := snd (cleanup_tick 3600 (sample_call 5000) (sys_app w))\<rparr>) w'
    \<and> FText (outgoing_json OutRoomExpired) \<in> set (ss_sent (sys_sessions w' ! 1))
    \<and> ss_phase (sys_sessions w' ! 1) \<in> {Detaching, Done}"
proof -
  obtain w where run: "demo_run open_enter open_start = Some w"
    using open_run by (cases "demo_run open_enter open_start") simp_all
  have v: "map (\<lambda>s. (ss_phase s, ss_conn_id s, ss_room_id s, ss_rx s)) (sys_sessions w)
        = [(Relaying, ''u'', ''r'', (0, 0)), (Relaying, ''v'', ''r'', (0, 1))]"
      "map_option rm_tx (map_of (st_rooms (sys_app w)) ''r'') = Some 0" "map length (st_channels (sys_app w)) = [2]"
    using open_run run by simp_all
  obtain s0 s1 where s: "sys_sessions w = [s0, s1]" "ss_phase s0 = Relaying" "ss_phase s1 = Relaying"
      "ss_room_id s1 = ''r''" "ss_rx s1 = (0, 1)"
    using v(1) by auto
  obtain room where room: "map_of (st_rooms (sys_app w)) ''r'' = Some room" "rm_tx room = 0" using v(2) by auto
  have len: "length (st_channels (sys_app w) ! 0) = 2" using v(3) by (cases "st_channels (sys_app w)") auto
  have reach: "sys_reach demo_web w"
    by (rule demo_run_reach [OF open_start_reach run])
  obtain st where purge: "expire_inactive_rooms (sample_call 5000) 3600 (sys_app w) = (Inr [''r''], st)"
    using open_expiry run by (cases "expire_inactive_rooms (sample_call 5000) 3600 (sys_app w)") simp
  obtain w' where read: "reading_run demo_web 1 3 (w\<lparr>sys_app := snd (cleanup_tick 3600 (sample_call 5000) (sys_app w))\<rparr>) w'"
    using reading_run_exists by blast
  have "FText (outgoing_json OutRoomExpired) \<in> set (ss_sent (sys_sessions w' ! 1))
      \<and> ss_phase (sys_sessions w' ! 1) \<in> {Detaching, Done}"
    by (rule expiry_reaches_members [OF reach _ _ _ room(1) purge _ read]) (use s room(2) len in simp_all)
  moreover have "map ss_phase (sys_sessions w) = [Relaying, Relaying]" using s by simp
  ultimately show ?thesis
    by (intro exI [of _ w] exI [of _ w'] conjI reach read) simp_all
qed

text \<open>The client of the protected room answers each request of the server and enters.\<close>

fun honest_exec :: "string list \<Rightarrow> system \<Rightarrow> system option" where
  "honest_exec [] w = Some w"
| "honest_exec (uuid # us) w =
     (let s = sys_sessions w ! 0
      in if uuid \<noteq> [] \<and> uuid \<notin> ss_conn_id ` set (sys_sessions w) \<and> admits (demo_env uuid) s (sys_app w)
         then honest_exec us (demo_react 0 uuid (honest_input ''auth'' ''keys'' (ss_phase s)) w) else None)"

lemma honest_exec_run:
  "honest_run demo_web ''auth'' ''keys'' 0 k w w1 \<Longrightarrow> honest_exec us w1 = Some w'
   \<Longrightarrow> honest_run demo_web ''auth'' ''keys'' 0 (k + length us) w w'"
proof (induction us arbitrary: k w1)
  case (Cons uuid us)
  let ?s = "sys_sessions w1 ! 0"
  have ok: "env_uuid (demo_env uuid) \<notin> known_ids w1" "env_send (demo_env uuid) 0" "admits (demo_env uuid) ?s (sys_app w1)"
    using Cons.prems(2) by (auto simp: demo_env_def known_ids_def Let_def split: if_splits)
  obtain s st where step: "session_step demo_web (demo_env uuid) (honest_input ''auth'' ''keys'' (ss_phase ?s)) ?s (sys_app w1) = (s, st)"
    by fastforce
  have "honest_run demo_web ''auth'' ''keys'' 0 (Suc k) w (demo_react 0 uuid (honest_input ''auth'' ''keys'' (ss_phase ?s)) w1)"
    using honest_run.honest [OF Cons.prems(1) ok refl step] step by (simp add: demo_react_def)
  from Cons.IH [OF this] Cons.prems(2) show ?case by (simp add: Let_def split: if_splits)
qed simp

lemma honest_demo:
  "map_option (\<lambda>w. map ss_phase (sys_sessions w))
     (honest_exec [''n'', ''n'', ''n'', ''n'', ''u'', ''n'', ''n'', ''n'', ''n'', ''n''] demo_start) = Some [Relaying]"
  by code_simp

lemma demo_start_session:
  "map (\<lambda>s. (ss_phase s, honest_client demo_web ''auth'' ''keys'' s)) (sys_sessions demo_start) = [(Opening, True)]"
  by code_simp

theorem honest_client_enters_witness:
  "\<exists>w'. honest_run demo_web ''auth'' ''keys'' 0 25 demo_start w' \<and> ss_phase (sys_sessions demo_start ! 0) = Opening
    \<and> ss_phase (sys_sessions w' ! 0) = Relaying"
proof -
  obtain w where w: "honest_exec [''n'', ''n'', ''n'', ''n'', ''u'', ''n'', ''n'', ''n'', ''n'', ''n''] demo_start = Some w"
      "map ss_phase (sys_sessions w) = [Relaying]"
    using honest_demo by auto
  obtain s0 where s0: "sys_sessions demo_start = [s0]" "ss_phase s0 = Opening" "honest_client demo_web ''auth'' ''keys'' s0"
    using demo_start_session by auto
  have "honest_run demo_web ''auth'' ''keys'' 0 10 demo_start w"
    using honest_exec_run [OF honest_run.here w(1)] by (simp add: eval_nat_numeral)
  moreover have "0 < length (sys_sessions w)" "ss_phase (sys_sessions w ! 0) = Relaying" using w(2) by auto
  ultimately obtain w' where w': "honest_run demo_web ''auth'' ''keys'' 0 25 demo_start w'"
    using honest_run_goes_on [where j = 15 and k = 10] by fastforce
  from honest_client_enters [OF demo_start_reach _ _ _ this] s0 w' show ?thesis by auto
qed

end
