(* ===== verification/App.thy ===== *)
theory App
imports System
begin

text \<open>
  The router of \<open>src/lib.rs\<close> and the start-up of \<open>src/main.rs\<close>. \<open>app\<close> builds a table of routes and the
  layers around it; what \<open>axum\<close> and \<open>tower_http\<close> do with them (matching a path, the extractors, the
  preflight of CORS) is a parameter. \<open>serve\<close> is one request through the layers; \<open>start_up\<close> is \<open>main\<close> up to
  the first request, every \<open>expect\<close> of it an outcome.
\<close>

section \<open>Requests, responses, routes\<close>

datatype http_method = GET | POST | Method string

text \<open>\<open>rq_peer\<close> is the address that \<open>ConnectInfo\<close> gives.\<close>

record http_request =
  rq_method :: http_method
  rq_path :: string
  rq_headers :: header_map
  rq_body :: string
  rq_peer :: ip_addr

datatype body = BJson json | BText string

definition into_response :: "json response \<Rightarrow> body response" where
  "into_response r = \<lparr>rsp_status = rsp_status r, rsp_headers = rsp_headers r, rsp_body = BJson (rsp_body r)\<rparr>"

datatype endpoint = CreateRoom | GetRoom | WsHandler | Health

type_synonym route = "string \<times> http_method \<times> endpoint"

record cors_layer =
  cors_origins :: "string list"
  cors_methods :: "http_method list"
  cors_headers :: "string list"

record router =
  rt_routes :: "route list"
  rt_body_limit :: nat
  rt_cors :: cors_layer

section \<open>The application\<close>

text \<open>\<open>s.parse::<HeaderValue>().expect("validated origin")\<close> for every origin; \<open>None\<close> is the panic.\<close>

definition cors_layer_of :: "http_lib \<Rightarrow> config \<Rightarrow> cors_layer option" where
  "cors_layer_of lib cfg =
     map_option (\<lambda>origins. \<lparr>cors_origins = origins, cors_methods = [GET, POST], cors_headers = [''content-type'']\<rparr>)
       (collect_options (map (\<lambda>s. if lib_header_value_ok lib s then Some s else None) (cfg_allowed_origins cfg)))"

definition routes :: "route list" where
  "routes =
     [(''/api/rooms'', POST, CreateRoom),
      (''/api/rooms/:id'', GET, GetRoom),
      (''/ws/:room_id'', GET, WsHandler),
      (''/health'', GET, Health)]"

definition app :: "http_lib \<Rightarrow> app_state \<Rightarrow> router option" where
  "app lib state =
     (case cors_layer_of lib (st_config state) of
        None \<Rightarrow> None
      | Some cors \<Rightarrow> Some \<lparr>rt_routes = routes, rt_body_limit = 4096, rt_cors = cors\<rparr>)"

section \<open>A request\<close>

text \<open>
  What the crates do: the route that a request takes, or the answer when there is none; the extractors
  \<open>Path<String>\<close>, \<open>Bytes\<close> under a limit and \<open>WebSocketUpgrade\<close>, or their rejections; the answer that
  accepts an upgrade, given the largest message and the largest frame; the CORS layer, which answers a
  preflight itself and adds headers to other answers.
\<close>

record axum_lib =
  ax_dispatch :: "route list \<Rightarrow> http_request \<Rightarrow> body response + route"
  ax_path :: "string \<Rightarrow> string \<Rightarrow> body response + string"
  ax_bytes :: "nat \<Rightarrow> http_request \<Rightarrow> body response + string"
  ax_upgrade :: "http_request \<Rightarrow> body response option"
  ax_on_upgrade :: "u64 \<Rightarrow> u64 \<Rightarrow> http_request \<Rightarrow> body response"
  ax_preflight :: "cors_layer \<Rightarrow> http_request \<Rightarrow> body response option"
  ax_cors :: "cors_layer \<Rightarrow> http_request \<Rightarrow> header_map"

text \<open>What the environment supplies: as for the step of a session, the salt, and whether the job panics.\<close>

record request_env =
  re_env :: step_env
  re_salt :: string
  re_panics :: bool

text \<open>
  One handler with its extractors, in the order of its arguments. \<open>create_room\<close> is taken as a whole here;
  with other requests in between it is the two parts of \<open>System\<close>.
\<close>

definition call_endpoint ::
  "axum_lib \<Rightarrow> web_lib \<Rightarrow> request_env \<Rightarrow> nat \<Rightarrow> http_request \<Rightarrow> route \<Rightarrow> system \<Rightarrow> body response \<times> system" where
  "call_endpoint ax lib env limit rq r w =
     (case r of (pattern, _, endpoint) \<Rightarrow>
       (case endpoint of
          CreateRoom \<Rightarrow>
            (case ax_bytes ax limit rq of
               Inl rejection \<Rightarrow> (rejection, w)
             | Inr content \<Rightarrow>
                 (case create_room_handler lib (rq_peer rq) (rq_headers rq) content (env_now (re_env env))
                     (re_salt env) (re_panics env) (env_uuid (re_env env)) (env_call (re_env env)) (sys_app w) of
                    (resp, st) \<Rightarrow> (into_response resp, w\<lparr>sys_app := st\<rparr>)))
        | GetRoom \<Rightarrow>
            (case ax_path ax pattern (rq_path rq) of
               Inl rejection \<Rightarrow> (rejection, w)
             | Inr room_id \<Rightarrow> (into_response (get_room (env_call (re_env env)) room_id (sys_app w)), w))
        | WsHandler \<Rightarrow>
            (case ax_upgrade ax rq of
               Some rejection \<Rightarrow> (rejection, w)
             | None \<Rightarrow>
                 (case ax_path ax pattern (rq_path rq) of
                    Inl rejection \<Rightarrow> (rejection, w)
                  | Inr room_id \<Rightarrow>
                      (case ws_handler lib (re_env env) (rq_peer rq) (rq_headers rq) room_id (sys_app w) of
                         (Inl resp, st) \<Rightarrow> (into_response resp, w\<lparr>sys_app := st\<rparr>)
                       | (Inr s, st) \<Rightarrow>
                           (ax_on_upgrade ax max_message_bytes max_message_bytes rq, w\<lparr>sys_app := st, sys_sessions := sys_sessions w @ [s]\<rparr>))))
        | Health \<Rightarrow>
            (\<lparr>rsp_status = 200, rsp_headers = [(''content-type'', ''text/plain; charset=utf-8'')],
              rsp_body = BText ''OK''\<rparr>, w)))"

text \<open>The layers, the last one outermost: CORS, then the security headers, then the routes.\<close>

definition serve ::
  "axum_lib \<Rightarrow> web_lib \<Rightarrow> request_env \<Rightarrow> router \<Rightarrow> http_request \<Rightarrow> system \<Rightarrow> body response \<times> system" where
  "serve ax lib env rt rq w =
     (case ax_preflight ax (rt_cors rt) rq of
        Some answer \<Rightarrow> (answer, w)
      | None \<Rightarrow>
          (case (case ax_dispatch ax (rt_routes rt) rq of
                   Inl answer \<Rightarrow> (answer, w)
                 | Inr r \<Rightarrow> call_endpoint ax lib env (rt_body_limit rt) rq r w) of
             (answer, w') \<Rightarrow>
               (let secured = security_headers (\<lambda>_. answer) rq_path rq
                in (secured\<lparr>rsp_headers := rsp_headers secured @ ax_cors ax (rt_cors rt) rq\<rparr>, w'))))"

section \<open>Start-up\<close>

datatype start_failure = BadConfig | BadDatabase | BadOrigin | CannotBind

text \<open>\<open>sv_cleanup\<close> and \<open>sv_expiry\<close> are the period and the threshold of the spawned cleanup task.\<close>

record server =
  sv_addr :: "ip_addr \<times> u16"
  sv_router :: router
  sv_system :: system
  sv_cleanup :: "u64 option"
  sv_expiry :: i64

text \<open>
  \<open>main\<close>: \<open>opens\<close> is the database behind a URL, \<open>fail_at\<close> the statement of the migration that fails,
  \<open>binds\<close> whether an address can be bound.
\<close>

definition start_up ::
  "http_lib \<Rightarrow> environment \<Rightarrow> (string \<Rightarrow> database option) \<Rightarrow> nat option \<Rightarrow> (ip_addr \<times> u16 \<Rightarrow> bool)
   \<Rightarrow> start_failure + server" where
  "start_up lib env opens fail_at binds =
     (case from_env lib env of
        None \<Rightarrow> Inl BadConfig
      | Some cfg \<Rightarrow>
          let addr = (cfg_bind_address cfg, cfg_port cfg) in
          (case init_pool fail_at (opens (cfg_database_url cfg)) of
             Inl _ \<Rightarrow> Inl BadDatabase
           | Inr pool \<Rightarrow>
               let w = sys_new pool cfg in
               (case app lib (sys_app w) of
                  None \<Rightarrow> Inl BadOrigin
                | Some rt \<Rightarrow>
                    if \<not> binds addr then Inl CannotBind
                    else Inr \<lparr>sv_addr = addr, sv_router = rt, sv_system = w, sv_cleanup = cleanup_period cfg,
                      sv_expiry = inactivity_expiry_secs cfg\<rparr>)))"

section \<open>What the crates document\<close>

text \<open>
  \<open>axum\<close>: a request takes a route of the table, of its own method (a \<open>GET\<close> route also answers \<open>HEAD\<close>),
  whose literal segments its path starts with. \<open>Bytes\<close> yields the body when it is within the limit. The
  CORS layer only adds the headers of the CORS protocol and \<open>vary\<close>.
\<close>

definition literal_prefix :: "string \<Rightarrow> string" where
  "literal_prefix pattern = takeWhile (\<lambda>c. c \<noteq> CHR '':'') pattern"

definition routes_sound :: "axum_lib \<Rightarrow> bool" where
  "routes_sound ax \<longleftrightarrow>
     (\<forall>table rq p m e. ax_dispatch ax table rq = Inr (p, m, e) \<longrightarrow>
        (p, m, e) \<in> set table \<and> (rq_method rq = m \<or> m = GET \<and> rq_method rq = Method ''HEAD'')
        \<and> starts_with (rq_path rq) (literal_prefix p))"

definition bytes_limited :: "axum_lib \<Rightarrow> bool" where
  "bytes_limited ax \<longleftrightarrow>
     (\<forall>limit rq content. ax_bytes ax limit rq = Inr content \<longrightarrow> content = rq_body rq \<and> length content \<le> limit)"

definition cors_adds_only :: "axum_lib \<Rightarrow> bool" where
  "cors_adds_only ax \<longleftrightarrow>
     (\<forall>cors rq h. h \<in> set (ax_cors ax cors rq) \<longrightarrow> starts_with (fst h) ''access-control-'' \<or> fst h = ''vary'')"

text \<open>An instance: a router by first match on method and literal prefix, no CORS headers, no upgrades refused.\<close>

definition sample_axum :: axum_lib where
  "sample_axum =
     \<lparr>ax_dispatch = (\<lambda>table rq.
        case find (\<lambda>(p, m, _). rq_method rq = m \<and> starts_with (rq_path rq) (literal_prefix p)) table of
          Some r \<Rightarrow> Inr r
        | None \<Rightarrow> Inl \<lparr>rsp_status = 404, rsp_headers = [], rsp_body = BText []\<rparr>),
      ax_path = (\<lambda>p path. Inr (drop (length (literal_prefix p)) path)),
      ax_bytes = (\<lambda>limit rq. if length (rq_body rq) \<le> limit then Inr (rq_body rq)
        else Inl \<lparr>rsp_status = 413, rsp_headers = [], rsp_body = BText []\<rparr>),
      ax_upgrade = (\<lambda>_. None),
      ax_on_upgrade = (\<lambda>_ _ _. \<lparr>rsp_status = 101, rsp_headers = [], rsp_body = BText []\<rparr>),
      ax_preflight = (\<lambda>_ rq. if rq_method rq = Method ''OPTIONS''
        then Some \<lparr>rsp_status = 200, rsp_headers = [], rsp_body = BText []\<rparr> else None),
      ax_cors = (\<lambda>cors rq. if header_get (rq_headers rq) ''origin'' \<in> Some ` set (cors_origins cors)
        then [(''access-control-allow-origin'', the (header_get (rq_headers rq) ''origin'')), (''vary'', ''origin'')]
        else [(''vary'', ''origin'')])\<rparr>"

lemma sample_axum_documented: "routes_sound sample_axum" "bytes_limited sample_axum" "cors_adds_only sample_axum"
proof -
  have found: "r \<in> set table \<and> P r" if "find P table = Some r" for P and r :: route and table
    using that by (auto simp: find_Some_iff)
  show "routes_sound sample_axum"
    unfolding routes_sound_def
  proof (intro allI impI)
    fix table rq p m e
    assume "ax_dispatch sample_axum table rq = Inr (p, m, e)"
    then have "find (\<lambda>(p, m, _). rq_method rq = m \<and> starts_with (rq_path rq) (literal_prefix p)) table = Some (p, m, e)"
      by (simp add: sample_axum_def split: option.splits)
    from found [OF this] show "(p, m, e) \<in> set table \<and> (rq_method rq = m \<or> m = GET \<and> rq_method rq = Method ''HEAD'')
        \<and> starts_with (rq_path rq) (literal_prefix p)"
      by simp
  qed
  show "bytes_limited sample_axum" "cors_adds_only sample_axum"
    by (auto simp: bytes_limited_def cors_adds_only_def sample_axum_def starts_with_def split: if_splits)
qed

section \<open>The layers\<close>

lemma routesD:
  assumes "routes_sound ax" "ax_dispatch ax routes rq = Inr (p, m, e)"
  obtains "p = ''/api/rooms''" "e = CreateRoom" "rq_method rq = POST" "starts_with (rq_path rq) ''/api/rooms''"
  | "p = ''/api/rooms/:id''" "e = GetRoom" "starts_with (rq_path rq) ''/api/rooms''"
  | "p = ''/ws/:room_id''" "e = WsHandler" "rq_method rq \<noteq> POST" "starts_with (rq_path rq) ''/ws/''"
  | "p = ''/health''" "e = Health"
proof -
  have r: "(p, m, e) \<in> set routes" "rq_method rq = m \<or> m = GET \<and> rq_method rq = Method ''HEAD''"
      "starts_with (rq_path rq) (literal_prefix p)"
    using assms unfolding routes_sound_def by blast+
  have "starts_with (rq_path rq) (''/api/rooms'' @ ''/'') \<Longrightarrow> starts_with (rq_path rq) ''/api/rooms''"
    by (rule starts_with_appendD)
  then show thesis
    using r that by (auto simp: routes_def literal_prefix_def)
qed

lemma app_Some:
  assumes "app lib st = Some rt"
  shows "rt_routes rt = routes" "rt_body_limit rt = 4096" "cors_origins (rt_cors rt) = cfg_allowed_origins (st_config st)"
    "cors_methods (rt_cors rt) = [GET, POST]" "cors_headers (rt_cors rt) = [''content-type'']"
proof -
  obtain cors where c: "cors_layer_of lib (st_config st) = Some cors"
      and rt: "rt = \<lparr>rt_routes = routes, rt_body_limit = 4096, rt_cors = cors\<rparr>"
    using assms by (auto simp: app_def split: option.splits)
  obtain origins where o: "map (\<lambda>s. if lib_header_value_ok lib s then Some s else None) (cfg_allowed_origins (st_config st)) = map Some origins"
      and cors: "cors = \<lparr>cors_origins = origins, cors_methods = [GET, POST], cors_headers = [''content-type'']\<rparr>"
    using c by (auto simp: cors_layer_of_def collect_options_iff)
  have "origins = xs" if "map (\<lambda>s. if f s then Some s else None) xs = map Some origins" for f and xs :: "string list"
    using that by (induction xs arbitrary: origins) (auto split: if_splits)
  from this [OF o] show "rt_routes rt = routes" "rt_body_limit rt = 4096"
    "cors_origins (rt_cors rt) = cfg_allowed_origins (st_config st)"
    "cors_methods (rt_cors rt) = [GET, POST]" "cors_headers (rt_cors rt) = [''content-type'']"
    by (simp_all add: rt cors)
qed

text \<open>The panic \<open>validated origin\<close> needs an origin that \<open>from_env\<close> would have refused.\<close>

lemma app_never_panics:
  assumes "from_env lib env = Some cfg" "st_config st = cfg"
  shows "app lib st \<noteq> None"
proof -
  have "\<forall>s \<in> set (cfg_allowed_origins cfg). lib_header_value_ok lib s"
    using from_env_Some(2) [OF assms(1)] by (auto simp: origin_ok_def split: option.splits)
  then have "cors_layer_of lib cfg \<noteq> None"
    unfolding cors_layer_of_def by (auto simp: collect_options_None)
  then show ?thesis using assms(2) by (auto simp: app_def split: option.splits)
qed

lemma serve_inner:
  "ax_preflight ax (rt_cors rt) rq = Some answer \<Longrightarrow> serve ax lib env rt rq w = (answer, w)"
  "ax_preflight ax (rt_cors rt) rq = None \<Longrightarrow> ax_dispatch ax (rt_routes rt) rq = Inl answer
    \<Longrightarrow> snd (serve ax lib env rt rq w) = w \<and> rsp_status (fst (serve ax lib env rt rq w)) = rsp_status answer"
  "ax_preflight ax (rt_cors rt) rq = None \<Longrightarrow> ax_dispatch ax (rt_routes rt) rq = Inr r
    \<Longrightarrow> snd (serve ax lib env rt rq w) = snd (call_endpoint ax lib env (rt_body_limit rt) rq r w)
      \<and> rsp_status (fst (serve ax lib env rt rq w)) = rsp_status (fst (call_endpoint ax lib env (rt_body_limit rt) rq r w))"
  by (simp_all add: serve_def security_headers_def Let_def split: prod.splits)

lemma header_get_all_append [simp]: "header_get_all (hs @ hs') n = header_get_all hs n @ header_get_all hs' n"
  by (simp add: header_get_all_def)

lemma cors_adds_none:
  assumes "cors_adds_only ax" "\<not> starts_with n ''access-control-''" "n \<noteq> ''vary''"
  shows "header_get_all (ax_cors ax cors rq) n = []"
  using assms unfolding cors_adds_only_def header_get_all_def by (fastforce simp: filter_empty_conv)

lemma fixed_not_cors: "(n, v) \<in> set fixed_headers \<Longrightarrow> \<not> starts_with n ''access-control-'' \<and> n \<noteq> ''vary''"
  by (auto simp: fixed_headers_def starts_with_def)

text \<open>
  C18. Every answer but that of a CORS preflight, \<open>404\<close>, \<open>405\<close>, rejections and errors included, carries
  each of the security headers exactly once with the policy's value, whatever the handler and the CORS
  layer set; and the answers of the room and WebSocket routes are never stored by a cache.
\<close>

theorem responses_secured:
  assumes "app (web_http lib) st = Some rt" "routes_sound ax" "cors_adds_only ax"
    and "ax_preflight ax (rt_cors rt) rq = None" "serve ax lib env rt rq w = (r, w')"
  shows "(\<forall>(name, v) \<in> set fixed_headers. header_get_all (rsp_headers r) name = [v])
    \<and> (\<forall>pattern m endpoint. ax_dispatch ax (rt_routes rt) rq = Inr (pattern, m, endpoint) \<longrightarrow> endpoint \<noteq> Health
         \<longrightarrow> header_get_all (rsp_headers r) ''cache-control'' = [''no-store''])"
proof -
  obtain answer :: "body response" where r: "rsp_headers r =
      rsp_headers (security_headers (\<lambda>_. answer) rq_path rq) @ ax_cors ax (rt_cors rt) rq"
    using assms(4,5) by (auto simp: serve_def Let_def split: prod.splits)
  note get = security_headers_get(1) [of "\<lambda>_. answer" rq_path rq] and none = cors_adds_none [OF assms(3)]
  have "header_get_all (rsp_headers r) name = [v]" if "(name, v) \<in> set fixed_headers" for name v
    using that get [of name] none [of name] fixed_not_cors [OF that] fixed_headers_distinct(1)
    by (simp add: r map_of_is_SomeI)
  moreover have "header_get_all (rsp_headers r) ''cache-control'' = [''no-store'']"
    if "ax_dispatch ax (rt_routes rt) rq = Inr (p, m, e)" "e \<noteq> Health" for p m e
  proof -
    have "no_store (rq_path rq)"
      using that(2) by (rule_tac routesD [OF assms(2) that(1) [unfolded app_Some(1) [OF assms(1)]]])
        (auto simp: no_store_def)
    moreover have "map_of fixed_headers ''cache-control'' = None"
      using fixed_headers_distinct(2) by (simp add: map_of_eq_None_iff)
    ultimately show ?thesis
      using get [of "''cache-control''"] none [of "''cache-control''" "rt_cors rt" rq] by (simp add: r starts_with_def)
  qed
  ultimately show ?thesis by auto
qed

section \<open>What a request can do\<close>

lemma into_response_status [simp]: "rsp_status (into_response r) = rsp_status r"
  by (simp add: into_response_def)

lemma create_handler_frame:
  assumes "create_room_handler lib peer headers content now salt panics rid c st = (r, st')"
  shows "st_rooms st' = st_rooms st" "st_channels st' = st_channels st"
    "st_db st' \<noteq> st_db st \<Longrightarrow> rsp_status r = 200"
  using assms by (cases rule: handler_cases; simp add: created_response_def)+

lemma ws_handler_origin:
  "ws_handler lib env peer headers rid st = (Inr s, st')
    \<Longrightarrow> origin_allowed lib headers (cfg_allowed_origins (st_config st))"
  by (rule ccontr) (simp add: ws_handler_def)

lemma call_create_frame:
  assumes "bytes_limited ax" "call_endpoint ax lib env limit rq (p, m, CreateRoom) w = (r, w')"
  shows "sys_sessions w' = sys_sessions w" "st_rooms (sys_app w') = st_rooms (sys_app w)"
    "st_channels (sys_app w') = st_channels (sys_app w)"
    "st_db (sys_app w') \<noteq> st_db (sys_app w) \<Longrightarrow> length (rq_body rq) \<le> limit \<and> rsp_status r = 200"
  using assms create_handler_frame
  by (fastforce simp: call_endpoint_def bytes_limited_def split: sum.splits prod.splits)+

lemma call_ws_frame:
  assumes "call_endpoint ax lib env limit rq (p, m, WsHandler) w = (r, w')"
  shows "st_db (sys_app w') = st_db (sys_app w)" "st_rooms (sys_app w') = st_rooms (sys_app w)"
    "st_channels (sys_app w') = st_channels (sys_app w)"
    "sys_sessions w' = sys_sessions w \<or> (\<exists>s. sys_sessions w' = sys_sessions w @ [s])
      \<and> origin_allowed lib (rq_headers rq) (cfg_allowed_origins (st_config (sys_app w)))"
proof -
  have frame: "st_db st = st_db (sys_app w)" "st_rooms st = st_rooms (sys_app w)" "st_channels st = st_channels (sys_app w)"
    if "ws_handler lib (re_env env) (rq_peer rq) (rq_headers rq) rid (sys_app w) = (x, st)" for rid x st
    using ws_handler_state [OF that]
    by (metis app_state.ext_inject app_state.surjective app_state.update_convs(4))+
  show "st_db (sys_app w') = st_db (sys_app w)" "st_rooms (sys_app w') = st_rooms (sys_app w)"
    "st_channels (sys_app w') = st_channels (sys_app w)"
    "sys_sessions w' = sys_sessions w \<or> (\<exists>s. sys_sessions w' = sys_sessions w @ [s])
      \<and> origin_allowed lib (rq_headers rq) (cfg_allowed_origins (st_config (sys_app w)))"
    using assms frame ws_handler_origin
    by (auto simp: call_endpoint_def split: option.splits sum.splits prod.splits)
qed

text \<open>
  C17. What a request from outside can change: the database only by a \<open>POST\<close> under \<open>/api/rooms\<close> with at
  most 4096 bytes that is answered 200; the sessions only by a request under \<open>/ws/\<close> that is not a
  \<open>POST\<close> and comes from one of the origins that the CORS layer allows, which adds one session; rooms in
  memory and channels never. A preflight, a path without a route and \<open>/health\<close> change nothing at all.
\<close>

theorem requests_confined:
  assumes "app (web_http lib) (sys_app w) = Some rt" "routes_sound ax" "bytes_limited ax"
    and "serve ax lib env rt rq w = (r, w')"
  shows "(st_db (sys_app w') \<noteq> st_db (sys_app w) \<longrightarrow>
        rq_method rq = POST \<and> starts_with (rq_path rq) ''/api/rooms'' \<and> length (rq_body rq) \<le> 4096 \<and> rsp_status r = 200)
    \<and> (sys_sessions w' \<noteq> sys_sessions w \<longrightarrow>
        rq_method rq \<noteq> POST \<and> starts_with (rq_path rq) ''/ws/''
        \<and> origin_allowed lib (rq_headers rq) (cors_origins (rt_cors rt)) \<and> (\<exists>s. sys_sessions w' = sys_sessions w @ [s]))
    \<and> st_rooms (sys_app w') = st_rooms (sys_app w) \<and> st_channels (sys_app w') = st_channels (sys_app w)
    \<and> (w' \<noteq> w \<longrightarrow> starts_with (rq_path rq) ''/api/rooms'' \<or> starts_with (rq_path rq) ''/ws/'')"
proof -
  note inner = serve_inner [of ax rt rq, where lib = lib and env = env and w = w]
  have sv: "r = fst (serve ax lib env rt rq w)" "w' = snd (serve ax lib env rt rq w)" using assms(4) by simp_all
  show ?thesis
  proof (cases "ax_preflight ax (rt_cors rt) rq")
    case (Some a)
    then show ?thesis using inner(1) sv by simp
  next
    case None
    note pre = this
    show ?thesis
    proof (cases "ax_dispatch ax (rt_routes rt) rq")
      case (Inl a)
      then show ?thesis using inner(2) [OF pre] sv by simp
    next
      case (Inr route)
      obtain p m e where route: "route = (p, m, e)" by (cases route) auto
      then have disp: "ax_dispatch ax routes rq = Inr (p, m, e)" using Inr app_Some(1) [OF assms(1)] by simp
      have call: "w' = snd (call_endpoint ax lib env 4096 rq (p, m, e) w)"
          "rsp_status r = rsp_status (fst (call_endpoint ax lib env 4096 rq (p, m, e) w))"
        using inner(3) [OF pre Inr] app_Some(2) [OF assms(1)] sv route by auto
      show ?thesis
        using assms(2) disp
      proof (cases rule: routesD)
        case 1
        then have "call_endpoint ax lib env 4096 rq (p, m, CreateRoom) w
            = (fst (call_endpoint ax lib env 4096 rq (p, m, e) w), w')"
          using call(1) by (simp add: prod_eq_iff)
        from call_create_frame [OF assms(3) this] show ?thesis using 1(3,4) call(2) by simp
      next
        case 2
        then show ?thesis using call by (simp add: call_endpoint_def split: sum.splits)
      next
        case 3
        then have "call_endpoint ax lib env 4096 rq (p, m, WsHandler) w
            = (fst (call_endpoint ax lib env 4096 rq (p, m, e) w), w')"
          using call(1) by (simp add: prod_eq_iff)
        from call_ws_frame [OF this] show ?thesis using 3(3,4) app_Some(3) [OF assms(1)] by auto
      next
        case 4
        then show ?thesis using call by (simp add: call_endpoint_def)
      qed
    qed
  qed
qed

section \<open>Requests are steps of the system\<close>

lemma create_handler_steps:
  assumes fresh: "rid \<notin> known_rooms w"
    and run: "create_room_handler lib peer headers content now salt panics rid c (sys_app w) = (r, st)"
  shows "(sys_step lib)\<^sup>*\<^sup>* w (w\<lparr>sys_app := st\<rparr>)"
proof (cases "create_start lib peer headers content now rid c (sys_app w)")
  case (Pair x st1)
  show ?thesis
  proof (cases x)
    case (Inl e)
    then show ?thesis
      using run Pair sys_step.create [OF fresh, of lib peer headers content now c] by (auto simp: create_parts)
  next
    case (Inr pw)
    let ?w1 = "w\<lparr>sys_app := st1, sys_hashing := pw # sys_hashing w\<rparr>"
    have "sys_step lib w ?w1"
      using Pair Inr sys_step.hash [OF fresh, of lib peer headers content now c pw st1] by simp
    moreover have "create_finish lib salt panics pw rid c (sys_app ?w1) = (r, st)"
      using run Pair Inr by (simp add: create_parts)
    moreover have "rid \<notin> known_rooms ?w1" using fresh by (simp add: known_rooms_def)
    ultimately have "sys_step lib w ?w1" "sys_step lib ?w1 (w\<lparr>sys_app := st\<rparr>)"
      using sys_step.hashed [of rid ?w1 "[]" pw "sys_hashing w"] by fastforce+
    then show ?thesis by (meson converse_rtranclp_into_rtranclp r_into_rtranclp)
  qed
qed

lemma call_endpoint_steps:
  assumes "env_uuid (re_env env) \<notin> known_rooms w"
  shows "(sys_step lib)\<^sup>*\<^sup>* w (snd (call_endpoint ax lib env limit rq r w))"
  using create_handler_steps [OF assms]
  by (auto simp: call_endpoint_def split: prod.splits endpoint.splits sum.splits option.splits
      intro: r_into_rtranclp sys_step.connect sys_step.refuse)

text \<open>
  C16. Requests are steps: whatever a request does to the backend, in any layer or handler, from any state
  whatever, is a sequence of steps of the transition system from that state to the one it leaves behind.
  So a request does nothing to the sessions, the rooms, the counters or the jobs that those steps do not
  do, and every property of steps and of reachable states holds across the requests the server answers.
\<close>

theorem requests_are_steps:
  assumes "env_uuid (re_env env) \<notin> known_rooms w"
  shows "(sys_step lib)\<^sup>*\<^sup>* w (snd (serve ax lib env rt rq w))"
proof (cases "ax_preflight ax (rt_cors rt) rq")
  case (Some a)
  then show ?thesis using serve_inner(1) by simp
next
  case None
  note pre = this
  show ?thesis
  proof (cases "ax_dispatch ax (rt_routes rt) rq")
    case (Inl a)
    then show ?thesis using serve_inner(2) [OF pre] by simp
  next
    case (Inr r)
    then show ?thesis
      using serve_inner(3) [OF pre Inr] call_endpoint_steps [OF assms] by simp
  qed
qed

section \<open>Start-up\<close>

lemma init_pool_ok:
  assumes "init_pool fail_at opened = Inr pool" "\<And>db. opened = Some db \<Longrightarrow> db_wf db \<and> db_inv db"
  obtains db where "opened = Some db" "db_rows pool = db_rows db" "db_inv pool"
    "has_columns pool [''id'', ''created_at'', ''last_activity'', ''password_hash'']"
proof -
  obtain db where db: "opened = Some db" "run_migrations fail_at db = (Inr (), pool)"
    using assms(1) by (auto simp: init_pool_def split: option.splits sum.splits prod.splits)
  then show thesis
    using that [of db] run_migrations_ok [OF _ db(2)] assms(2) by (simp add: db_inv_def)
qed

text \<open>
  C15. Start-up: \<open>main\<close> fails exactly for a bad configuration, a database that cannot be opened or
  migrated, or an address that cannot be bound, in this order; the \<open>expect("validated origin")\<close> of the
  router never fails. Otherwise, and only then, it serves an initial state of the transition system, on the
  configured address, which it has bound, with every row of the database kept and all the columns there
  that the queries use; the cleanup task has the period and the threshold of the configuration; and a
  browser's CORS check and the origin check of the WebSocket handler know the same origins, those of the
  configuration.
\<close>

theorem start_up_sound:
  assumes "\<And>url db. opens url = Some db \<Longrightarrow> db_wf db \<and> db_inv db"
  shows "case start_up (web_http lib) env opens fail_at binds of
      Inl f \<Rightarrow>
        (case f of
           BadConfig \<Rightarrow> from_env (web_http lib) env = None
         | BadDatabase \<Rightarrow> \<exists>cfg e. from_env (web_http lib) env = Some cfg \<and> init_pool fail_at (opens (cfg_database_url cfg)) = Inl e
         | BadOrigin \<Rightarrow> False
         | CannotBind \<Rightarrow> \<exists>cfg pool. from_env (web_http lib) env = Some cfg
             \<and> init_pool fail_at (opens (cfg_database_url cfg)) = Inr pool \<and> \<not> binds (cfg_bind_address cfg, cfg_port cfg))
    | Inr sv \<Rightarrow>
        \<exists>cfg db pool. from_env (web_http lib) env = Some cfg \<and> opens (cfg_database_url cfg) = Some db
          \<and> init_pool fail_at (Some db) = Inr pool \<and> binds (cfg_bind_address cfg, cfg_port cfg)
          \<and> sv_addr sv = (cfg_bind_address cfg, cfg_port cfg) \<and> sv_system sv = sys_new pool cfg
          \<and> sv_cleanup sv = interval_new (cfg_cleanup_interval_mins cfg * 60) \<and> sv_expiry sv = inactivity_expiry_secs cfg
          \<and> sys_reach lib (sv_system sv) \<and> db_rows pool = db_rows db
          \<and> has_columns pool [''id'', ''created_at'', ''last_activity'', ''password_hash'']
          \<and> app (web_http lib) (sys_app (sv_system sv)) = Some (sv_router sv)
          \<and> cors_origins (rt_cors (sv_router sv)) = cfg_allowed_origins (st_config (sys_app (sv_system sv)))
          \<and> cfg_allowed_origins (st_config (sys_app (sv_system sv))) = allowed_origins_of env"
proof (cases "from_env (web_http lib) env")
  case None
  then show ?thesis by (simp add: start_up_def)
next
  case (Some cfg)
  note cfg = this
  show ?thesis
  proof (cases "init_pool fail_at (opens (cfg_database_url cfg))")
    case (Inl e)
    then show ?thesis using cfg by (simp add: start_up_def)
  next
    case (Inr pool)
    have st: "st_config (app_state_new pool cfg) = cfg" "st_db (app_state_new pool cfg) = pool"
      by (simp_all add: app_state_new_def)
    obtain rt where rt: "app (web_http lib) (app_state_new pool cfg) = Some rt"
      using app_never_panics [OF cfg st(1)] by blast
    obtain db where db: "opens (cfg_database_url cfg) = Some db" "db_rows pool = db_rows db" "db_inv pool"
        "has_columns pool [''id'', ''created_at'', ''last_activity'', ''password_hash'']"
      using assms by (rule_tac init_pool_ok [OF Inr]) blast+
    show ?thesis
      using cfg Inr rt db app_Some(3) [OF rt] from_env_Some(1) [OF cfg] sys_reach.start [OF db(3)]
      by (simp add: start_up_def st cleanup_period_def Let_def)
  qed
qed

section \<open>A server\<close>

definition sample_http :: http_lib where
  "sample_http = ascii_lib\<lparr>lib_parse_uri := (\<lambda>s.
     if s = ''https://parrhesia.chat''
     then Some \<lparr>uri_scheme = Some ''https'', uri_authority = Some ''parrhesia.chat'', uri_path = ''/'', uri_query = None\<rparr>
     else None)\<rparr>"

definition sample_web :: web_lib where
  "sample_web = \<lparr>web_http = sample_http, web_crypto = toy_lib, web_json = (\<lambda>_. None), web_base64 = (\<lambda>_. None)\<rparr>"

definition default_config :: config where
  "default_config = sample_config\<lparr>cfg_database_url := ''sqlite:./parrhesia.db?mode=rwc''\<rparr>"

definition migrated :: database where
  "migrated = snd (run_migrations None old_database)"

definition sample_system :: system where
  "sample_system = sys_new migrated default_config"

definition sample_router :: router where
  "sample_router = \<lparr>rt_routes = routes, rt_body_limit = 4096, rt_cors = \<lparr>cors_origins = [''https://parrhesia.chat''],
     cors_methods = [GET, POST], cors_headers = [''content-type'']\<rparr>\<rparr>"

definition sample_request_env :: request_env where
  "sample_request_env = \<lparr>re_env = \<lparr>env_now = 0, env_send = (\<lambda>_. True), env_call = sample_call 1, env_uuid = ''u'', env_buffered = 128\<rparr>,
     re_salt = toy_salt, re_panics = False\<rparr>"

text \<open>A request to create a room, one to open a session in the room \<open>a\<close>, and one that looks the room up.\<close>

definition sample_create :: http_request where
  "sample_create = \<lparr>rq_method = POST, rq_path = ''/api/rooms'', rq_headers = [], rq_body = [], rq_peer = V4 7\<rparr>"

definition sample_connect :: http_request where
  "sample_connect = \<lparr>rq_method = GET, rq_path = ''/ws/a'', rq_headers = [(''origin'', ''https://parrhesia.chat'')],
     rq_body = [], rq_peer = V4 7\<rparr>"

definition sample_lookup :: http_request where
  "sample_lookup = sample_connect\<lparr>rq_path := ''/api/rooms/a''\<rparr>"



lemma default_origins: "allowed_origins_of (\<lambda>_. None) = [''https://parrhesia.chat'']"
  by code_simp

lemma default_origin_ok: "origin_ok sample_http ''https://parrhesia.chat''"
  by code_simp

lemma default_address: "parse_ip ''127.0.0.1'' = Some (V4 0x7f000001)"
  by code_simp

lemma default_proxies: "trusted_proxy_entries (\<lambda>_. None) = []"
  by code_simp

lemma default_from_env: "from_env sample_http (\<lambda>_. None) = Some default_config"
  by (simp add: from_env_def default_origins default_origin_ok default_address default_proxies
      unwrap_or_def env_number_def default_config_def sample_config_def)

lemma default_app: "app sample_http (app_state_new db default_config) = Some sample_router"
proof -
  have "cors_layer_of sample_http default_config = Some (rt_cors sample_router)" by code_simp
  then show ?thesis by (simp add: app_def app_state_new_def sample_router_def)
qed

lemma default_start:
  "start_up sample_http (\<lambda>_. None) (\<lambda>_. Some old_database) None (\<lambda>_. True)
   = Inr \<lparr>sv_addr = (V4 0x7f000001, 3000), sv_router = sample_router, sv_system = sample_system,
        sv_cleanup = Some 300, sv_expiry = 86400\<rparr>"
proof -
  have "init_pool None (Some old_database) = Inr migrated"
    by (simp add: init_pool_def migrated_def run_migrations_def Let_def)
  moreover have "cfg_bind_address default_config = V4 0x7f000001" "cfg_port default_config = 3000"
      "cleanup_period default_config = Some 300" "inactivity_expiry_secs default_config = 86400"
    by (simp_all add: default_config_def sample_config_def cleanup_period_def interval_new_def inactivity_expiry_secs_def)
  ultimately show ?thesis
    by (simp add: start_up_def default_from_env default_app sample_system_def)
qed

lemma old_database_wf: "db_wf old_database" "db_inv old_database"
  by code_simp+

theorem start_up_sound_witness:
  "sys_reach sample_web sample_system \<and> db_rows (st_db (sys_app sample_system)) = db_rows old_database
   \<and> cors_origins (rt_cors sample_router) = [''https://parrhesia.chat'']"
proof -
  have "(\<lambda>_. Some old_database) url = Some db \<Longrightarrow> db_wf db \<and> db_inv db" for url :: string and db
    using old_database_wf by simp
  from start_up_sound [where opens = "\<lambda>_. Some old_database" and lib = sample_web and env = "\<lambda>_. None"
      and fail_at = None and binds = "\<lambda>_. True", OF this]
  obtain cfg pool where new: "sample_system = sys_new pool cfg" "db_rows pool = db_rows old_database"
      and reach: "sys_reach sample_web sample_system"
    by (auto simp: sample_web_def default_start)
  then have "db_rows (st_db (sys_app sample_system)) = db_rows old_database"
    unfolding new(1) by (simp add: app_state_new_def)
  then show ?thesis using reach by (simp add: sample_router_def)
qed

lemma sample_not_preflight:
  "ax_preflight sample_axum cors sample_create = None" "ax_preflight sample_axum cors sample_connect = None"
  "ax_preflight sample_axum cors sample_lookup = None"
  by (simp_all add: sample_axum_def sample_create_def sample_connect_def sample_lookup_def)

lemma sample_answers:
  "map ss_phase (sys_sessions (snd (serve sample_axum sample_web sample_request_env sample_router sample_connect sample_system)))
     = [Opening]"
  "rsp_status (fst (serve sample_axum sample_web sample_request_env sample_router sample_lookup sample_system)) = 200"
  "ax_dispatch sample_axum (rt_routes sample_router) sample_lookup = Inr (''/api/rooms/:id'', GET, GetRoom)"
  by code_simp+

lemma sample_system_reach: "sys_reach sample_web sample_system"
  unfolding sample_system_def by (rule sys_reach.start) code_simp

lemma sample_system_app: "app (web_http sample_web) (sys_app sample_system) = Some sample_router"
  by (simp add: sample_web_def sample_system_def default_app)

theorem responses_secured_witness:
  "rsp_status (fst (serve sample_axum sample_web sample_request_env sample_router sample_lookup sample_system)) = 200
   \<and> header_get_all (rsp_headers (fst (serve sample_axum sample_web sample_request_env sample_router sample_lookup sample_system)))
       ''x-frame-options'' = [''DENY'']
   \<and> header_get_all (rsp_headers (fst (serve sample_axum sample_web sample_request_env sample_router sample_lookup sample_system)))
       ''cache-control'' = [''no-store'']"
proof -
  have "(''x-frame-options'', ''DENY'') \<in> set fixed_headers" by (simp add: fixed_headers_def)
  then show ?thesis
    using responses_secured [OF sample_system_app sample_axum_documented(1,3) sample_not_preflight(3)
        surjective_pairing, where env = sample_request_env and w = sample_system] sample_answers(2,3)
    by fastforce
qed

theorem requests_confined_witness:
  "origin_allowed sample_web (rq_headers sample_connect) [''https://parrhesia.chat'']
   \<and> rq_method sample_connect \<noteq> POST
   \<and> st_db (sys_app (snd (serve sample_axum sample_web sample_request_env sample_router sample_connect sample_system)))
       = st_db (sys_app sample_system)"
proof -
  let ?w = "snd (serve sample_axum sample_web sample_request_env sample_router sample_connect sample_system)"
  have "sys_sessions ?w \<noteq> sys_sessions sample_system"
    using sample_answers(1) by (auto simp: sample_system_def)
  then show ?thesis
    using requests_confined [OF sample_system_app sample_axum_documented(1,2) surjective_pairing,
        of sample_request_env sample_connect]
    by (auto simp: sample_router_def sample_connect_def)
qed

theorem requests_are_steps_witness:
  "(sys_step sample_web)\<^sup>*\<^sup>* sample_system
      (snd (serve sample_axum sample_web sample_request_env sample_router sample_connect sample_system))
   \<and> map ss_phase (sys_sessions
       (snd (serve sample_axum sample_web sample_request_env sample_router sample_connect sample_system))) = [Opening]"
proof -
  have "env_uuid (re_env sample_request_env) \<notin> known_rooms sample_system"
    by (simp add: known_rooms_def sample_system_def)
  from requests_are_steps [OF this] show ?thesis by (simp only: sample_answers simp_thms)
qed

end
