(* ===== verification/Server.thy ===== *)
theory Server
imports App SystemExpiry
begin

text \<open>
  A started server: the system of \<open>main\<close> together with the two tasks that \<open>spawn_cleanup_task\<close> starts.
  The transition system lets the cleanup task tick at any time, with any threshold; a server has the ticks
  of its own task only, and none when the task has panicked at its interval.
\<close>

section \<open>The runs of a server\<close>

text \<open>
  The ticks that can happen: of the cleanup task when its \<open>interval\<close> was created, with the threshold it
  computed at the start; of the maintenance task, whose period is the constant 60. All else comes from
  outside.
\<close>

fun task_may :: "server \<Rightarrow> sys_event \<Rightarrow> bool" where
  "task_may sv (CleanupTick t c) \<longleftrightarrow> sv_cleanup sv \<noteq> None \<and> t = sv_expiry sv"
| "task_may sv (MaintenanceTick now) \<longleftrightarrow> interval_new 60 \<noteq> None"
| "task_may sv _ \<longleftrightarrow> True"

definition server_run :: "web_lib \<Rightarrow> server \<Rightarrow> sys_event list \<Rightarrow> system \<Rightarrow> system \<Rightarrow> bool" where
  "server_run lib sv es w w' \<longleftrightarrow> list_all (task_may sv) es \<and> sys_exec lib es w = Some w'"

lemma started:
  assumes "start_up lib env opens fail_at binds = Inr sv" "\<And>url db. opens url = Some db \<Longrightarrow> db_wf db \<and> db_inv db"
  obtains pool cfg where "db_inv pool" "sv_system sv = sys_new pool cfg" "sv_cleanup sv = cleanup_period cfg"
    "sv_expiry sv = inactivity_expiry_secs cfg" "st_config (sys_app (sv_system sv)) = cfg"
proof -
  obtain cfg pool where cfg: "init_pool fail_at (opens (cfg_database_url cfg)) = Inr pool"
      "sv_system sv = sys_new pool cfg" "sv_cleanup sv = cleanup_period cfg" "sv_expiry sv = inactivity_expiry_secs cfg"
    using assms(1) by (auto simp: start_up_def Let_def split: option.splits sum.splits if_splits)
  moreover obtain db where "db_inv pool" by (rule init_pool_ok [OF cfg(1)]) (use assms(2) in blast)+
  ultimately show thesis using that by (simp add: app_state_new_def)
qed

lemma run_reach:
  assumes "db_inv pool" "sv_system sv = sys_new pool cfg" "server_run lib sv es (sv_system sv) w"
  shows "sys_reach lib w"
  using sys_exec_reach [of lib es "sys_new pool cfg" w] sys_reach.start [OF assms(1)] assms(2,3)
  by (simp add: server_run_def)

section \<open>A cleanup task that panics\<close>

text \<open>\<open>interval_mins * 60\<close> is a 64-bit product.\<close>

lemma zero_period: "cleanup_period cfg = None \<longleftrightarrow> 2 ^ 62 dvd uint (cfg_cleanup_interval_mins cfg)"
proof -
  let ?m = "cfg_cleanup_interval_mins cfg"
  have "uint (?m * 60) = (uint ?m * 60) mod 2 ^ 64" by (simp only: uint_word_ariths(3)) simp
  then have "?m * 60 = 0 \<longleftrightarrow> (uint ?m * 60) mod 2 ^ 64 = 0" by (simp only: uint_0_iff [symmetric])
  also have "\<dots> \<longleftrightarrow> 4 * 2 ^ 62 dvd 4 * (uint ?m * 15)" by (simp add: dvd_eq_mod_eq_0 ac_simps)
  also have "\<dots> \<longleftrightarrow> 2 ^ 62 dvd uint ?m * 15" by (rule dvd_times_left_cancel_iff) simp
  also have "\<dots> \<longleftrightarrow> (2 :: int) ^ 62 dvd uint ?m"
  proof (rule coprime_dvd_mult_left_iff)
    have "coprime (2 :: int) 15" by simp
    then show "coprime ((2 :: int) ^ 62) 15" by (rule coprime_power_left_iff [THEN iffD2, OF disjI1])
  qed
  finally show ?thesis by (simp add: cleanup_period_def interval_new_def)
qed

text \<open>
  C40. A server started with a cleanup interval of 0 minutes, or of any multiple of \<open>2 ^ 62\<close> (whose product
  with 60 wraps to 0), never expires a room: whatever connections, requests, frames, jobs and ticks its
  runs are made of, a room that is in the database at any time of the run is there ever after, with its
  password, and one that is in memory stays there; although start-up accepts the configuration and the
  server serves.
\<close>

theorem zero_interval_no_cleanup:
  assumes "start_up (web_http lib) env opens fail_at binds = Inr sv"
    and "\<And>url db. opens url = Some db \<Longrightarrow> db_wf db \<and> db_inv db"
    and "2 ^ 62 dvd uint (cfg_cleanup_interval_mins (st_config (sys_app (sv_system sv))))"
    and "server_run lib sv es (sv_system sv) w" "server_run lib sv es' w w'"
  shows "(\<forall>row. map_of (db_rows (st_db (sys_app w))) rid = Some row \<longrightarrow>
        (\<exists>row'. map_of (db_rows (st_db (sys_app w'))) rid = Some row' \<and> row_password_hash row' = row_password_hash row))
    \<and> (map_of (st_rooms (sys_app w)) rid \<noteq> None \<longrightarrow> map_of (st_rooms (sys_app w')) rid \<noteq> None)"
proof -
  obtain pool cfg where start: "db_inv pool" "sv_system sv = sys_new pool cfg" "sv_cleanup sv = cleanup_period cfg"
      "st_config (sys_app (sv_system sv)) = cfg"
    by (rule started [OF assms(1)]) (use assms(2) in blast)+
  have "\<not> cleans e" if "task_may sv e" for e
    using that start(3,4) assms(3) zero_period [of cfg] by (cases e) simp_all
  then have "\<forall>e \<in> set es'. \<not> cleans e" using assms(5) by (auto simp: server_run_def list_all_iff)
  moreover have "sys_exec lib es' w = Some w'" using assms(5) by (simp add: server_run_def)
  ultimately have "keeps rid w w'"
    using only_cleanup_removes run_reach [OF start(1,2) assms(4)] by blast
  then show ?thesis
    by (force simp: keeps_def stored_hash_def store.password_def db_view_def room_view_def split: option.splits)
qed

text \<open>Such a server, from its environment; a client connects and the maintenance task ticks.\<close>

definition zero_env :: environment where
  "zero_env = (\<lambda>k. if k = ''CLEANUP_INTERVAL_MINS'' then Some ''0'' else None)"

definition zero_server :: server where
  "zero_server = \<lparr>sv_addr = (V4 0x7f000001, 3000), sv_router = sample_router,
     sv_system = sys_new migrated (default_config\<lparr>cfg_cleanup_interval_mins := 0\<rparr>), sv_cleanup = None, sv_expiry = 86400\<rparr>"

definition zero_events :: "sys_event list" where
  "zero_events = [Connects (re_env sample_request_env) (V4 7) [(''origin'', ''https://parrhesia.chat'')] ''a'', MaintenanceTick 60]"

lemma zero_from_env: "from_env sample_http zero_env = Some (default_config\<lparr>cfg_cleanup_interval_mins := 0\<rparr>)"
proof -
  have "allowed_origins_of zero_env = [''https://parrhesia.chat'']" "trusted_proxy_entries zero_env = []"
    "parse_uint 64 ''0'' = Some 0"
    by code_simp+
  then show ?thesis
    by (simp add: from_env_def default_origin_ok default_address unwrap_or_def env_number_def zero_env_def
        default_config_def sample_config_def)
qed

lemma zero_start: "start_up sample_http zero_env (\<lambda>_. Some old_database) None (\<lambda>_. True) = Inr zero_server"
proof -
  have "init_pool None (Some old_database) = Inr migrated"
    by (simp add: init_pool_def migrated_def run_migrations_def Let_def)
  moreover have "app sample_http (app_state_new migrated (default_config\<lparr>cfg_cleanup_interval_mins := 0\<rparr>)) = Some sample_router"
  proof -
    have "cors_layer_of sample_http (default_config\<lparr>cfg_cleanup_interval_mins := 0\<rparr>) = Some (rt_cors sample_router)" by code_simp
    then show ?thesis by (simp add: app_def app_state_new_def sample_router_def)
  qed
  ultimately show ?thesis
    by (simp add: start_up_def zero_from_env zero_server_def default_config_def sample_config_def cleanup_period_def
        interval_new_def inactivity_expiry_secs_def)
qed

lemma zero_run:
  "list_all (task_may zero_server) zero_events
   \<and> map_option (\<lambda>w. map ss_phase (sys_sessions w)) (sys_exec sample_web zero_events (sv_system zero_server)) = Some [Opening]"
  by code_simp

theorem zero_interval_no_cleanup_witness:
  "\<exists>w. server_run sample_web zero_server zero_events (sv_system zero_server) w
    \<and> map_of (db_rows (st_db (sys_app w))) ''a'' \<noteq> None"
proof -
  obtain w where w: "server_run sample_web zero_server zero_events (sv_system zero_server) w"
    using zero_run by (auto simp: server_run_def)
  have here: "server_run sample_web zero_server [] (sv_system zero_server) (sv_system zero_server)"
    by (simp add: server_run_def)
  have "start_up (web_http sample_web) zero_env (\<lambda>_. Some old_database) None (\<lambda>_. True) = Inr zero_server"
    by (simp add: sample_web_def zero_start)
  moreover have "(\<lambda>_. Some old_database) url = Some db \<Longrightarrow> db_wf db \<and> db_inv db" for url :: string and db
    using old_database_wf by simp
  moreover have "cfg_cleanup_interval_mins (st_config (sys_app (sv_system zero_server))) = 0"
    by (simp add: zero_server_def app_state_new_def)
  moreover have "map_of (db_rows (st_db (sys_app (sv_system zero_server)))) ''a'' \<noteq> None" by code_simp
  ultimately show ?thesis
    using zero_interval_no_cleanup [OF _ _ _ here w, of zero_env "\<lambda>_. Some old_database" None "\<lambda>_. True" "''a''"] w
    by fastforce
qed

end
