(* ===== verification/AdmissionTests.thy ===== *)
theory AdmissionTests
imports AdmissionSlots
begin

text \<open>
  The unit tests of \<open>src/admission.rs\<close> as executable definitions, and the proof that the model passes
  each of them. A test is the value of its assertions; \<open>Instant::now()\<close> is an argument, so a test holds
  at every instant. A test that unwraps an error fails here as it panics there.
\<close>

section \<open>Running checks\<close>

text \<open>Consecutive calls of \<open>check_at\<close>, each with the result the test asserts of it.\<close>

fun expect_checks ::
  "(budget \<times> instant \<times> (admission_error + unit)) list \<Rightarrow> admission \<Rightarrow> bool \<times> admission" where
  "expect_checks [] adm = (True, adm)"
| "expect_checks ((key, now, expected) # calls) adm =
     (case check_at key now adm of (r, adm') \<Rightarrow>
        (case expect_checks calls adm' of (ok, adm'') \<Rightarrow> (r = expected \<and> ok, adm'')))"

text \<open>Consecutive calls of \<open>pending\<close>: the guards, and whether each call went as asserted.\<close>

fun expect_pending ::
  "(ip_addr \<times> bool) list \<Rightarrow> admission \<Rightarrow> bool \<times> pending_auth list \<times> admission" where
  "expect_pending [] adm = (True, [], adm)"
| "expect_pending ((ip, granted) # calls) adm =
     (case pending ip adm of (r, adm') \<Rightarrow>
        (case expect_pending calls adm' of (ok, guards, adm'') \<Rightarrow>
           (case r of
              Inr guard \<Rightarrow> (granted \<and> ok, guard # guards, adm'')
            | Inl e \<Rightarrow> (\<not> granted \<and> e = Unavailable \<and> ok, guards, adm''))))"

text \<open>\<open>guards.clear()\<close> drops the guards in order.\<close>

fun drop_all :: "pending_auth list \<Rightarrow> admission \<Rightarrow> admission option" where
  "drop_all [] adm = Some adm"
| "drop_all (g # gs) adm = (case pending_drop g adm of None \<Rightarrow> None | Some adm' \<Rightarrow> drop_all gs adm')"

section \<open>The tests\<close>

definition budgets_refill_without_resetting_on_reconnection :: "instant \<Rightarrow> bool" where
  "budgets_refill_without_resetting_on_reconnection now =
     (case parse_ip ''192.0.2.1'' of
        None \<Rightarrow> False
      | Some ip \<Rightarrow> fst (expect_checks
            (replicate 5 (Creation ip, now, Inr ())
             @ [(Creation ip, now, Inl (Limited 12)),
                (Creation ip, now + 12 * nanos_per_sec, Inr ())]
             @ replicate 30 (Connection ip, now, Inr ())
             @ [(Connection ip, now, Inl (Limited 2))]
             @ replicate 20 (RoomBudget ''room'', now, Inr ())
             @ [(RoomBudget ''room'', now, Inl (Limited 3))])
            admission_default))"

definition full_limiter_rejects_new_entries_and_expires_idle_entries :: "instant \<Rightarrow> bool" where
  "full_limiter_rejects_new_entries_and_expires_idle_entries now =
     (case expect_checks
         (map (\<lambda>i. (RoomBudget (u64_to_string (of_nat i)), now, Inr ())) [0..<max_buckets]
          @ [(RoomBudget ''new'', now, Inl Unavailable),
             (RoomBudget ''new'', now + idle_ttl, Inr ())])
         admission_default
      of (ok, admission) \<Rightarrow> ok \<and> length (lim_buckets (adm_limits admission)) = 1)"

definition ip_192_0_2 :: "nat \<Rightarrow> ip_addr" where
  "ip_192_0_2 i = V4 (0xC0000200 + of_nat i)"

definition pending_guards_bound_global_and_per_ip_counts_and_release_on_drop :: bool where
  "pending_guards_bound_global_and_per_ip_counts_and_release_on_drop =
     (case expect_pending
         (concat (map (\<lambda>i. replicate 10 (ip_192_0_2 i, True) @ [(ip_192_0_2 i, False)]) [1..<11])
          @ [(ip_192_0_2 11, False)])
         admission_default
      of (ok, guards, admission) \<Rightarrow>
        ok \<and> (case drop_all guards admission of
                None \<Rightarrow> False
              | Some admission' \<Rightarrow> lim_pending_total (adm_limits admission') = 0
                  \<and> lim_pending (adm_limits admission') = []))"

section \<open>The model passes them\<close>

lemma expect_checks_append:
  "expect_checks (xs @ ys) adm =
     (case expect_checks xs adm of (ok, adm') \<Rightarrow>
        (case expect_checks ys adm' of (ok', adm'') \<Rightarrow> (ok \<and> ok', adm'')))"
  by (induction xs adm rule: expect_checks.induct) (auto split: prod.splits)

abbreviation put_bucket :: "budget \<Rightarrow> bucket \<Rightarrow> admission \<Rightarrow> admission" where
  "put_bucket key b adm \<equiv> adm\<lparr>adm_limits := adm_limits adm
     \<lparr>lim_buckets := AList.update key b (lim_buckets (adm_limits adm))\<rparr>\<rparr>"

definition bucket_of :: "budget \<Rightarrow> instant \<Rightarrow> admission \<Rightarrow> bucket" where
  "bucket_of key now adm = (case map_of (lim_buckets (adm_limits adm)) key of
     Some b \<Rightarrow> b | None \<Rightarrow> fresh_bucket (budget_capacity key) now)"

definition has_place :: "budget \<Rightarrow> admission \<Rightarrow> bool" where
  "has_place key adm \<longleftrightarrow> contains_key (lim_buckets (adm_limits adm)) key
     \<or> length (lim_buckets (adm_limits adm)) < max_buckets"

lemma check_at_place:
  assumes "has_place key adm"
  shows "check_at key now adm =
     (case bucket_check (budget_capacity key) now (bucket_of key now adm) of (ok, b) \<Rightarrow>
        if ok then (Inr (), put_bucket key b adm)
        else (Inl (Limited (retry_after (budget_capacity key) b)),
              put_bucket key b adm\<lparr>adm_throttled := adm_throttled adm + 1\<rparr>))"
  using assms by (auto simp: check_at_def Let_def has_place_def bucket_of_def split: prod.splits
      simp del: map_of_eq_Some_iff)

lemma bucket_check_whole:
  assumes "k \<le> n" "n \<le> 64" "budget_capacity key = of_nat n"
  shows "bucket_check (budget_capacity key) now \<lparr>bk_tokens = of_nat k, bk_updated = now\<rparr> =
     (if 0 < k then (True, \<lparr>bk_tokens = of_nat (k - 1), bk_updated = now\<rparr>)
      else (False, \<lparr>bk_tokens = 0, bk_updated = now\<rparr>))"
proof (cases k)
  case 0
  then show ?thesis using assms
    by (simp add: bucket_check_eq f64_min_def f64_add_def f64_mul_def rnd64_int [of 0, simplified])
next
  case (Suc j)
  have "rnd64 (of_nat k) = of_nat k" "f64_sub (of_nat k) 1 = of_nat j"
    using rnd64_int [of "int k"] rnd64_int [of "int j"] Suc assms(1,2) by (simp_all add: f64_sub_def)
  with assms Suc show ?thesis
    by (simp add: bucket_check_eq f64_min_def f64_add_def f64_mul_def rnd64_int [of 0, simplified])
qed

lemma check_at_whole:
  assumes "has_place key adm" "budget_capacity key = of_nat n" "n \<le> 64" "k \<le> n"
    and "bucket_of key now adm = \<lparr>bk_tokens = of_nat k, bk_updated = now\<rparr>"
  shows "check_at key now adm =
     (if 0 < k then (Inr (), put_bucket key \<lparr>bk_tokens = of_nat (k - 1), bk_updated = now\<rparr> adm)
      else (Inl (Limited (retry_after (budget_capacity key) \<lparr>bk_tokens = 0, bk_updated = now\<rparr>)),
            put_bucket key \<lparr>bk_tokens = 0, bk_updated = now\<rparr> adm\<lparr>adm_throttled := adm_throttled adm + 1\<rparr>))"
  using assms(5) bucket_check_whole [OF assms(4,3,2), of now] check_at_place [OF assms(1), of now] by simp

lemma bucket_of_put [simp]: "bucket_of key now (put_bucket key b adm) = b"
  by (simp add: bucket_of_def update_conv')

lemma has_place_put [simp]: "has_place key (put_bucket key b adm)"
  by (simp add: has_place_def update_conv' del: map_of_eq_Some_iff)

lemma put_bucket_last [simp]: "put_bucket key b (put_bucket key b' adm) = put_bucket key b adm"
  by simp

lemma check_burst:
  assumes "has_place key adm" "budget_capacity key = of_nat n" "n \<le> 64" "m < k" "k \<le> n"
    and "bucket_of key now adm = \<lparr>bk_tokens = of_nat k, bk_updated = now\<rparr>"
  shows "expect_checks (replicate (Suc m) (key, now, Inr ())) adm =
     (True, put_bucket key \<lparr>bk_tokens = of_nat (k - Suc m), bk_updated = now\<rparr> adm)"
  using assms
proof (induction m arbitrary: k adm)
  case 0
  with check_at_whole [OF 0(1-3) 0(5,6)] show ?case by simp
next
  case (Suc m)
  let ?adm = "put_bucket key \<lparr>bk_tokens = of_nat (k - 1), bk_updated = now\<rparr> adm"
  have "expect_checks (replicate (Suc m) (key, now, Inr ())) ?adm =
     (True, put_bucket key \<lparr>bk_tokens = of_nat (k - 1 - Suc m), bk_updated = now\<rparr> ?adm)"
    using Suc.prems by (intro Suc.IH) simp_all
  with check_at_whole [OF Suc.prems(1-3,5,6)] Suc.prems(4) show ?case by simp
qed

lemma burst_then_limited:
  assumes "has_place key adm" "bucket_of key now adm = fresh_bucket (budget_capacity key) now"
    and "budget_capacity key = of_nat (Suc m)" "Suc m \<le> 64"
    and "retry_after (budget_capacity key) \<lparr>bk_tokens = 0, bk_updated = now\<rparr> = w"
  shows "expect_checks (replicate (Suc m) (key, now, Inr ()) @ [(key, now, Inl (Limited w))]) adm =
     (True, put_bucket key \<lparr>bk_tokens = 0, bk_updated = now\<rparr> adm\<lparr>adm_throttled := adm_throttled adm + 1\<rparr>)"
proof -
  have fresh: "bucket_of key now adm = \<lparr>bk_tokens = of_nat (Suc m), bk_updated = now\<rparr>"
    using assms(2,3) by (simp add: fresh_bucket_def)
  let ?adm = "put_bucket key \<lparr>bk_tokens = of_nat 0, bk_updated = now\<rparr> adm"
  have "check_at key now ?adm = (Inl (Limited w), ?adm\<lparr>adm_throttled := adm_throttled adm + 1\<rparr>)"
    using check_at_whole [of key ?adm "Suc m" 0 now] assms(3-5) by simp
  with check_burst [OF assms(1,3,4) lessI order_refl fresh] show ?thesis
    by (simp add: expect_checks_append del: replicate_Suc)
qed

lemma retry_after_empty:
  "retry_after 5 \<lparr>bk_tokens = 0, bk_updated = now\<rparr> = 12"
  "retry_after 20 \<lparr>bk_tokens = 0, bk_updated = now\<rparr> = 3"
  "retry_after 30 \<lparr>bk_tokens = 0, bk_updated = now\<rparr> = 2"
proof -
  have "f64_ceil_as_u64 (f64_div (f64_sub 1 0) (6004799503160661 / 2 ^ 56)) = 12" by code_simp
  then show "retry_after 5 \<lparr>bk_tokens = 0, bk_updated = now\<rparr> = 12"
    by (simp add: retry_after_def refill_rate_values)
  have "f64_ceil_as_u64 (f64_div (f64_sub 1 0) (6004799503160661 / 2 ^ 54)) = 3" by code_simp
  then show "retry_after 20 \<lparr>bk_tokens = 0, bk_updated = now\<rparr> = 3"
    by (simp add: retry_after_def refill_rate_values)
  have "f64_ceil_as_u64 (f64_div (f64_sub 1 0) (1 / 2)) = 2" by code_simp
  then show "retry_after 30 \<lparr>bk_tokens = 0, bk_updated = now\<rparr> = 2"
    by (simp add: retry_after_def refill_rate_values)
qed

lemma creation_refill:
  "bucket_check 5 (now + 12 * nanos_per_sec) \<lparr>bk_tokens = 0, bk_updated = now\<rparr> =
     (True, \<lparr>bk_tokens = 0, bk_updated = now + 12 * nanos_per_sec\<rparr>)"
proof -
  have "f64_min (f64_add 0 (f64_mul 12 (6004799503160661 / 2 ^ 56))) 5 = 1" "f64_sub 1 1 = 0"
    by code_simp+
  moreover have "saturating_duration_since (now + 12 * nanos_per_sec) now = 12 * nanos_per_sec"
    by (simp add: saturating_duration_since_def nanos_per_sec_def)
  ultimately show ?thesis
    using as_secs_f64_whole [of 12] by (simp add: bucket_check_eq refill_rate_values)
qed

lemma budgets_refill_passes: "budgets_refill_without_resetting_on_reconnection now"
proof -
  define ip where "ip = V4 0xC0000201"
  let ?empty = "\<lparr>bk_tokens = 0, bk_updated = now\<rparr> :: bucket"
  note start = admission_default_def has_place_def bucket_of_def max_buckets_def
  let ?a1 = "put_bucket (Creation ip) ?empty admission_default\<lparr>adm_throttled := 1\<rparr>"
  have 1: "expect_checks (replicate 5 (Creation ip, now, Inr ()) @ [(Creation ip, now, Inl (Limited 12))])
      admission_default = (True, ?a1)"
    using burst_then_limited [of "Creation ip" admission_default now 4 12]
    by (simp add: start retry_after_empty eval_nat_numeral)
  define a2 where "a2 = put_bucket (Creation ip) \<lparr>bk_tokens = 0, bk_updated = now + 12 * nanos_per_sec\<rparr> ?a1"
  have 2: "check_at (Creation ip) (now + 12 * nanos_per_sec) ?a1 = (Inr (), a2)"
    by (simp add: check_at_place creation_refill start a2_def)
  let ?a3 = "put_bucket (Connection ip) ?empty a2\<lparr>adm_throttled := 2\<rparr>"
  have a2: "length (lim_buckets (adm_limits a2)) = 1" "adm_throttled a2 = 1"
      "map_of (lim_buckets (adm_limits a2)) key = None" if "\<And>x. key \<noteq> Creation x" for key
    using that by (simp_all add: a2_def start)
  have 3: "expect_checks (replicate 30 (Connection ip, now, Inr ()) @ [(Connection ip, now, Inl (Limited 2))]) a2
      = (True, ?a3)"
    using burst_then_limited [of "Connection ip" a2 now 29 2] a2 [of "Connection ip"]
    by (simp add: has_place_def bucket_of_def max_buckets_def retry_after_empty eval_nat_numeral)
  have 4: "fst (expect_checks (replicate 20 (RoomBudget ''room'', now, Inr ())
      @ [(RoomBudget ''room'', now, Inl (Limited 3))]) ?a3)"
    using burst_then_limited [of "RoomBudget ''room''" ?a3 now 19 3] a2 [of "RoomBudget ''room''"]
    by (simp add: has_place_def bucket_of_def max_buckets_def retry_after_empty eval_nat_numeral
        length_AList_update update_conv')
  have ip: "parse_ip ''192.0.2.1'' = Some ip" unfolding ip_def by code_simp
  show ?thesis
    unfolding budgets_refill_without_resetting_on_reconnection_def ip
    using 1 2 3 4 by (simp add: expect_checks_append split: prod.splits)
qed

text \<open>The limiter filled with the first \<open>n\<close> decimal numbers, each checked once.\<close>

definition numbered :: "nat \<Rightarrow> budget" where
  "numbered i = RoomBudget (u64_to_string (of_nat i))"

definition filled :: "instant \<Rightarrow> nat \<Rightarrow> admission" where
  "filled now n = admission_default\<lparr>adm_limits := adm_limits admission_default
     \<lparr>lim_buckets := map (\<lambda>i. (numbered i, \<lparr>bk_tokens = 19, bk_updated = now\<rparr>)) [0..<n]\<rparr>\<rparr>"

lemma numbered_inj:
  assumes "i \<le> max_buckets" "j \<le> max_buckets"
  shows "numbered i = numbered j \<longleftrightarrow> i = j"
proof
  have num: "unat (of_nat k :: u64) = k" if "k \<le> max_buckets" for k
    using that by (simp add: unsigned_of_nat take_bit_nat_eq_self max_buckets_def)
  assume "numbered i = numbered j"
  then have "u64_to_string (of_nat i) = u64_to_string (of_nat j)" by (simp add: numbered_def)
  then have "uint (of_nat i :: u64) = uint (of_nat j :: u64)"
    using u64_to_string_parse [of "of_nat i"] u64_to_string_parse [of "of_nat j"] by (metis option.inject)
  then have "(of_nat i :: u64) = of_nat j" by (simp only: word_uint_eq_iff)
  then show "i = j" using num assms by metis
qed simp

lemma numbered_not_new: "numbered i \<noteq> RoomBudget ''new''"
proof
  assume "numbered i = RoomBudget ''new''"
  then have "parse_uint 64 ''new'' \<noteq> None"
    using u64_to_string_parse [of "of_nat i"] by (simp add: numbered_def)
  moreover have "parse_uint 64 ''new'' = None" by code_simp
  ultimately show False by simp
qed

lemma update_new: "k \<notin> set (keys m) \<Longrightarrow> AList.update k v m = m @ [(k, v)]"
  by (induction m) auto

lemma fill_limiter:
  "n \<le> max_buckets \<Longrightarrow>
   expect_checks (map (\<lambda>i. (numbered i, now, Inr ())) [0..<n]) admission_default = (True, filled now n)"
proof (induction n)
  case 0
  show ?case by (simp add: filled_def admission_default_def)
next
  case (Suc n)
  have new: "numbered n \<notin> set (keys (lim_buckets (adm_limits (filled now n))))"
    using Suc.prems by (auto simp: filled_def numbered_inj)
  then have "bucket_of (numbered n) now (filled now n) = \<lparr>bk_tokens = of_nat 20, bk_updated = now\<rparr>"
    by (simp add: bucket_of_def map_of_eq_None_iff [THEN iffD2] fresh_bucket_def numbered_def)
  moreover have "has_place (numbered n) (filled now n)"
    using Suc.prems by (simp add: has_place_def filled_def)
  ultimately have "check_at (numbered n) now (filled now n)
      = (Inr (), put_bucket (numbered n) \<lparr>bk_tokens = 19, bk_updated = now\<rparr> (filled now n))"
    using check_at_whole [of "numbered n" "filled now n" 20 20 now] by (simp add: numbered_def)
  moreover have "put_bucket (numbered n) \<lparr>bk_tokens = 19, bk_updated = now\<rparr> (filled now n) = filled now (Suc n)"
    using update_new [OF new] by (simp add: filled_def)
  ultimately show ?case
    using Suc by (simp add: expect_checks_append)
qed

lemma full_limiter_passes: "full_limiter_rejects_new_entries_and_expires_idle_entries now"
proof -
  let ?adm = "filled now max_buckets"
  let ?bs = "lim_buckets (adm_limits ?adm)"
  have new: "map_of ?bs (RoomBudget ''new'') = None"
    using numbered_not_new by (auto simp: filled_def map_of_eq_None_iff dest: sym)
  have len: "length ?bs = max_buckets" by (simp add: filled_def)
  have "retain (not_idle now) ?bs = ?bs"
    by (auto simp: retain_def filter_id_conv filled_def not_idle_def idle_ttl_def nanos_per_sec_def)
  then have 1: "check_at (RoomBudget ''new'') now ?adm
      = (Inl Unavailable, ?adm\<lparr>adm_unavailable := adm_unavailable ?adm + 1\<rparr>)"
    using new len by (simp add: check_at_def Let_def)
  let ?later = "now + idle_ttl"
  have "retain (not_idle ?later) ?bs = []"
    by (auto simp: retain_empty_iff filled_def not_idle_def saturating_duration_since_def
        idle_ttl_def nanos_per_sec_def)
  moreover have "bucket_check 20 ?later (fresh_bucket 20 ?later)
      = (True, \<lparr>bk_tokens = 19, bk_updated = ?later\<rparr>)"
    using bucket_check_whole [of 20 20 "RoomBudget []" ?later] by (simp add: fresh_bucket_def)
  ultimately have 2: "fst (check_at (RoomBudget ''new'') ?later (?adm\<lparr>adm_unavailable := u\<rparr>)) = Inr ()"
      "length (lim_buckets (adm_limits (snd (check_at (RoomBudget ''new'') ?later (?adm\<lparr>adm_unavailable := u\<rparr>))))) = 1"
    for u
    using new len by (simp_all add: check_at_def Let_def max_buckets_def)
  show ?thesis
    using fill_limiter [OF order_refl, of now] 1 2 [of "adm_unavailable ?adm + 1"]
    by (auto simp: full_limiter_rejects_new_entries_and_expires_idle_entries_def numbered_def
        expect_checks_append split: prod.splits)
qed

lemma pending_guards_pass: "pending_guards_bound_global_and_per_ip_counts_and_release_on_drop"
  by code_simp

section \<open>All tests of the module\<close>

lemma admission_tests:
  "budgets_refill_without_resetting_on_reconnection now"
  "full_limiter_rejects_new_entries_and_expires_idle_entries now"
  "pending_guards_bound_global_and_per_ip_counts_and_release_on_drop"
  by (rule budgets_refill_passes full_limiter_passes pending_guards_pass)+

end
