(* ===== verification/StoreTests.thy ===== *)
theory StoreTests
imports Db Security
begin

text \<open>
  The unit tests of \<open>src/config.rs\<close>, \<open>src/db.rs\<close> and \<open>src/security.rs\<close> as executable definitions, and
  the proof that the model passes each of them. The database calls of a test are numbered in their
  order: \<open>c i\<close> says whether call \<open>i\<close> is answered and what the clock shows.
\<close>

section \<open>Configuration\<close>

definition config_with_expiry :: "u64 \<Rightarrow> config option" where
  "config_with_expiry hours =
     map_option (\<lambda>bind_address.
       \<lparr>cfg_database_url = [], cfg_port = 0, cfg_bind_address = bind_address,
        cfg_allowed_origins = [''https://parrhesia.chat''], cfg_trusted_proxies = [],
        cfg_inactivity_expiry_hours = hours, cfg_cleanup_interval_mins = 5\<rparr>)
     (parse_ip ''127.0.0.1'')"

definition expiry_hours_convert_to_seconds :: bool where
  "expiry_hours_convert_to_seconds \<longleftrightarrow>
     map_option inactivity_expiry_secs (config_with_expiry 24) = Some 86400
     \<and> map_option inactivity_expiry_secs (config_with_expiry 1) = Some 3600"

definition zero_hours_is_zero_seconds :: bool where
  "zero_hours_is_zero_seconds \<longleftrightarrow> map_option inactivity_expiry_secs (config_with_expiry 0) = Some 0"

section \<open>Database\<close>

definition test_pool :: "database option" where
  "test_pool = (case run_migrations None empty_database of (Inl _, _) \<Rightarrow> None | (Inr _, pool) \<Rightarrow> Some pool)"

text \<open>\<open>UPDATE rooms SET last_activity = 0 WHERE id = ?\<close>\<close>

definition reset_activity :: "string \<Rightarrow> database \<Rightarrow> database" where
  "reset_activity room_id db =
     db\<lparr>db_rows := map (\<lambda>(rid, r). (rid, if rid = room_id then r\<lparr>row_last_activity := 0\<rparr> else r)) (db_rows db)\<rparr>"

definition create_and_check_room :: "(nat \<Rightarrow> db_call) \<Rightarrow> bool" where
  "create_and_check_room c =
     (case test_pool of
        None \<Rightarrow> False
      | Some pool \<Rightarrow>
          room_exists (c 0) ''room1'' pool = Inr False
          \<and> (case create_room (c 1) ''room1'' pool of
               (Inl _, _) \<Rightarrow> False
             | (Inr _, pool') \<Rightarrow>
                 room_exists (c 2) ''room1'' pool' = Inr True
                 \<and> room_exists (c 3) ''missing'' pool' = Inr False))"

definition delete_inactive_rooms_targets_only_stale_rooms :: "(nat \<Rightarrow> db_call) \<Rightarrow> bool" where
  "delete_inactive_rooms_targets_only_stale_rooms c =
     (case test_pool of
        None \<Rightarrow> False
      | Some pool \<Rightarrow>
          (case create_room (c 0) ''stale'' pool of
             (Inl _, _) \<Rightarrow> False
           | (Inr _, pool1) \<Rightarrow>
               (case create_room (c 1) ''fresh'' pool1 of
                  (Inl _, _) \<Rightarrow> False
                | (Inr _, pool2) \<Rightarrow>
                    (case delete_inactive_rooms (c 2) 3600 (reset_activity ''stale'' pool2) of
                       (Inl _, _) \<Rightarrow> False
                     | (Inr deleted, pool3) \<Rightarrow>
                         deleted = [''stale'']
                         \<and> room_exists (c 3) ''stale'' pool3 = Inr False
                         \<and> room_exists (c 4) ''fresh'' pool3 = Inr True))))"

definition update_activity_refreshes_timestamp :: "(nat \<Rightarrow> db_call) \<Rightarrow> bool" where
  "update_activity_refreshes_timestamp c =
     (case test_pool of
        None \<Rightarrow> False
      | Some pool \<Rightarrow>
          (case create_room (c 0) ''r'' pool of
             (Inl _, _) \<Rightarrow> False
           | (Inr _, pool1) \<Rightarrow>
               (case update_activity (c 1) ''r'' (reset_activity ''r'' pool1) of
                  (Inl _, _) \<Rightarrow> False
                | (Inr _, pool2) \<Rightarrow>
                    (case map_of (db_rows pool2) ''r'' of
                       None \<Rightarrow> False
                     | Some row \<Rightarrow> 0 < sint (row_last_activity row)))))"

section \<open>Client address\<close>

definition forwarded_address_is_trusted_only_from_configured_proxy :: "http_lib \<Rightarrow> bool" where
  "forwarded_address_is_trusted_only_from_configured_proxy lib =
     (case (parse_ip ''192.0.2.1'', parse_ip ''198.51.100.5'') of
        (Some peer, Some forwarded) \<Rightarrow>
          (let name = ''x-parrhesia-client-ip'';
               headers = header_insert name ''198.51.100.5'' [];
               headers1 = header_insert name ''198.51.100.5, 192.0.2.2'' headers;
               headers2 = [];
               headers3 = (headers2 @ [(name, ''198.51.100.5'')]) @ [(name, ''198.51.100.6'')]
           in client_ip lib peer headers [] = Inr peer
              \<and> client_ip lib peer headers [peer] = Inr forwarded
              \<and> client_ip lib peer headers1 [peer] = Inl 400
              \<and> client_ip lib peer headers2 [peer] = Inl 400
              \<and> client_ip lib peer headers3 [peer] = Inl 400)
      | _ \<Rightarrow> False)"

section \<open>What the tests rely on\<close>

text \<open>
  The database answers, and the clock is sane: past 1970 by more than an hour, within \<open>i64\<close>, and no
  two calls of a test are more than an hour apart.
\<close>

definition sane_calls :: "(nat \<Rightarrow> db_call) \<Rightarrow> bool" where
  "sane_calls c \<longleftrightarrow>
     (\<forall>i. call_ok (c i) \<and> 3600 < uint (call_clock (c i)) \<and> uint (call_clock (c i)) < 2 ^ 63)
     \<and> (\<forall>i j. uint (call_clock (c i)) \<le> uint (call_clock (c j)) + 3600)"

text \<open>\<open>HeaderValue::to_str\<close> gives back a value of visible ASCII characters and spaces.\<close>

definition reads_visible_ascii :: "http_lib \<Rightarrow> bool" where
  "reads_visible_ascii lib \<longleftrightarrow>
     (\<forall>s. list_all (\<lambda>ch. 32 \<le> (of_char ch :: nat) \<and> (of_char ch :: nat) \<le> 126) s \<longrightarrow> lib_header_to_str lib s = Some s)"

section \<open>The model passes them\<close>

lemma config_tests_pass: "expiry_hours_convert_to_seconds" "zero_hours_is_zero_seconds"
proof -
  have "parse_ip ''127.0.0.1'' = Some (V4 0x7F000001)" by code_simp
  then show "expiry_hours_convert_to_seconds" "zero_hours_is_zero_seconds"
    by (simp_all add: expiry_hours_convert_to_seconds_def zero_hours_is_zero_seconds_def config_with_expiry_def
        inactivity_expiry_secs_def)
qed

lemma test_pool_eq:
  "test_pool = Some \<lparr>db_columns = Some [''id'', ''created_at'', ''last_activity'', ''password_hash''], db_rows = []\<rparr>"
  by code_simp

lemma created_row:
  assumes "call_ok c" "has_columns db [''id'', ''created_at'', ''last_activity'', ''password_hash'']"
    and "rid \<notin> set (keys (db_rows db))"
  shows "create_room c rid db = (Inr (), db\<lparr>db_rows := db_rows db
      @ [(rid, \<lparr>row_created_at = call_clock c, row_last_activity = call_clock c, row_password_hash = None\<rparr>)]\<rparr>)"
proof -
  have "AList.update rid v m = m @ [(rid, v)]" if "rid \<notin> set (keys m)" for v and m :: "(string \<times> room_row) list"
    using that by (induction m) auto
  with assms show ?thesis
    by (simp add: create_room_def create_room_with_password_def Let_def now_timestamp_def map_of_eq_None_iff)
qed

lemma db_tests_pass:
  assumes "sane_calls c"
  shows "create_and_check_room c"
    "delete_inactive_rooms_targets_only_stale_rooms c"
    "update_activity_refreshes_timestamp c"
proof -
  have ok: "call_ok (c i)" and clock: "3600 < uint (call_clock (c i))" "uint (call_clock (c i)) < 2 ^ 63"
    and near: "uint (call_clock (c i)) \<le> uint (call_clock (c j)) + 3600" for i j
    using assms by (auto simp: sane_calls_def)
  note rooms = test_pool_eq created_row [OF ok] has_columns_def room_exists_def ok reset_activity_def
  show "create_and_check_room c"
    by (simp add: create_and_check_room_def rooms)
  have cutoff: "sint (call_clock (c 2) - 3600) = uint (call_clock (c 2)) - 3600"
    using sint_cutoff [of 3600 "c 2"] clock [of 2] by (simp add: now_timestamp_def)
  have fresh: "sint (call_clock (c i)) = uint (call_clock (c i))" for i
    by (rule sint_small [OF clock(2)])
  show "delete_inactive_rooms_targets_only_stale_rooms c"
    using clock(1) [of 2] near [of 2 1]
    by (simp add: delete_inactive_rooms_targets_only_stale_rooms_def rooms delete_inactive_rooms_def Let_def
        now_timestamp_def cutoff fresh retain_def)
  show "update_activity_refreshes_timestamp c"
    using clock(1) [of 1]
    by (simp add: update_activity_refreshes_timestamp_def rooms update_activity_def Let_def now_timestamp_def fresh)
qed

lemma security_test_passes:
  assumes "reads_visible_ascii lib"
  shows "forwarded_address_is_trusted_only_from_configured_proxy lib"
proof -
  have str: "lib_header_to_str lib ''198.51.100.5'' = Some ''198.51.100.5''"
      "lib_header_to_str lib ''198.51.100.5, 192.0.2.2'' = Some ''198.51.100.5, 192.0.2.2''"
    using assms by (simp_all add: reads_visible_ascii_def)
  have ip: "parse_ip ''192.0.2.1'' = Some (V4 0xC0000201)" by code_simp
  show ?thesis
    by (simp add: forwarded_address_is_trusted_only_from_configured_proxy_def client_ip_def header_get_all_def
        header_insert_def str ip parse_ip_tests)
qed

section \<open>Circumstances that meet them\<close>

lemma sample_calls_sane: "sane_calls (\<lambda>i. sample_call 1700000000)"
  by (simp add: sane_calls_def sample_call_def)

lemma ascii_lib_reads: "reads_visible_ascii ascii_lib"
  by (simp add: reads_visible_ascii_def ascii_lib_def)

end
