(* ===== verification/PasswordTests.thy ===== *)
theory PasswordTests
imports Passwords
begin

text \<open>
  The unit tests of \<open>src/passwords.rs\<close> as executable definitions, and the proof that the model passes
  them. Normalisation and hashing are functions of the crates \<open>unicode_normalization\<close> and \<open>argon2\<close>, so
  the tests hold for every library that normalises the texts of the tests as Unicode defines it and
  writes and reads hashes in the PHC format. The measured times of the benchmark are not modelled.
\<close>

section \<open>The tests\<close>

definition e_acute :: string where "e_acute = bytes [0xC3, 0xA9]"
definition combining_acute :: string where "combining_acute = bytes [0xCC, 0x81]"
definition giraffe :: string where "giraffe = bytes [0xF0, 0x9F, 0xA6, 0x92]"

definition str_repeat :: "string \<Rightarrow> nat \<Rightarrow> string" where
  "str_repeat s n = concat (replicate n s)"

definition normalization_and_limits_preserve_password_semantics :: "crypto_lib \<Rightarrow> bool" where
  "normalization_and_limits_preserve_password_semantics lib \<longleftrightarrow>
     normalize lib ('' caf'' @ e_acute @ '' and telescope '') = Inr ('' caf'' @ e_acute @ '' and telescope '')
     \<and> (case (normalize lib (''cafe'' @ combining_acute @ '' and telescope''),
               normalize lib (''caf'' @ e_acute @ '' and telescope'')) of
          (Inr a, Inr b) \<Rightarrow> a = b
        | _ \<Rightarrow> False)
     \<and> list_all (\<lambda>password. normalize lib password = Inl PwInvalid)
          [[], str_repeat ''a'' 14, str_repeat ''a'' 257, str_repeat giraffe 257]
     \<and> \<not> isl (normalize lib (str_repeat giraffe 256))
     \<and> \<not> isl (normalize lib (str_repeat ''a'' 15))"

text \<open>The set has no order, so \<open>find\<close> may give any of its long enough entries.\<close>

definition common_passwords_are_rejected_before_hashing :: "crypto_lib \<Rightarrow> string \<Rightarrow> bool \<Rightarrow> bool" where
  "common_passwords_are_rejected_before_hashing lib salt panics \<longleftrightarrow>
     (\<exists>s \<in> blocklist. 15 \<le> chars_count s)
     \<and> (\<forall>common \<in> blocklist. 15 \<le> chars_count common \<longrightarrow>
          fst (hash_password lib salt panics common password_service_default) = Inl PwCommon)"

text \<open>
  One call of \<open>compute\<close> past its first await: whether its task still waits, and how many permits the values
  of the waiting future and of the blocking job own; \<open>move\<close> has put the one permit into the job. Aborting
  the task drops the future with what it owns, and leaves the job; the end of the job drops the job's.
\<close>

record compute_call =
  cc_awaited :: bool
  cc_future_permits :: nat
  cc_job_permits :: nat

definition compute_spawn :: "password_service \<Rightarrow> (password_error + compute_call) \<times> password_service" where
  "compute_spawn svc =
     (case compute_begin svc of
        (Inl e, svc') \<Rightarrow> (Inl e, svc')
      | (Inr _, svc') \<Rightarrow> (Inr \<lparr>cc_awaited = True, cc_future_permits = 0, cc_job_permits = 1\<rparr>, svc'))"

definition abort_task :: "compute_call \<Rightarrow> password_service \<Rightarrow> compute_call \<times> password_service" where
  "abort_task call svc =
     (call\<lparr>cc_awaited := False, cc_future_permits := 0\<rparr>, (compute_end ^^ cc_future_permits call) svc)"

definition job_ends :: "compute_call \<Rightarrow> password_service \<Rightarrow> compute_call \<times> password_service" where
  "job_ends call svc = (call\<lparr>cc_job_permits := 0\<rparr>, (compute_end ^^ cc_job_permits call) svc)"

text \<open>\<open>try_acquire_owned\<close> is the acquisition at the start of \<open>compute\<close>; dropping its permit gives it back.\<close>

definition cancellation_keeps_blocking_permit_until_job_finishes :: bool where
  "cancellation_keeps_blocking_permit_until_job_finishes =
     (case compute_spawn password_service_default of
        (Inl _, _) \<Rightarrow> False
      | (Inr call, service) \<Rightarrow>
          (case abort_task call service of
             (call', service1) \<Rightarrow>
               ps_permits service1 = 1
               \<and> (case compute_begin service1 of
                    (Inl _, _) \<Rightarrow> False
                  | (Inr _, service2) \<Rightarrow>
                      (case compute_spawn service2 of
                         (r, service3) \<Rightarrow>
                           r = Inl PwBusy
                           \<and> (case job_ends call' service3 of
                                (_, service4) \<Rightarrow> ps_permits service4 = 1 \<and> ps_permits (compute_end service4) = 2)))))"

text \<open>\<open>str::replace\<close>\<close>

fun str_replace :: "string \<Rightarrow> string \<Rightarrow> string \<Rightarrow> string" where
  "str_replace pat new [] = []"
| "str_replace pat new (c # s) =
     (if pat \<noteq> [] \<and> starts_with (c # s) pat then new @ str_replace pat new (drop (length pat - 1) s)
      else c # str_replace pat new s)"

definition test_password :: string where
  "test_password = ''caf'' @ e_acute @ '' telescopes drift slowly''"

text \<open>
  The salts are the random ones of the two calls. Every call gives its permit back, so all later calls
  start from the service after the second one.
\<close>

definition salted_hashes_verify_and_corrupt_or_unbounded_hashes_fail_closed ::
  "crypto_lib \<Rightarrow> string \<Rightarrow> string \<Rightarrow> bool" where
  "salted_hashes_verify_and_corrupt_or_unbounded_hashes_fail_closed lib salt salt' =
     (case hash_password lib salt False test_password password_service_default of
        (Inl _, _) \<Rightarrow> False
      | (Inr hash, service) \<Rightarrow>
          (case hash_password lib salt' False test_password service of
             (Inl _, _) \<Rightarrow> False
           | (Inr other, service') \<Rightarrow>
               hash \<noteq> other
               \<and> starts_with hash ''$argon2id$v=19$m=65536,t=3,p=1$''
               \<and> fst (verify_password lib False (''cafe'' @ combining_acute @ '' telescopes drift slowly'') hash service')
                   = Inr True
               \<and> fst (verify_password lib False ''different correct length secret'' hash service') = Inr False
               \<and> list_all (\<lambda>corrupt. fst (verify_password lib False test_password corrupt service') = Inl PwInternal)
                   [[], ''broken'', str_replace ''m=65536'' ''m=4294967295'' hash,
                    str_replace ''argon2id'' ''argon2i'' hash]))"

text \<open>\<open>join!\<close> polls the first call up to its await, then the second; both jobs run at the same time.\<close>

definition benchmark_two_concurrent_verifications :: "crypto_lib \<Rightarrow> string \<Rightarrow> bool" where
  "benchmark_two_concurrent_verifications lib salt =
     (case hash_password lib salt False test_password password_service_default of
        (Inl _, _) \<Rightarrow> False
      | (Inr hash, service) \<Rightarrow>
          (case verify_begin lib test_password service of
             (Inl _, _) \<Rightarrow> False
           | (Inr pw, service1) \<Rightarrow>
               (case verify_begin lib test_password service1 of
                  (Inl _, _) \<Rightarrow> False
                | (Inr pw', _) \<Rightarrow>
                    join_result (Some (verify_job lib pw hash)) = Inr True
                    \<and> join_result (Some (verify_job lib pw' hash)) = Inr True)))"

section \<open>What the tests rely on\<close>

definition ascii :: "string \<Rightarrow> bool" where
  "ascii s = list_all (\<lambda>c. (of_char c :: nat) < 128) s"

text \<open>
  Normalisation Form C: ASCII text is in it, the precomposed letter is, a letter followed by the
  combining accent becomes the precomposed one, and the emoji and the Cyrillic entry of the blocklist
  are unchanged.
\<close>

definition nfc_documented :: "crypto_lib \<Rightarrow> bool" where
  "nfc_documented lib \<longleftrightarrow>
     (\<forall>a. ascii a \<longrightarrow> lib_nfc lib a = a)
     \<and> (\<forall>a b. ascii a \<longrightarrow> ascii b \<longrightarrow>
          lib_nfc lib (a @ e_acute @ b) = a @ e_acute @ b
          \<and> lib_nfc lib (a @ ''e'' @ combining_acute @ b) = a @ e_acute @ b)
     \<and> (\<forall>n. lib_nfc lib (str_repeat giraffe n) = str_repeat giraffe n)
     \<and> lib_nfc lib last_password = last_password"

text \<open>
  The text of a hash: a password of at most 1024 bytes gets one, which starts with the parameters;
  different salts give different texts; what is no PHC string does not parse; a text that names another
  algorithm or memory cost is read as it says. \<open>argon_documented\<close> is the rest of what is documented.
\<close>

definition argon_texts :: "crypto_lib \<Rightarrow> bool" where
  "argon_texts lib \<longleftrightarrow>
     (\<forall>salt pw. length salt = 16 \<longrightarrow> length pw \<le> 1024 \<longrightarrow>
        (\<exists>rest. lib_hash_password lib argon2 salt pw = Some (''$argon2id$v=19$m=65536,t=3,p=1$'' @ rest)))
     \<and> (\<forall>salt salt' pw s. length salt = 16 \<longrightarrow> length salt' = 16 \<longrightarrow> salt \<noteq> salt' \<longrightarrow>
          lib_hash_password lib argon2 salt pw = Some s \<longrightarrow> lib_hash_password lib argon2 salt' pw \<noteq> Some s)
     \<and> lib_parse_phc lib [] = None \<and> lib_parse_phc lib ''broken'' = None
     \<and> (\<forall>rest phc params. lib_parse_phc lib (''$argon2id$v=19$m=4294967295,t=3,p=1$'' @ rest) = Some phc \<longrightarrow>
          lib_params lib phc = Some params \<longrightarrow> m_cost params = 4294967295)
     \<and> (\<forall>rest phc. lib_parse_phc lib (''$argon2i$v=19$m=65536,t=3,p=1$'' @ rest) = Some phc \<longrightarrow>
          phc_algorithm phc = ''argon2i'')"

text \<open>The wrong password of the test does not have the hash of the right one.\<close>

definition no_collision :: "crypto_lib \<Rightarrow> bool" where
  "no_collision lib \<longleftrightarrow>
     (\<forall>salt s phc. length salt = 16 \<longrightarrow> lib_hash_password lib argon2 salt test_password = Some s \<longrightarrow>
        lib_parse_phc lib s = Some phc \<longrightarrow>
        lib_verify_password lib argon2 ''different correct length secret'' phc = VerifyPasswordInvalid)"

section \<open>The model passes them\<close>

lemma str_repeat_count [simp]:
  "length (str_repeat s n) = n * length s" "chars_count (str_repeat s n) = n * chars_count s"
  by (induction n) (simp_all add: str_repeat_def chars_count_def)

lemma test_letters [simp]:
  "length e_acute = 2" "chars_count e_acute = 1" "length combining_acute = 2" "chars_count combining_acute = 1"
  "length giraffe = 4" "chars_count giraffe = 1"
  by code_simp+

lemma normalization_test_passes:
  assumes "nfc_documented lib"
  shows "normalization_and_limits_preserve_password_semantics lib"
proof -
  have as: "lib_nfc lib (str_repeat ''a'' n) = str_repeat ''a'' n" for n
    using assms by (auto simp: nfc_documented_def ascii_def str_repeat_def list_all_iff)
  have gs: "lib_nfc lib (str_repeat giraffe n) = str_repeat giraffe n" for n
    using assms by (simp add: nfc_documented_def)
  have nfc: "lib_nfc lib (a @ e_acute @ b) = a @ e_acute @ b"
      "lib_nfc lib (a @ ''e'' @ combining_acute @ b) = a @ e_acute @ b" if "ascii a" "ascii b" for a b
    using assms that unfolding nfc_documented_def by blast+
  have e: "lib_nfc lib ('' caf'' @ e_acute @ '' and telescope '') = '' caf'' @ e_acute @ '' and telescope ''"
      "lib_nfc lib (''caf'' @ e_acute @ '' and telescope'') = ''caf'' @ e_acute @ '' and telescope''"
      "lib_nfc lib (''caf'' @ ''e'' @ combining_acute @ '' and telescope'') = ''caf'' @ e_acute @ '' and telescope''"
    by (rule nfc; simp add: ascii_def)+
  have empty: "lib_nfc lib [] = []" using as [of 0] by (simp add: str_repeat_def)
  have count: "chars_count '' caf'' = 4" "chars_count ''caf'' = 3" "chars_count '' and telescope '' = 15"
      "chars_count '' and telescope'' = 14" "chars_count ''cafe'' = 4" "chars_count ''a'' = 1"
    by code_simp+
  have acc: "acceptable lib ('' caf'' @ e_acute @ '' and telescope '')"
      "acceptable lib (''caf'' @ e_acute @ '' and telescope'')"
      "acceptable lib (''caf'' @ ''e'' @ combining_acute @ '' and telescope'')"
    unfolding acceptable_def e chars_count_append count by simp_all
  have bad: "\<not> acceptable lib []" "\<not> acceptable lib (str_repeat ''a'' 14)"
      "\<not> acceptable lib (str_repeat ''a'' 257)" "\<not> acceptable lib (str_repeat giraffe 257)"
    unfolding acceptable_def as gs empty by (simp_all add: count) (simp add: chars_count_def)
  have good: "acceptable lib (str_repeat giraffe 256)" "acceptable lib (str_repeat ''a'' 15)"
    unfolding acceptable_def as gs by (simp_all add: count)
  have spell: "''cafe'' @ combining_acute @ '' and telescope'' = ''caf'' @ ''e'' @ combining_acute @ '' and telescope''"
    by simp
  show ?thesis
    unfolding normalization_and_limits_preserve_password_semantics_def normalize_eq spell
    using acc bad good by (simp add: e del: append_Cons)
qed

lemma common_test_passes:
  assumes "nfc_documented lib"
  shows "common_passwords_are_rejected_before_hashing lib salt panics"
proof -
  have nfc: "lib_nfc lib s = s" if "s \<in> blocklist" for s
  proof (cases "s = last_password")
    case True
    then show ?thesis using assms by (simp add: nfc_documented_def)
  next
    case False
    then have "list_all plain_char s"
      using that ascii_passwords_checked by (auto simp: blocklist_eq common_passwords_def list_all_iff printable_ascii_def)
    moreover have "(of_char ch :: nat) < 128" if "plain_char ch" for ch
      using that by (cases ch) simp
    ultimately have "ascii s" by (auto simp: ascii_def list_all_iff)
    then show ?thesis using assms by (simp add: nfc_documented_def)
  qed
  have "fst (hash_password lib salt panics s password_service_default) = Inl PwCommon" if "s \<in> blocklist" for s
    using blocklist_entry [OF that] that by (simp add: hash_password_cases acceptable_def nfc [OF that])
  moreover have "last_password \<in> blocklist" by (simp add: blocklist_eq common_passwords_def)
  ultimately show ?thesis
    unfolding common_passwords_are_rejected_before_hashing_def using blocklist_entry by blast
qed

lemma cancellation_test_passes: "cancellation_keeps_blocking_permit_until_job_finishes"
  by code_simp

lemma test_password_nfc:
  assumes "nfc_documented lib"
  shows "lib_nfc lib test_password = test_password"
    "lib_nfc lib (''cafe'' @ combining_acute @ '' telescopes drift slowly'') = test_password"
    "lib_nfc lib ''different correct length secret'' = ''different correct length secret''"
proof -
  have nfc: "lib_nfc lib (a @ e_acute @ b) = a @ e_acute @ b"
      "lib_nfc lib (a @ ''e'' @ combining_acute @ b) = a @ e_acute @ b" "lib_nfc lib a = a" if "ascii a" "ascii b" for a b
    using assms that unfolding nfc_documented_def by blast+
  show "lib_nfc lib test_password = test_password"
    unfolding test_password_def by (rule nfc; simp add: ascii_def)
  show "lib_nfc lib (''cafe'' @ combining_acute @ '' telescopes drift slowly'') = test_password"
    using nfc(2) [of "''caf''" "'' telescopes drift slowly''"] by (simp add: test_password_def ascii_def)
  show "lib_nfc lib ''different correct length secret'' = ''different correct length secret''"
    by (rule nfc(3) [of _ "[]"]) (simp_all add: ascii_def)
qed

lemma test_password_acceptable:
  assumes "nfc_documented lib"
  shows "acceptable lib test_password"
    "acceptable lib (''cafe'' @ combining_acute @ '' telescopes drift slowly'')"
    "acceptable lib ''different correct length secret''"
    "test_password \<notin> blocklist"
proof -
  have len: "length test_password = 29" "chars_count test_password = 28"
      "length (''cafe'' @ combining_acute @ '' telescopes drift slowly'') = 30"
      "chars_count ''different correct length secret'' = 31"
    by code_simp+
  then show "acceptable lib test_password"
    "acceptable lib (''cafe'' @ combining_acute @ '' telescopes drift slowly'')"
    "acceptable lib ''different correct length secret''"
    unfolding acceptable_def test_password_nfc [OF assms] by simp_all
  have "\<not> list_all plain_char test_password" by code_simp
  moreover have "test_password \<noteq> last_password" using len(1) last_password_checked(1) by auto
  ultimately show "test_password \<notin> blocklist"
    using ascii_passwords_checked by (auto simp: blocklist_eq common_passwords_def list_all_iff printable_ascii_def)
qed

lemma replaced_texts:
  "str_replace ''m=65536'' ''m=4294967295'' (''$argon2id$v=19$m=65536,t=3,p=1$'' @ rest)
     = ''$argon2id$v=19$m=4294967295,t=3,p=1$'' @ str_replace ''m=65536'' ''m=4294967295'' rest"
  "str_replace ''argon2id'' ''argon2i'' (''$argon2id$v=19$m=65536,t=3,p=1$'' @ rest)
     = ''$argon2i$v=19$m=65536,t=3,p=1$'' @ str_replace ''argon2id'' ''argon2i'' rest"
  by (simp_all add: starts_with_def)

lemma corrupt_refused:
  assumes "argon_texts lib" "nfc_documented lib" "0 < ps_permits svc"
    and "corrupt \<in> {[], ''broken'', str_replace ''m=65536'' ''m=4294967295'' (''$argon2id$v=19$m=65536,t=3,p=1$'' @ rest),
      str_replace ''argon2id'' ''argon2i'' (''$argon2id$v=19$m=65536,t=3,p=1$'' @ rest)}"
  shows "fst (verify_password lib False test_password corrupt svc) = Inl PwInternal"
proof -
  have "\<not> policy_phc lib phc" if "lib_parse_phc lib corrupt = Some phc" for phc
  proof
    assume pol: "policy_phc lib phc"
    then obtain params where p: "lib_params lib phc = Some params" "m_cost params = 65536" "phc_algorithm phc = ''argon2id''"
      by (auto simp: policy_phc_def)
    have cost: "\<And>rest params'. lib_parse_phc lib (''$argon2id$v=19$m=4294967295,t=3,p=1$'' @ rest) = Some phc \<Longrightarrow>
          lib_params lib phc = Some params' \<Longrightarrow> m_cost params' = 4294967295"
      and alg: "\<And>rest. lib_parse_phc lib (''$argon2i$v=19$m=65536,t=3,p=1$'' @ rest) = Some phc \<Longrightarrow>
          phc_algorithm phc = ''argon2i''"
      and none: "lib_parse_phc lib [] = None" "lib_parse_phc lib ''broken'' = None"
      using assms(1) unfolding argon_texts_def by blast+
    from assms(4) [unfolded replaced_texts] that show False
      using none cost [OF _ p(1)] alg p(2,3) by (elim insertE emptyE) fastforce+
  qed
  then show ?thesis
    using test_password_acceptable(1) [OF assms(2)] assms(3)
    by (auto simp: verify_password_cases verify_job_eq split: option.splits)
qed

lemma test_hash:
  assumes "argon_texts lib" "nfc_documented lib" "length salt = 16"
  obtains rest where "lib_hash_password lib argon2 salt test_password = Some (''$argon2id$v=19$m=65536,t=3,p=1$'' @ rest)"
    "hash_password lib salt False test_password password_service_default
     = (Inr (''$argon2id$v=19$m=65536,t=3,p=1$'' @ rest), password_service_default)"
proof -
  have "length test_password \<le> 1024" using test_password_acceptable(1) [OF assms(2)] by (simp add: acceptable_def)
  then obtain rest where "lib_hash_password lib argon2 salt test_password = Some (''$argon2id$v=19$m=65536,t=3,p=1$'' @ rest)"
    using assms(1,3) unfolding argon_texts_def by blast
  then show thesis
    using that test_password_acceptable(1,4) [OF assms(2)] test_password_nfc(1) [OF assms(2)]
    by (simp add: hash_password_cases password_service_default_def)
qed

lemma salted_test_passes:
  assumes "argon_documented lib" "argon_texts lib" "no_collision lib" "nfc_documented lib"
    and "length salt = 16" "length salt' = 16" "salt \<noteq> salt'"
  shows "salted_hashes_verify_and_corrupt_or_unbounded_hashes_fail_closed lib salt salt'"
proof -
  let ?svc = password_service_default
  obtain rest where hash: "lib_hash_password lib argon2 salt test_password = Some (''$argon2id$v=19$m=65536,t=3,p=1$'' @ rest)"
      "hash_password lib salt False test_password ?svc = (Inr (''$argon2id$v=19$m=65536,t=3,p=1$'' @ rest), ?svc)"
    by (rule test_hash [OF assms(2,4,5)])
  obtain rest' where other: "lib_hash_password lib argon2 salt' test_password = Some (''$argon2id$v=19$m=65536,t=3,p=1$'' @ rest')"
      "hash_password lib salt' False test_password ?svc = (Inr (''$argon2id$v=19$m=65536,t=3,p=1$'' @ rest'), ?svc)"
    by (rule test_hash [OF assms(2,4,6)])
  have "rest \<noteq> rest'" using assms(2,5-7) hash(1) other(1) unfolding argon_texts_def by blast
  have free: "0 < ps_permits ?svc" by (simp add: password_service_default_def)
  note nfc = test_password_nfc [OF assms(4)] and acc = test_password_acceptable [OF assms(4)]
  let ?hash = "''$argon2id$v=19$m=65536,t=3,p=1$'' @ rest"
  have good: "verify_password lib False (''cafe'' @ combining_acute @ '' telescopes drift slowly'') ?hash ?svc = (Inr True, ?svc)"
    by (rule hash_verifies [OF assms(1,5) hash(2)]) (use acc(2) nfc free in \<open>simp_all add: acceptable_def\<close>)
  have "verify_password lib False test_password ?hash ?svc = (Inr True, ?svc)"
    by (rule hash_verifies [OF assms(1,5) hash(2)]) (use acc(1) free in \<open>simp_all add: acceptable_def\<close>)
  then obtain phc where phc: "lib_parse_phc lib ?hash = Some phc" "policy_phc lib phc"
    using free acc(1) by (auto simp: verify_password_cases verify_job_eq split: option.splits if_splits)
  have "lib_verify_password lib argon2 ''different correct length secret'' phc = VerifyPasswordInvalid"
    using assms(3,5) hash(1) phc(1) unfolding no_collision_def by blast
  then have bad: "fst (verify_password lib False ''different correct length secret'' ?hash ?svc) = Inr False"
    using phc free acc(3) nfc(3) by (simp add: verify_password_cases verify_job_eq del: append_Cons)
  show ?thesis
    unfolding salted_hashes_verify_and_corrupt_or_unbounded_hashes_fail_closed_def hash(2) prod.case sum.case
      other(2)
    using good bad \<open>rest \<noteq> rest'\<close> corrupt_refused [OF assms(2,4) free, where rest = rest]
    by (simp del: append_Cons append.simps str_replace.simps add: starts_with_def)
qed

lemma benchmark_passes:
  assumes "argon_documented lib" "argon_texts lib" "nfc_documented lib" "length salt = 16"
  shows "benchmark_two_concurrent_verifications lib salt"
proof -
  let ?svc = password_service_default
  obtain rest where hash: "hash_password lib salt False test_password ?svc
      = (Inr (''$argon2id$v=19$m=65536,t=3,p=1$'' @ rest), ?svc)"
    by (rule test_hash [OF assms(2-4)])
  note acc = test_password_acceptable(1) [OF assms(3)]
  have "verify_password lib False test_password (''$argon2id$v=19$m=65536,t=3,p=1$'' @ rest) ?svc = (Inr True, ?svc)"
    by (rule hash_verifies [OF assms(1,4) hash]) (use acc in \<open>simp_all add: acceptable_def password_service_default_def\<close>)
  then show ?thesis
    unfolding benchmark_two_concurrent_verifications_def hash
    using acc by (simp add: verify_password_cases verify_begin_def normalize_eq compute_begin_def
        password_service_default_def join_result_def del: append_Cons)
qed

section \<open>A library that keeps to it\<close>

text \<open>The one composition the tests need.\<close>

fun compose_acute :: "string \<Rightarrow> string" where
  "compose_acute (x # y # z # s) =
     (if [x, y, z] = ''e'' @ combining_acute then e_acute @ compose_acute s else x # compose_acute (y # z # s))"
| "compose_acute s = s"

definition composing_lib :: crypto_lib where
  "composing_lib = toy_lib\<lparr>lib_nfc := compose_acute,
     lib_hash_password := (\<lambda>_ salt pw. Some (''$argon2id$v=19$m=65536,t=3,p=1$'' @ salt @ toy_digest pw)),
     lib_parse_phc := (\<lambda>s. if starts_with s ''$argon2id$v=19$m=65536,t=3,p=1$'' \<and> length s = 31 + 48
       then Some (toy_phc (drop 31 s)) else None)\<rparr>"

lemma combining_acute_eq: "combining_acute = [CHR 0xCC, CHR 0x81]"
  by code_simp

lemma compose_acute_id: "CHR 0xCC \<notin> set s \<Longrightarrow> compose_acute s = s"
  by (induction s rule: compose_acute.induct) (auto simp: combining_acute_eq)

lemma compose_acute_step: "hd s \<noteq> CHR 0xCC \<Longrightarrow> compose_acute (x # s) = x # compose_acute s"
  by (cases "(x # s)" rule: compose_acute.cases) (auto simp: combining_acute_eq)

lemma compose_acute_prefix:
  "CHR 0xCC \<notin> set a \<Longrightarrow> CHR 0xCC \<notin> set b \<Longrightarrow>
   compose_acute (a @ ''e'' @ combining_acute @ b) = a @ e_acute @ b"
proof (induction a)
  case Nil
  then show ?case by (simp add: combining_acute_eq compose_acute_id)
next
  case (Cons x a)
  have "hd (a @ ''e'' @ combining_acute @ b) \<noteq> CHR 0xCC"
    using Cons.prems by (cases a) auto
  with Cons show ?case by (simp add: compose_acute_step)
qed

lemma composing_lib_documented: "nfc_documented composing_lib"
proof -
  have "CHR 0xCC \<notin> set a" if "ascii a" for a
    using that by (auto simp: ascii_def list_all_iff)
  moreover have "CHR 0xCC \<notin> set e_acute" "CHR 0xCC \<notin> set last_password"
    by code_simp+
  moreover have "CHR 0xCC \<notin> set (str_repeat giraffe n)" for n
  proof -
    have "CHR 0xCC \<notin> set giraffe" by code_simp
    then show ?thesis by (simp add: str_repeat_def)
  qed
  ultimately show ?thesis
    unfolding nfc_documented_def composing_lib_def
    by (simp add: compose_acute_id compose_acute_prefix del: append_Cons)
qed

lemma composing_lib_argon:
  "argon_documented composing_lib" "argon_texts composing_lib" "no_collision composing_lib"
proof -
  show "argon_documented composing_lib"
    by (auto simp: argon_documented_def composing_lib_def toy_lib_def toy_phc_def toy_digest_def argon2_def
        output_bytes_def starts_with_def)
  show "argon_texts composing_lib"
    by (auto simp: argon_texts_def composing_lib_def toy_lib_def starts_with_def)
  have "toy_digest ''different correct length secret'' \<noteq> toy_digest test_password" by code_simp
  then show "no_collision composing_lib"
    by (auto simp: no_collision_def composing_lib_def toy_lib_def toy_phc_def starts_with_def split: if_splits)
qed

end
