(* ===== verification/WsTests.thy ===== *)
theory WsTests
imports Ws
begin

text \<open>
  The unit tests of \<open>src/routes/ws.rs\<close> as executable definitions, and the proof that the model passes
  each of them. The crates the tests call are arguments: the encoder of \<open>base64\<close>, and \<open>to_text\<close> for
  \<open>serde_json::to_string\<close> on a JSON value; what the tests rely on of them are the three predicates
  before the proofs. \<open>t0\<close> is the instant a test reads, \<open>t1\<close> the one \<open>RateLimiter::new\<close> reads.
\<close>

section \<open>The key validators\<close>

definition key_of_len :: "(string \<Rightarrow> string) \<Rightarrow> nat \<Rightarrow> string" where
  "key_of_len encode len = encode (replicate len (char_of (0 :: nat)))"

definition accepts_correctly_sized_mldsa65_key :: "web_lib \<Rightarrow> (string \<Rightarrow> string) \<Rightarrow> bool" where
  "accepts_correctly_sized_mldsa65_key lib encode \<longleftrightarrow>
     is_valid_mldsa65_public_key lib (key_of_len encode 1952)"

definition rejects_wrong_length_mldsa65_key :: "web_lib \<Rightarrow> (string \<Rightarrow> string) \<Rightarrow> bool" where
  "rejects_wrong_length_mldsa65_key lib encode \<longleftrightarrow>
     \<not> is_valid_mldsa65_public_key lib (key_of_len encode 1951)
     \<and> \<not> is_valid_mldsa65_public_key lib (key_of_len encode 1953)
     \<and> \<not> is_valid_mldsa65_public_key lib (key_of_len encode 0)"

definition rejects_non_base64_mldsa65_key :: "web_lib \<Rightarrow> bool" where
  "rejects_non_base64_mldsa65_key lib \<longleftrightarrow> \<not> is_valid_mldsa65_public_key lib ''not valid base64!!!''"

definition accepts_correctly_sized_mlkem768_key :: "web_lib \<Rightarrow> (string \<Rightarrow> string) \<Rightarrow> bool" where
  "accepts_correctly_sized_mlkem768_key lib encode \<longleftrightarrow>
     is_valid_mlkem768_public_key lib (key_of_len encode 1184)"

definition rejects_wrong_length_mlkem768_key :: "web_lib \<Rightarrow> (string \<Rightarrow> string) \<Rightarrow> bool" where
  "rejects_wrong_length_mlkem768_key lib encode \<longleftrightarrow>
     \<not> is_valid_mlkem768_public_key lib (key_of_len encode 1183)
     \<and> \<not> is_valid_mlkem768_public_key lib (key_of_len encode 1185)"

definition rejects_non_base64_mlkem768_key :: "web_lib \<Rightarrow> bool" where
  "rejects_non_base64_mlkem768_key lib \<longleftrightarrow> \<not> is_valid_mlkem768_public_key lib ''@@@not-base64@@@''"

definition does_not_confuse_the_two_key_types :: "web_lib \<Rightarrow> (string \<Rightarrow> string) \<Rightarrow> bool" where
  "does_not_confuse_the_two_key_types lib encode \<longleftrightarrow>
     \<not> is_valid_mlkem768_public_key lib (key_of_len encode 1952)
     \<and> \<not> is_valid_mldsa65_public_key lib (key_of_len encode 1184)"

section \<open>The rate limiter\<close>

definition rate_limiter_allows_burst_up_to_capacity :: "instant \<Rightarrow> instant \<Rightarrow> bool" where
  "rate_limiter_allows_burst_up_to_capacity t0 t1 \<longleftrightarrow>
     fst (run_checks rate_limiter_check (rate_limiter_new 3 1 t1) [t0, t0, t0, t0])
     = [True, True, True, False]"

definition rate_limiter_refills_over_time :: "instant \<Rightarrow> instant \<Rightarrow> bool" where
  "rate_limiter_refills_over_time t0 t1 \<longleftrightarrow>
     fst (run_checks rate_limiter_check (rate_limiter_new 2 1 t1)
       [t0, t0, t0, t0 + 1 * nanos_per_sec, t0 + 1 * nanos_per_sec])
     = [True, True, False, True, False]"

definition rate_limiter_caps_at_capacity :: "instant \<Rightarrow> instant \<Rightarrow> bool" where
  "rate_limiter_caps_at_capacity t0 t1 \<longleftrightarrow>
     (let later = t0 + 10 * nanos_per_sec
      in fst (run_checks rate_limiter_check (rate_limiter_new 2 100 t1) [later, later, later])
         = [True, True, False])"

section \<open>Messages to the client\<close>

definition welcome_serializes_with_creator :: "(json \<Rightarrow> string) \<Rightarrow> bool" where
  "welcome_serializes_with_creator to_text \<longleftrightarrow>
     to_text (outgoing_json (Welcome protocol_version ''p1'' True (Some ''c1'')))
     = ''{\"type\":\"welcome\",\"protocol_version\":1,\"peer_id\":\"p1\",\"is_creator\":true,\"creator_id\":\"c1\"}''"

definition welcome_omits_creator_when_absent :: "(json \<Rightarrow> string) \<Rightarrow> bool" where
  "welcome_omits_creator_when_absent to_text \<longleftrightarrow>
     to_text (outgoing_json (Welcome protocol_version ''p1'' False None))
     = ''{\"type\":\"welcome\",\"protocol_version\":1,\"peer_id\":\"p1\",\"is_creator\":false}''"

definition peer_key_omits_sig_when_absent :: "(json \<Rightarrow> string) \<Rightarrow> bool" where
  "peer_key_omits_sig_when_absent to_text \<longleftrightarrow>
     to_text (outgoing_json (PeerKey ''p1'' ''PK'' ''PQ'' None))
     = ''{\"type\":\"peer_key\",\"peer_id\":\"p1\",\"public_key\":\"PK\",\"pq_public_key\":\"PQ\"}''"

definition peer_key_includes_sig_when_present :: "(json \<Rightarrow> string) \<Rightarrow> bool" where
  "peer_key_includes_sig_when_present to_text \<longleftrightarrow>
     to_text (outgoing_json (PeerKey ''p1'' ''PK'' ''PQ'' (Some ''S'')))
     = ''{\"type\":\"peer_key\",\"peer_id\":\"p1\",\"public_key\":\"PK\",\"pq_public_key\":\"PQ\",\"sig\":\"S\"}''"

definition chat_event_maps_to_message_frame :: "(json \<Rightarrow> string) \<Rightarrow> bool" where
  "chat_event_maps_to_message_frame to_text \<longleftrightarrow>
     to_text (outgoing_json (outgoing_of_event (Chat ''p1'' ''X'' (Some 7) (Some 42))))
     = ''{\"type\":\"message\",\"peer_id\":\"p1\",\"payload\":\"X\",\"epoch\":7,\"counter\":42}''"

definition chat_event_omits_epoch_and_counter_when_absent :: "(json \<Rightarrow> string) \<Rightarrow> bool" where
  "chat_event_omits_epoch_and_counter_when_absent to_text \<longleftrightarrow>
     to_text (outgoing_json (outgoing_of_event (Chat ''p1'' ''X'' None None)))
     = ''{\"type\":\"message\",\"peer_id\":\"p1\",\"payload\":\"X\"}''"

definition peer_joined_event_maps_to_peer_joined_frame :: "(json \<Rightarrow> string) \<Rightarrow> bool" where
  "peer_joined_event_maps_to_peer_joined_frame to_text \<longleftrightarrow>
     to_text (outgoing_json (outgoing_of_event (PeerJoined ''p1'' ''PK'' ''PQ'' None)))
     = ''{\"type\":\"peer_joined\",\"peer_id\":\"p1\",\"public_key\":\"PK\",\"pq_public_key\":\"PQ\"}''"

definition tree_commit_event_maps_to_tree_commit_frame :: "(json \<Rightarrow> string) \<Rightarrow> bool" where
  "tree_commit_event_maps_to_tree_commit_frame to_text \<longleftrightarrow>
     to_text (outgoing_json (outgoing_of_event (TreeCommit ''p1'' ''TC'')))
     = ''{\"type\":\"tree_commit\",\"peer_id\":\"p1\",\"tree_commit\":\"TC\"}''"

definition tree_welcome_event_maps_to_tree_welcome_frame :: "(json \<Rightarrow> string) \<Rightarrow> bool" where
  "tree_welcome_event_maps_to_tree_welcome_frame to_text \<longleftrightarrow>
     to_text (outgoing_json (outgoing_of_event (TreeWelcome ''p1'' ''p2'' ''TW'')))
     = ''{\"type\":\"tree_welcome\",\"tree_welcome\":\"TW\"}''"

definition typing_event_maps_to_typing_frame :: "(json \<Rightarrow> string) \<Rightarrow> bool" where
  "typing_event_maps_to_typing_frame to_text \<longleftrightarrow>
     to_text (outgoing_json (outgoing_of_event (Typing ''p1'')))
     = ''{\"type\":\"typing\",\"peer_id\":\"p1\"}''"

definition peer_left_event_maps_to_peer_left_frame :: "(json \<Rightarrow> string) \<Rightarrow> bool" where
  "peer_left_event_maps_to_peer_left_frame to_text \<longleftrightarrow>
     to_text (outgoing_json (outgoing_of_event (PeerLeft ''p1'')))
     = ''{\"type\":\"peer_left\",\"peer_id\":\"p1\"}''"

definition room_expired_event_maps_to_room_expired_frame :: "(json \<Rightarrow> string) \<Rightarrow> bool" where
  "room_expired_event_maps_to_room_expired_frame to_text \<longleftrightarrow>
     to_text (outgoing_json (outgoing_of_event (RoomExpired)))
     = ''{\"type\":\"room_expired\"}''"

definition room_full_serializes_as_bare_type :: "(json \<Rightarrow> string) \<Rightarrow> bool" where
  "room_full_serializes_as_bare_type to_text \<longleftrightarrow>
     to_text (outgoing_json (RoomFull))
     = ''{\"type\":\"room_full\"}''"

section \<open>Messages from the client\<close>

text \<open>\<open>serde_json::from_str\<close> at type \<open>IncomingMessage\<close>.\<close>

definition incoming_from_str :: "web_lib \<Rightarrow> string \<Rightarrow> incoming_message option" where
  "incoming_from_str lib text = Option.bind (web_json lib text) decode_incoming"

definition parses_key_announce_with_all_fields :: "web_lib \<Rightarrow> bool" where
  "parses_key_announce_with_all_fields lib =
     (case incoming_from_str lib
         ''{\"type\":\"key_announce\",\"public_key\":\"PK\",\"pq_public_key\":\"PQ\",\"sig\":\"S\"}'' of
        Some (InKeyAnnounce public_key pq_public_key sig) \<Rightarrow>
          public_key = Some ''PK'' \<and> pq_public_key = Some ''PQ'' \<and> sig = Some ''S''
      | _ \<Rightarrow> False)"

definition parses_message_and_defaults_missing_fields :: "web_lib \<Rightarrow> bool" where
  "parses_message_and_defaults_missing_fields lib =
     (case incoming_from_str lib ''{\"type\":\"message\",\"payload\":\"X\"}'' of
        Some (InMessage payload epoch counter) \<Rightarrow> payload = Some ''X'' \<and> epoch = None \<and> counter = None
      | _ \<Rightarrow> False)"

definition unknown_type_deserializes_to_unknown_not_error :: "web_lib \<Rightarrow> bool" where
  "unknown_type_deserializes_to_unknown_not_error lib =
     (case incoming_from_str lib
         ''{\"type\":\"definitely_not_a_real_type\",\"foo\":1}'' of
        Some InUnknown \<Rightarrow> True
      | _ \<Rightarrow> False)"

definition legacy_and_unknown_fields_are_ignored :: "web_lib \<Rightarrow> bool" where
  "legacy_and_unknown_fields_are_ignored lib =
     (case incoming_from_str lib
         ''{\"type\":\"message\",\"payload\":\"X\",\"pq_ciphertext\":\"legacy\",\"extra\":true}'' of
        Some (InMessage _ _ _) \<Rightarrow> True
      | _ \<Rightarrow> False)"

section \<open>What the tests rely on of the crates\<close>

text \<open>
  \<open>STANDARD\<close>: decoding undoes encoding, and a text with a character outside the alphabet is refused.
\<close>

definition base64_char :: "char \<Rightarrow> bool" where
  "base64_char c \<longleftrightarrow> (let n = of_char c :: nat in
     (65 \<le> n \<and> n \<le> 90) \<or> (97 \<le> n \<and> n \<le> 122) \<or> (48 \<le> n \<and> n \<le> 57) \<or> n = 43 \<or> n = 47 \<or> n = 61)"

definition base64_codec :: "web_lib \<Rightarrow> (string \<Rightarrow> string) \<Rightarrow> bool" where
  "base64_codec lib encode \<longleftrightarrow>
     (\<forall>bs. web_base64 lib (encode bs) = Some bs)
     \<and> (\<forall>s. web_base64 lib s \<noteq> None \<longrightarrow> list_all base64_char s)"

text \<open>
  The compact form \<open>serde_json\<close> writes: no white space, entries in order, decimal integers, and
  printable strings without quotes and backslashes between quotes.
\<close>

definition quoted :: "string \<Rightarrow> string" where
  "quoted s = CHR 0x22 # s @ [CHR 0x22]"

definition unescaped :: "char \<Rightarrow> bool" where
  "unescaped c \<longleftrightarrow> (let n = of_char c :: nat in 32 \<le> n \<and> n \<le> 126 \<and> n \<noteq> 34 \<and> n \<noteq> 92)"

fun comma_separated :: "string list \<Rightarrow> string" where
  "comma_separated [] = []"
| "comma_separated [s] = s"
| "comma_separated (s # ss) = s @ '','' @ comma_separated ss"

definition compact_writer :: "(json \<Rightarrow> string) \<Rightarrow> bool" where
  "compact_writer to_text \<longleftrightarrow>
     (\<forall>s. list_all unescaped s \<longrightarrow> to_text (JStr s) = quoted s)
     \<and> (\<forall>n. to_text (json_u64 n) = u64_to_string n)
     \<and> to_text (JBool True) = ''true'' \<and> to_text (JBool False) = ''false''
     \<and> (\<forall>es. to_text (JObj es) =
          ''{'' @ comma_separated (map (\<lambda>e. to_text (JStr (fst e)) @ '':'' @ to_text (snd e)) es) @ ''}'')"

text \<open>The documents the tests read, and the values they denote.\<close>

definition documents :: "(string \<times> json) list" where
  "documents =
     [(''{\"type\":\"key_announce\",\"public_key\":\"PK\",\"pq_public_key\":\"PQ\",\"sig\":\"S\"}'',
       JObj [(''type'', JStr ''key_announce''), (''public_key'', JStr ''PK''), (''pq_public_key'', JStr ''PQ''),
             (''sig'', JStr ''S'')]),
      (''{\"type\":\"message\",\"payload\":\"X\"}'',
       JObj [(''type'', JStr ''message''), (''payload'', JStr ''X'')]),
      (''{\"type\":\"definitely_not_a_real_type\",\"foo\":1}'',
       JObj [(''type'', JStr ''definitely_not_a_real_type''), (''foo'', JInt 1)]),
      (''{\"type\":\"message\",\"payload\":\"X\",\"pq_ciphertext\":\"legacy\",\"extra\":true}'',
       JObj [(''type'', JStr ''message''), (''payload'', JStr ''X''), (''pq_ciphertext'', JStr ''legacy''),
             (''extra'', JBool True)])]"

definition reads_documents :: "web_lib \<Rightarrow> bool" where
  "reads_documents lib \<longleftrightarrow> list_all (\<lambda>d. web_json lib (fst d) = Some (snd d)) documents"

section \<open>The model passes them\<close>

lemma valid_key_of_len:
  assumes "base64_codec lib encode"
  shows "is_valid_mldsa65_public_key lib (key_of_len encode n) \<longleftrightarrow> n = 1952"
    "is_valid_mlkem768_public_key lib (key_of_len encode n) \<longleftrightarrow> n = 1184"
  using assms
  by (simp_all add: base64_codec_def is_valid_mldsa65_public_key_def is_valid_mlkem768_public_key_def key_of_len_def)

lemma invalid_base64:
  assumes "base64_codec lib encode" "\<not> list_all base64_char s"
  shows "\<not> is_valid_mldsa65_public_key lib s" "\<not> is_valid_mlkem768_public_key lib s"
  using assms
  by (auto simp: base64_codec_def is_valid_mldsa65_public_key_def is_valid_mlkem768_public_key_def
      split: option.splits)

lemma key_tests_pass:
  assumes "base64_codec lib encode"
  shows "accepts_correctly_sized_mldsa65_key lib encode"
    "rejects_wrong_length_mldsa65_key lib encode"
    "rejects_non_base64_mldsa65_key lib"
    "accepts_correctly_sized_mlkem768_key lib encode"
    "rejects_wrong_length_mlkem768_key lib encode"
    "rejects_non_base64_mlkem768_key lib"
    "does_not_confuse_the_two_key_types lib encode"
proof -
  have "\<not> list_all base64_char ''not valid base64!!!''" "\<not> list_all base64_char ''@@@not-base64@@@''"
    by code_simp+
  then show "rejects_non_base64_mldsa65_key lib" "rejects_non_base64_mlkem768_key lib"
    unfolding rejects_non_base64_mldsa65_key_def rejects_non_base64_mlkem768_key_def
    using invalid_base64 [OF assms] by blast+
qed (simp_all add: valid_key_of_len [OF assms] accepts_correctly_sized_mldsa65_key_def
    rejects_wrong_length_mldsa65_key_def accepts_correctly_sized_mlkem768_key_def
    rejects_wrong_length_mlkem768_key_def does_not_confuse_the_two_key_types_def)

lemma full_limiter_check:
  assumes "0 \<le> r" "c < 2 ^ 53"
  shows "rate_limiter_check now (rate_limiter_new (of_nat (Suc c)) r t1) =
     (True, \<lparr>rl_tokens = of_nat c, rl_capacity = of_nat (Suc c), rl_refill_per_sec = r, rl_last_refill = now\<rparr>)"
proof -
  let ?d = "saturating_duration_since now t1"
  have "0 \<le> f64_mul (as_secs_f64 ?d) r"
    using assms(1) as_secs_f64_nonneg [of ?d] by (simp add: f64_mul_def f64.rnd_nonneg)
  then have "of_nat (Suc c) \<le> f64_add (of_nat (Suc c)) (f64_mul (as_secs_f64 ?d) r)"
    unfolding f64_add_def using assms(2) f64.int_le_rnd [of "int (Suc c)"] by simp
  then have "refilled (of_nat (Suc c)) ?d r (of_nat (Suc c)) = of_nat (Suc c)"
    by (simp add: f64_min_def)
  moreover have "f64_sub (of_nat (Suc c)) 1 = of_nat c"
    using rnd64_int [of "int c"] assms(2) by (simp add: f64_sub_def)
  ultimately show ?thesis
    by (simp add: rate_limiter_check_eq rate_limiter_new_def)
qed

lemma rate_limiter_tests_pass:
  "rate_limiter_allows_burst_up_to_capacity t0 t1"
  "rate_limiter_refills_over_time t0 t1"
  "rate_limiter_caps_at_capacity t0 t1"
proof -
  let ?rl = "\<lambda>k c r t. \<lparr>rl_tokens = of_nat k, rl_capacity = of_nat c, rl_refill_per_sec = r, rl_last_refill = t\<rparr>"
  have same: "rate_limiter_check t (?rl k c r t) = (if 0 < k then (True, ?rl (k - 1) c r t) else (False, ?rl k c r t))"
    if "k \<le> c" "c \<le> 2 ^ 53" for k c r t
    using rate_limiter_check_same_instant [of "?rl k c r t" k c t] that by simp
  have first: "rate_limiter_check t (rate_limiter_new 3 r t1) = (True, ?rl 2 3 r t)"
      "rate_limiter_check t (rate_limiter_new 2 r t1) = (True, ?rl 1 2 r t)" if "0 \<le> r" for r t
    using full_limiter_check [of r 2 t t1] full_limiter_check [of r 1 t t1] that
    by simp_all
  show "rate_limiter_allows_burst_up_to_capacity t0 t1"
    using first(1) [of 1 t0] same [of 2 3 t0 1] same [of 1 3 t0 1] same [of 0 3 t0 1]
    by (simp add: rate_limiter_allows_burst_up_to_capacity_def)
  have "refilled 0 (saturating_duration_since (t0 + nanos_per_sec) t0) 1 2 = 1"
    using as_secs_f64_whole [of 1] rnd64_int [of 1]
    by (simp add: saturating_duration_since_def f64_min_def f64_add_def f64_mul_def) (simp add: nanos_per_sec_def)
  then have "rate_limiter_check (t0 + nanos_per_sec) (?rl 0 2 1 t0) = (True, ?rl 0 2 1 (t0 + nanos_per_sec))"
    using rnd64_int [of 0] by (simp add: rate_limiter_check_eq f64_sub_def)
  then show "rate_limiter_refills_over_time t0 t1"
    using first(2) [of 1 t0] same [of 1 2 t0 1] same [of 0 2 t0 1] same [of 0 2 "t0 + nanos_per_sec" 1]
    by (simp add: rate_limiter_refills_over_time_def)
  show "rate_limiter_caps_at_capacity t0 t1"
    using first(2) [of 100 "t0 + 10 * nanos_per_sec"] same [of 1 2 "t0 + 10 * nanos_per_sec" 100]
      same [of 0 2 "t0 + 10 * nanos_per_sec" 100]
    by (simp add: rate_limiter_caps_at_capacity_def Let_def)
qed

lemma written:
  assumes "compact_writer to_text"
  shows "list_all unescaped s \<Longrightarrow> to_text (JStr s) = quoted s"
    "to_text (JInt 1) = ''1''" "to_text (JBool True) = ''true''" "to_text (JBool False) = ''false''"
    "to_text (JInt 7) = ''7''" "to_text (JInt 42) = ''42''"
    "to_text (tagged t es) = ''{'' @ comma_separated (map (\<lambda>e. to_text (JStr (fst e)) @ '':'' @ to_text (snd e))
        ((''type'', JStr t) # es)) @ ''}''"
proof -
  have "to_text (json_u64 n) = u64_to_string n" for n
    using assms by (simp add: compact_writer_def)
  moreover have num: "uint (1 :: u64) = 1" "uint (7 :: u64) = 7" "uint (42 :: u64) = 42" by simp_all
  moreover have "u64_to_string 1 = ''1''" "u64_to_string 7 = ''7''" "u64_to_string 42 = ''42''" by code_simp+
  ultimately show "to_text (JInt 1) = ''1''" "to_text (JInt 7) = ''7''" "to_text (JInt 42) = ''42''"
    unfolding json_u64_def by (metis num)+
qed (use assms in \<open>simp_all add: compact_writer_def tagged_def\<close>)

lemma outgoing_tests_pass:
  assumes "compact_writer to_text"
  shows "welcome_serializes_with_creator to_text"
    "welcome_omits_creator_when_absent to_text"
    "peer_key_omits_sig_when_absent to_text"
    "peer_key_includes_sig_when_present to_text"
    "chat_event_maps_to_message_frame to_text"
    "chat_event_omits_epoch_and_counter_when_absent to_text"
    "peer_joined_event_maps_to_peer_joined_frame to_text"
    "tree_commit_event_maps_to_tree_commit_frame to_text"
    "tree_welcome_event_maps_to_tree_welcome_frame to_text"
    "typing_event_maps_to_typing_frame to_text"
    "peer_left_event_maps_to_peer_left_frame to_text"
    "room_expired_event_maps_to_room_expired_frame to_text"
    "room_full_serializes_as_bare_type to_text"
proof -
  note w = written [OF assms] quoted_def unescaped_def protocol_version_def json_u64_def optional_entry_def
  show "welcome_serializes_with_creator to_text" unfolding welcome_serializes_with_creator_def by (simp add: w)
  show "welcome_omits_creator_when_absent to_text" unfolding welcome_omits_creator_when_absent_def by (simp add: w)
  show "peer_key_omits_sig_when_absent to_text" unfolding peer_key_omits_sig_when_absent_def by (simp add: w)
  show "peer_key_includes_sig_when_present to_text" unfolding peer_key_includes_sig_when_present_def by (simp add: w)
  show "chat_event_maps_to_message_frame to_text" unfolding chat_event_maps_to_message_frame_def by (simp add: w)
  show "chat_event_omits_epoch_and_counter_when_absent to_text" unfolding chat_event_omits_epoch_and_counter_when_absent_def by (simp add: w)
  show "peer_joined_event_maps_to_peer_joined_frame to_text" unfolding peer_joined_event_maps_to_peer_joined_frame_def by (simp add: w)
  show "tree_commit_event_maps_to_tree_commit_frame to_text" unfolding tree_commit_event_maps_to_tree_commit_frame_def by (simp add: w)
  show "tree_welcome_event_maps_to_tree_welcome_frame to_text" unfolding tree_welcome_event_maps_to_tree_welcome_frame_def by (simp add: w)
  show "typing_event_maps_to_typing_frame to_text" unfolding typing_event_maps_to_typing_frame_def by (simp add: w)
  show "peer_left_event_maps_to_peer_left_frame to_text" unfolding peer_left_event_maps_to_peer_left_frame_def by (simp add: w)
  show "room_expired_event_maps_to_room_expired_frame to_text" unfolding room_expired_event_maps_to_room_expired_frame_def by (simp add: w)
  show "room_full_serializes_as_bare_type to_text" unfolding room_full_serializes_as_bare_type_def by (simp add: w)
qed

lemma incoming_tests_pass:
  assumes "reads_documents lib"
  shows "parses_key_announce_with_all_fields lib"
    "parses_message_and_defaults_missing_fields lib"
    "unknown_type_deserializes_to_unknown_not_error lib"
    "legacy_and_unknown_fields_are_ignored lib"
proof -
  note reads = assms [unfolded reads_documents_def documents_def, simplified]
  note dec = incoming_from_str_def decode_incoming_def take_tag_def struct_entries_def default_field_def
    entries_of_def unit_content_def as_option_def
  show "parses_key_announce_with_all_fields lib"
    unfolding parses_key_announce_with_all_fields_def by (simp add: reads dec)
  show "parses_message_and_defaults_missing_fields lib"
    unfolding parses_message_and_defaults_missing_fields_def by (simp add: reads dec)
  show "unknown_type_deserializes_to_unknown_not_error lib"
    unfolding unknown_type_deserializes_to_unknown_not_error_def by (simp add: reads dec)
  show "legacy_and_unknown_fields_are_ignored lib"
    unfolding legacy_and_unknown_fields_are_ignored_def by (simp add: reads dec)
qed

section \<open>Crates that keep to it\<close>

text \<open>A writer of the compact form, and a codec over two letters of the alphabet per byte.\<close>

function sample_to_text :: "json \<Rightarrow> string" where
  "sample_to_text JNull = ''null''"
| "sample_to_text (JBool b) = (if b then ''true'' else ''false'')"
| "sample_to_text (JInt n) = u64_to_string (word_of_int n)"
| "sample_to_text (JFloat x) = ''0.5''"
| "sample_to_text (JStr s) = quoted s"
| "sample_to_text (JArr js) = ''['' @ comma_separated (map sample_to_text js) @ '']''"
| "sample_to_text (JObj es) =
     ''{'' @ comma_separated (map (\<lambda>e. quoted (fst e) @ '':'' @ sample_to_text (snd e)) es) @ ''}''"
  by pat_completeness auto
termination
proof (relation "measure size")
  fix e :: "string \<times> json" and es assume "e \<in> set es"
  then have "size_prod (\<lambda>_. 0) size e \<le> size_list (size_prod (\<lambda>_. 0) size) es"
    by (rule size_list_estimation') simp
  then show "(snd e, JObj es) \<in> measure size" by (cases e) simp
qed (auto simp: less_Suc_eq_le intro: size_list_estimation')

definition hex_pair :: "char \<Rightarrow> string" where
  "hex_pair c = (let n = of_char c :: nat in [char_of (65 + n div 16), char_of (65 + n mod 16)])"

definition hex_encode :: "string \<Rightarrow> string" where
  "hex_encode bs = concat (map hex_pair bs)"

fun hex_decode :: "string \<Rightarrow> string option" where
  "hex_decode [] = Some []"
| "hex_decode (a # b # cs) =
     (if base64_char a \<and> base64_char b
      then map_option (\<lambda>bs. char_of ((of_char a - 65) * 16 + (of_char b - 65) :: nat) # bs) (hex_decode cs)
      else None)"
| "hex_decode [c] = None"

definition sample_test_lib :: "crypto_lib \<Rightarrow> http_lib \<Rightarrow> web_lib" where
  "sample_test_lib crypto http =
     \<lparr>web_http = http, web_crypto = crypto, web_json = map_of documents, web_base64 = hex_decode\<rparr>"

lemma base64_letter: "m < 16 \<Longrightarrow> base64_char (char_of (65 + m :: nat))"
  by (simp add: base64_char_def Let_def)

lemma hex_decode_encode: "hex_decode (hex_encode bs) = Some bs"
proof (induction bs)
  case Nil
  show ?case by (simp add: hex_encode_def)
next
  case (Cons c cs)
  have n: "(of_char c :: nat) < 256" by simp
  then have d: "(of_char c :: nat) div 16 < 16" "(of_char c :: nat) mod 16 < 16"
    using n by (simp_all add: less_mult_imp_div_less)
  note base64_letter [OF d(1)] base64_letter [OF d(2)]
  moreover have "char_of ((of_char (char_of (65 + of_char c div 16 :: nat) :: char) - 65) * 16
      + (of_char (char_of (65 + of_char c mod 16 :: nat) :: char) - 65) :: nat) = c"
    using d n by simp
  ultimately show ?case using Cons.IH by (simp add: hex_encode_def hex_pair_def Let_def)
qed

lemma hex_decode_chars: "hex_decode s \<noteq> None \<Longrightarrow> list_all base64_char s"
  by (induction s rule: hex_decode.induct) (auto split: if_splits)

lemma sample_crates:
  "base64_codec (sample_test_lib crypto http) hex_encode"
  "compact_writer sample_to_text"
  "reads_documents (sample_test_lib crypto http)"
proof -
  show "base64_codec (sample_test_lib crypto http) hex_encode"
    using hex_decode_encode hex_decode_chars by (simp add: base64_codec_def sample_test_lib_def del: not_None_eq)
  show "compact_writer sample_to_text"
    by (simp add: compact_writer_def json_u64_def)
  show "reads_documents (sample_test_lib crypto http)"
    by (simp add: reads_documents_def sample_test_lib_def documents_def)
qed

end
