(* ===== verification/UnitTests.thy ===== *)
theory UnitTests
imports AdmissionTests StoreTests PasswordTests WsTests
begin

text \<open>
  The unit tests of the repository, all together: the model behaves on their inputs as they assert of
  the code. What they rely on of third-party crates, of the clock and of the database answering is what
  their theories state.
\<close>

text \<open>
  Every test of the modules, translated assertion by assertion, holds at every instant, for every base64
  codec, JSON writer and reader, normalisation and header type that keep to their documentation, and for
  every sane clock. That the wrong password of the hashing test is not taken for the right one is an
  assumption on the hash function (\<open>no_collision\<close>), as it is in the test.
\<close>

lemma unit_tests_hold:
  assumes "base64_codec lib encode" "compact_writer to_text" "reads_documents lib"
    and "nfc_documented (web_crypto lib)" "reads_visible_ascii (web_http lib)" "sane_calls c"
    and "argon_documented (web_crypto lib)" "argon_texts (web_crypto lib)" "no_collision (web_crypto lib)"
    and "length salt = 16" "length salt' = 16" "salt \<noteq> salt'"
  shows "budgets_refill_without_resetting_on_reconnection now
    \<and> full_limiter_rejects_new_entries_and_expires_idle_entries now
    \<and> pending_guards_bound_global_and_per_ip_counts_and_release_on_drop
    \<and> expiry_hours_convert_to_seconds
    \<and> zero_hours_is_zero_seconds
    \<and> create_and_check_room c
    \<and> delete_inactive_rooms_targets_only_stale_rooms c
    \<and> update_activity_refreshes_timestamp c
    \<and> forwarded_address_is_trusted_only_from_configured_proxy (web_http lib)
    \<and> normalization_and_limits_preserve_password_semantics (web_crypto lib)
    \<and> salted_hashes_verify_and_corrupt_or_unbounded_hashes_fail_closed (web_crypto lib) salt salt'
    \<and> benchmark_two_concurrent_verifications (web_crypto lib) salt
    \<and> common_passwords_are_rejected_before_hashing (web_crypto lib) salt panics
    \<and> cancellation_keeps_blocking_permit_until_job_finishes
    \<and> accepts_correctly_sized_mldsa65_key lib encode
    \<and> rejects_wrong_length_mldsa65_key lib encode
    \<and> rejects_non_base64_mldsa65_key lib
    \<and> accepts_correctly_sized_mlkem768_key lib encode
    \<and> rejects_wrong_length_mlkem768_key lib encode
    \<and> rejects_non_base64_mlkem768_key lib
    \<and> does_not_confuse_the_two_key_types lib encode
    \<and> rate_limiter_allows_burst_up_to_capacity read created
    \<and> rate_limiter_refills_over_time read created
    \<and> rate_limiter_caps_at_capacity read created
    \<and> welcome_serializes_with_creator to_text
    \<and> welcome_omits_creator_when_absent to_text
    \<and> peer_key_omits_sig_when_absent to_text
    \<and> peer_key_includes_sig_when_present to_text
    \<and> chat_event_maps_to_message_frame to_text
    \<and> chat_event_omits_epoch_and_counter_when_absent to_text
    \<and> peer_joined_event_maps_to_peer_joined_frame to_text
    \<and> tree_commit_event_maps_to_tree_commit_frame to_text
    \<and> tree_welcome_event_maps_to_tree_welcome_frame to_text
    \<and> typing_event_maps_to_typing_frame to_text
    \<and> peer_left_event_maps_to_peer_left_frame to_text
    \<and> room_expired_event_maps_to_room_expired_frame to_text
    \<and> room_full_serializes_as_bare_type to_text
    \<and> parses_key_announce_with_all_fields lib
    \<and> parses_message_and_defaults_missing_fields lib
    \<and> unknown_type_deserializes_to_unknown_not_error lib
    \<and> legacy_and_unknown_fields_are_ignored lib"
  by (intro conjI admission_tests config_tests_pass db_tests_pass [OF assms(6)] security_test_passes [OF assms(5)]
      normalization_test_passes [OF assms(4)] common_test_passes [OF assms(4)] cancellation_test_passes
      salted_test_passes [OF assms(7-9,4,10-12)] benchmark_passes [OF assms(7,8,4,10)]
      key_tests_pass [OF assms(1)] rate_limiter_tests_pass outgoing_tests_pass [OF assms(2)]
      incoming_tests_pass [OF assms(3)])

lemma unit_tests_hold_example:
  "budgets_refill_without_resetting_on_reconnection 0
   \<and> update_activity_refreshes_timestamp (\<lambda>i. sample_call 1700000000)
   \<and> normalization_and_limits_preserve_password_semantics composing_lib
   \<and> salted_hashes_verify_and_corrupt_or_unbounded_hashes_fail_closed composing_lib
        (replicate 16 CHR ''a'') (replicate 16 CHR ''b'')
   \<and> rate_limiter_refills_over_time 5 0
   \<and> welcome_serializes_with_creator sample_to_text
   \<and> accepts_correctly_sized_mldsa65_key (sample_test_lib composing_lib ascii_lib) hex_encode
   \<and> parses_key_announce_with_all_fields (sample_test_lib composing_lib ascii_lib)"
proof -
  let ?lib = "sample_test_lib composing_lib ascii_lib"
  have lib: "nfc_documented (web_crypto ?lib)" "reads_visible_ascii (web_http ?lib)"
      "argon_documented (web_crypto ?lib)" "argon_texts (web_crypto ?lib)" "no_collision (web_crypto ?lib)"
    using composing_lib_documented composing_lib_argon ascii_lib_reads by (simp_all add: sample_test_lib_def)
  have salts: "length (replicate 16 CHR ''a'') = 16" "length (replicate 16 CHR ''b'') = 16"
      "replicate 16 CHR ''a'' \<noteq> replicate 16 CHR ''b''"
    by simp_all
  from unit_tests_hold [OF sample_crates lib(1,2) sample_calls_sane lib(3-5) salts, where now = 0 and read = 5 and created = 0]
  show ?thesis by (simp add: sample_test_lib_def)
qed

end
