(* ===== verification/Spec2Isabelle.thy ===== *)
theory Spec2Isabelle
imports AdmissionBudget SystemDemo Server UnitTests
begin

text \<open>
  A model of the Parrhesia backend, a chat server for short-lived rooms whose messages are encrypted
  end to end: clients create rooms over HTTP, enter them over WebSockets, and the server relays what
  they send. The model follows the Rust sources under \<open>src/src/\<close>, one theory or a few for each file.

  The parts and where they are modelled:

  \<^item> \<open>src/admission.rs\<close> (budgets per key as token buckets, slots for pending authentications, counters):
    \<open>Admission\<close> has the state and the operations, \<open>AdmissionSlots\<close> the slots as a pool of guards,
    \<open>AdmissionBudget\<close> what a key is granted over time. The floats are rationals with one rounding per
    operation (\<open>Float64\<close>: 53 bits, round to nearest even), and \<open>TokenBucket\<close> is the contract that both
    \<open>check_at\<close> and the limiter of a connection (\<open>RateLimiter\<close>) are shown to implement.
  \<^item> \<open>src/passwords.rs\<close>: \<open>Passwords\<close> (policy, permits, hash, verify) and \<open>Blocklist\<close> (the shipped list).
    \<open>GuardPool\<close> is the contract that the permits and the slots share.
  \<^item> \<open>src/config.rs\<close>, \<open>src/security.rs\<close>, \<open>src/db.rs\<close>, \<open>src/cleanup.rs\<close>, \<open>src/routes/rooms.rs\<close>: \<open>Config\<close>,
    \<open>Security\<close>, \<open>Db\<close> (with the contract \<open>RoomStore\<close>), \<open>Cleanup\<close>, \<open>RoomsRoutes\<close>.
  \<^item> \<open>src/state.rs\<close>: \<open>State\<close> has rooms and the operations under the lock, \<open>Channel\<close> the broadcast channel of
    tokio they send on, \<open>Membership\<close> the steps on the shared state, their invariant and its consequences.
  \<^item> \<open>src/routes/ws.rs\<close>: \<open>Wire\<close> and \<open>Json\<close> have the messages, \<open>Ws\<close> the upgrade handler and the session,
    \<open>WsAuth\<close> its authentication, \<open>WsRelay\<close> and \<open>WsLimits\<close> what it relays and for how long.
  \<^item> All of it together: \<open>System\<close> is the transition system of the shared state, every session, the room
    creations in progress and the jobs nobody waits for; \<open>SystemRooms\<close>, \<open>SystemMembers\<close> and
    \<open>SystemChannels\<close> relate rooms, sessions and channels in every reachable state; \<open>SystemEvents\<close> gives
    each step a name and runs lists of them, over which the properties of histories are stated (who had
    authenticated, what an abandoned job holds, that a purged room stays away); \<open>SystemLiveness\<close>,
    \<open>SystemEntry\<close>, \<open>SystemDelivery\<close> and \<open>SystemExpiry\<close> show what is sure to happen; \<open>SystemDemo\<close> has runs.
  \<^item> \<open>src/lib.rs\<close> and \<open>src/main.rs\<close>: \<open>App\<close> has the routes, the layers around them, one request through
    them, and start-up; \<open>Server\<close> has the runs of a started server, with the ticks of its own tasks.
  \<^item> The modules \<open>tests\<close> of these files: \<open>AdmissionTests\<close>, \<open>StoreTests\<close> (configuration, database, client
    address), \<open>PasswordTests\<close> and \<open>WsTests\<close> have every unit test as a definition that is true when its
    assertions hold, and \<open>UnitTests\<close> shows that the model passes all of them.
    The event that a test is about is part of its definition: the cancellation of a password job, for
    one, drops what the aborted future owns.

  How the code is represented. \<open>AppState\<close> is the record \<open>app_state\<close>, passed explicitly; a function that
  changes it returns the new one. What happens under one lock, without an await that lets go of it, is
  one step. A session is a state machine: its phases are the awaits of \<open>handle_socket\<close> and
  \<open>authenticate\<close>, its inputs are what an await can yield (a frame, a time-out, the end of a job, an
  event, a tick), and \<open>session_step\<close> is the code from one await to the next. Errors are values of a sum;
  an early return is a branch. Counters and timestamps are words with the wrap-around of a release
  build, strings are their UTF-8 bytes, hash maps are association lists with distinct keys, and a
  \<open>Sender\<close> is the number of a channel, whose log is never cut (the receiver's lag is computed from it).

  Parameters, for code that is not in the repository: the functions of \<open>argon2\<close> and
  \<open>unicode_normalization\<close> (\<open>crypto_lib\<close>), of \<open>http\<close> (\<open>http_lib\<close>), \<open>serde_json\<close> from text to value and
  \<open>base64\<close> (\<open>web_lib\<close>), of \<open>axum\<close> and \<open>tower_http\<close> around the handlers (\<open>axum_lib\<close>). Only the round
  trips of passwords, the layers of the router and the unit tests assume something of them:
  \<open>argon_documented\<close>, with the instance \<open>toy_lib\<close>; \<open>routes_sound\<close>, \<open>bytes_limited\<close>, \<open>cors_adds_only\<close>, with
  the instance \<open>sample_axum\<close>; and, for the texts of the tests, what Unicode, PHC strings, base64, JSON
  and header values are documented to be, and that two given passwords do not collide, with the instances \<open>composing_lib\<close>, \<open>sample_test_lib\<close>,
  \<open>hex_encode\<close> and \<open>sample_to_text\<close>. A database call either takes effect or fails
  without effect. Of the environment of the whole system it is assumed that \<open>Uuid::new_v4\<close> is fresh.

  What the lemmas show. Locales state the interfaces and are interpreted on the code's definitions:
  \<open>token_bucket\<close> (both limiters), \<open>guard_pool\<close> (slots and permits), \<open>room_store\<close> (the database),
  \<open>broadcast\<close> (the channels). Per component: invariants kept by every operation, the outcome on every
  branch, bounds. Per session, under any interference: no one attaches to a protected room without its
  password; a session without it learns and changes nothing; a member is sent every event of its room
  that concerns it, in order and once; what it is told is the membership. For the system: slots and
  permits are never lost, not even to clients that hang up, the members of a room are its live sessions, with valid keys and, in a
  protected room, the password; rooms do not leak into each other; a client that does what the protocol
  asks gets in, as long as the limits admit it; a message of a member reaches every
  other member that reads its channel, and so does the end of the room; a session whose client is gone
  ends. For the server: start-up
  leads to an initial state of the system or fails for a stated reason, every request is steps of the
  system, and what requests can change and which headers answers carry is stated. The model behaves on
  the inputs of the unit tests as they assert of the code. Three properties describe defects of the code
  (two creators, expiry hours that wrap, an interval of zero).

  Bounds and fuel. The rounding errors of the limiters are \<open>2 ^ -37\<close> tokens per check, which holds for
  capacities up to 64 and rates up to 32, as the code has them. The only fuel is that of the decimal
  digits of a word (\<open>decimal_digits\<close>): twenty digits, enough for 64 bits. A session goes through at
  most 27 changes of phase (\<open>phase_rank\<close>): eleven phases and at most 16 frames for a new member. A run
  of the system is any finite number of steps.

  Not modelled: how \<open>axum\<close> matches paths and decodes them and what \<open>tower_http\<close> answers to a preflight
  (parameters), the removal of the body of an answer to \<open>HEAD\<close>, the set-up of tracing and all logging,
  the zeroing of passwords in memory, the integration tests under \<open>src/tests/\<close>, which drive the modelled
  handlers over sockets, SQLite and its locking below single statements, \<open>serde_json\<close> below values, the framing of WebSockets
  and their refusal of frames over \<open>max_message_bytes\<close> (a transport error for the session),
  the scheduler of tokio (any interleaving is allowed instead), and the cancellation of a task between
  awaits at shutdown.
\<close>

end
